(* ===== verification/Prelude.thy ===== *)
theory Prelude
  imports Main "HOL-Library.Word" "HOL-Library.Signed_Division" "HOL-Library.Monad_Syntax"
begin

unbundle bit_operations_syntax

text \<open>
  Shared vocabulary of the development.

  \<^item> The fixed-width types of \<^verbatim>\<open>src/student-distrib/types.h\<close> are words;
    \<open>u8\<close> also stands for \<^verbatim>\<open>int8_t\<close>/\<^verbatim>\<open>char\<close> objects, whose signed
    reading is \<^const>\<open>sint\<close>. A C \<^verbatim>\<open>int\<close> that is kept in a small range by
    an invariant (screen coordinates, buffer indices) is an \<^typ>\<open>int\<close>, and the invariant
    is what rules out overflow; C division and remainder truncate, so they are
    \<^const>\<open>signed_divide\<close> and \<^const>\<open>signed_modulo\<close>.
  \<^item> A C object that is indexed (a string, a buffer) is a byte list; reading or writing
    outside it is the value \<^const>\<open>None\<close>. Raw memory that code addresses by pointer
    arithmetic is a total function from 32-bit addresses to bytes.
  \<^item> A counted \<^verbatim>\<open>for\<close> loop is a \<^const>\<open>fold\<close> over the interval of
    its counter, in the counter's order.
\<close>

type_synonym u8 = "8 word"
type_synonym u16 = "16 word"
type_synonym u32 = "32 word"
type_synonym memory = "u32 \<Rightarrow> u8"

named_theorems loop_simps "closed forms of counted loops"
named_theorems inv_intros "operations keep their component's invariant"
named_theorems frame_simps "fields an operation does not touch"

definition rd :: "'a list \<Rightarrow> nat \<Rightarrow> 'a option" where
  "rd xs i = (if i < length xs then Some (xs ! i) else None)"

definition wr :: "'a list \<Rightarrow> nat \<Rightarrow> 'a \<Rightarrow> 'a list option" where
  "wr xs i v = (if i < length xs then Some (xs[i := v]) else None)"

definition cstr :: "u8 list \<Rightarrow> u8 list" where
  "cstr s = takeWhile (\<lambda>b. b \<noteq> 0) s"

definition bytes :: "string \<Rightarrow> u8 list" where
  "bytes s = map of_char s"

definition obj_at :: "memory \<Rightarrow> u32 \<Rightarrow> nat \<Rightarrow> u8 list" where
  "obj_at m a n = map (\<lambda>k. m (a + of_nat k)) [0..<n]"

definition read_u32 :: "memory \<Rightarrow> u32 \<Rightarrow> u32" where
  "read_u32 m a =
     ucast (m a) OR push_bit 8 (ucast (m (a + 1)))
     OR push_bit 16 (ucast (m (a + 2))) OR push_bit 24 (ucast (m (a + 3)))"

text \<open>
  A busy-wait loop, \<^verbatim>\<open>while (cond);\<close>, makes no progress by itself: it ends when an
  interrupt handler changes the state. The list holds the interrupts that arrive, in order, and \<open>h\<close> is what an
  interrupt does; it is \<^const>\<open>None\<close> when the handler does not come back to the loop. The loop is
  \<^const>\<open>None\<close> when it still spins after all the interrupts or is not resumed after one.
\<close>

fun busy_wait :: "('s \<Rightarrow> bool) \<Rightarrow> ('e \<Rightarrow> 's \<Rightarrow> 's option) \<Rightarrow> 'e list \<Rightarrow> 's \<Rightarrow> ('s \<times> 'e list) option" where
  "busy_wait cond h [] s = (if cond s then None else Some (s, []))"
| "busy_wait cond h (e # es) s =
     (if cond s then do { s \<leftarrow> h e s; busy_wait cond h es s } else Some (s, e # es))"

text \<open>The state after a number of interrupts, all of whose handlers come back.\<close>

fun run_events :: "('e \<Rightarrow> 's \<Rightarrow> 's option) \<Rightarrow> 'e list \<Rightarrow> 's \<Rightarrow> 's option" where
  "run_events h [] s = Some s"
| "run_events h (e # es) s = do { s \<leftarrow> h e s; run_events h es s }"

section \<open>Objects: bounded reads and writes\<close>

lemma rd_Some [simp]: "i < length xs \<Longrightarrow> rd xs i = Some (xs ! i)"
  by (simp add: rd_def)

lemma rd_None [simp]: "length xs \<le> i \<Longrightarrow> rd xs i = None"
  by (simp add: rd_def)

lemma wr_Some [simp]: "i < length xs \<Longrightarrow> wr xs i v = Some (xs[i := v])"
  by (simp add: wr_def)

lemma wr_None [simp]: "length xs \<le> i \<Longrightarrow> wr xs i v = None"
  by (simp add: wr_def)

lemma rd_wr: "wr xs i v = Some ys \<Longrightarrow> rd ys j = (if j = i then Some v else rd xs j)"
  by (auto simp: wr_def rd_def split: if_splits)

lemma length_obj_at [simp]: "length (obj_at m a n) = n"
  by (simp add: obj_at_def)

lemma nth_obj_at [simp]: "i < n \<Longrightarrow> obj_at m a n ! i = m (a + of_nat i)"
  by (simp add: obj_at_def)

section \<open>C strings\<close>

lemma cstr_append_nul [simp]: "0 \<notin> set s \<Longrightarrow> cstr (s @ 0 # t) = s"
  unfolding cstr_def by (induction s) auto

lemma cstr_no_nul: "0 \<notin> set s \<Longrightarrow> cstr s = s"
  unfolding cstr_def by (induction s) auto

lemma nul_notin_cstr [simp]: "0 \<notin> set (cstr s)"
  by (auto simp: cstr_def dest: set_takeWhileD)

lemma length_cstr_le: "length (cstr s) \<le> length s"
  by (simp add: cstr_def length_takeWhile_le)

lemma length_cstr_less: "0 \<in> set s \<Longrightarrow> length (cstr s) < length s"
  unfolding cstr_def by (induction s) auto

lemma nth_cstr: "i < length (cstr s) \<Longrightarrow> cstr s ! i = s ! i"
  by (simp add: cstr_def takeWhile_nth)

lemma nth_length_cstr: "0 \<in> set s \<Longrightarrow> s ! length (cstr s) = 0"
  unfolding cstr_def by (induction s) auto

lemma cstr_split: "0 \<in> set s \<Longrightarrow> s = cstr s @ 0 # drop (Suc (length (cstr s))) s"
  unfolding cstr_def by (induction s) auto

text \<open>
  An object that is NUL-terminated or at least \<open>n\<close> bytes long can be read up to its
  terminator or up to index \<open>n\<close>.
\<close>

lemma nth_cstr_bounded:
  assumes "0 \<in> set s \<or> n \<le> length s" and "i \<le> length (cstr s)" and "i < n"
  shows "i < length s" and "s ! i = (if i < length (cstr s) then cstr s ! i else 0)"
proof -
  have "i < length s \<and> s ! i = (if i < length (cstr s) then cstr s ! i else 0)"
  proof (cases "0 \<in> set s")
    case True
    with assms length_cstr_less [OF True] nth_length_cstr [OF True] nth_cstr [of i s]
    show ?thesis by auto
  next
    case False
    with assms show ?thesis by (simp add: cstr_no_nul)
  qed
  then show "i < length s" and "s ! i = (if i < length (cstr s) then cstr s ! i else 0)"
    by simp_all
qed

lemma nth_cstr_nonzero: "i < length (cstr s) \<Longrightarrow> cstr s ! i \<noteq> 0"
  by (metis nul_notin_cstr nth_mem)

section \<open>Busy waiting\<close>

text \<open>The loop leaves at the first interrupt after which the condition is false.\<close>

lemma busy_wait_done: "\<not> cond s \<Longrightarrow> busy_wait cond h es s = Some (s, es)"
  by (cases es) simp_all

lemma run_events_append: "run_events h (es @ fs) s = do { s \<leftarrow> run_events h es s; run_events h fs s }"
proof (induction es arbitrary: s)
  case (Cons e es)
  then show ?case by (cases "h e s") simp_all
qed simp

lemma busy_wait_skip:
  assumes "\<And>k u. k \<le> length es \<Longrightarrow> run_events h (take k es) s = Some u \<Longrightarrow> cond u"
  shows "busy_wait cond h (es @ fs) s = do { s \<leftarrow> run_events h es s; busy_wait cond h fs s }"
  using assms
proof (induction es arbitrary: s)
  case (Cons e es)
  have "cond s" using Cons.prems [of 0] by simp
  show ?case
  proof (cases "h e s")
    case (Some u)
    have "cond v" if "k \<le> length es" "run_events h (take k es) u = Some v" for k v
      using Cons.prems [of "Suc k"] that Some by simp
    then show ?thesis using Cons.IH [of u] Some \<open>cond s\<close> by simp
  qed (use \<open>cond s\<close> in simp)
qed simp

lemma busy_wait_stuck:
  assumes "\<And>k u. k \<le> length es \<Longrightarrow> run_events h (take k es) s = Some u \<Longrightarrow> cond u"
  shows "busy_wait cond h es s = None"
proof -
  have "busy_wait cond h es s = do { s \<leftarrow> run_events h es s; busy_wait cond h [] s }"
    using busy_wait_skip [of es h s cond "[]"] assms by simp
  moreover have "cond u" if "run_events h es s = Some u" for u using assms [of "length es" u] that by simp
  ultimately show ?thesis by (cases "run_events h es s") simp_all
qed

section \<open>Words\<close>

lemma sint_eq_iff [simp]: "sint (a :: 'a::len word) = sint b \<longleftrightarrow> a = b"
  by (auto intro: signed_word_eqI)

lemma ucast_u8_u32_u8 [simp]: "ucast (ucast (b :: u8) :: u32) = b"
  by (simp add: ucast_up_ucast_id is_up)

section \<open>C division on non-negative operands\<close>

lemma smod_nonneg [simp]: "0 \<le> a \<Longrightarrow> 0 < b \<Longrightarrow> (a :: int) smod b = a mod b"
  by (cases "a = 0") (simp_all add: smod_int_alt_def)

lemma sdiv_nonneg [simp]: "0 \<le> a \<Longrightarrow> 0 < b \<Longrightarrow> (a :: int) sdiv b = a div b"
  by (cases "a = 0") (simp_all add: signed_divide_int_def)

section \<open>Loops over byte arrays\<close>

text \<open>
  A loop that writes the cells \<open>h i\<close> for the counter values \<open>i\<close>: cells
  outside the range keep their value, and a cell written once holds what was written.
\<close>

lemma fold_upd_other:
  "a \<notin> h ` set xs \<Longrightarrow> fold (\<lambda>i g. g(h i := v i)) xs g a = g a"
  by (induction xs arbitrary: g) simp_all

lemma fold_upd_hit:
  assumes "i \<in> set xs" and "inj_on h (set xs)"
  shows "fold (\<lambda>i g. g(h i := v i)) xs g (h i) = v i"
  using assms
proof (induction xs arbitrary: g)
  case Nil
  then show ?case by simp
next
  case (Cons x xs)
  show ?case
  proof (cases "i \<in> set xs")
    case True
    moreover from Cons.prems(2) have "inj_on h (set xs)" by simp
    ultimately show ?thesis by (simp add: Cons.IH del: fun_upd_apply)
  next
    case False
    with Cons.prems have "i = x" by simp
    moreover from this False Cons.prems(2) have "h x \<notin> h ` set xs"
      by (auto simp: inj_on_def)
    ultimately show ?thesis by (simp add: fold_upd_other fun_upd_same del: fun_upd_apply)
  qed
qed

lemma fold_int_array [loop_simps]:
  "fold (\<lambda>i g. g(int i := v i)) [0..<n] g a =
   (if 0 \<le> a \<and> a < int n then v (nat a) else g a)"
proof (cases "0 \<le> a \<and> a < int n")
  case True
  then have "fold (\<lambda>i g. g(int i := v i)) [0..<n] g (int (nat a)) = v (nat a)"
    by (intro fold_upd_hit) auto
  with True show ?thesis by simp
next
  case False
  then have "a \<notin> int ` set [0..<n]" by auto
  then have "fold (\<lambda>i g. g(int i := v i)) [0..<n] g a = g a"
    by (rule fold_upd_other)
  with False show ?thesis by (simp only: if_False)
qed

end
