(* ===== verification/Lib_Memory.thy ===== *)
theory Lib_Memory
  imports Prelude
begin

text \<open>
  The memory routines of \<^verbatim>\<open>src/student-distrib/lib.c\<close>: \<open>memset\<close>, \<open>memset_word\<close>,
  \<open>memset_dword\<close>, \<open>memcpy\<close> and \<open>memmove\<close>. They are written in assembly; each
  labelled loop is a function here, with its registers as arguments, and the string instructions
  work on the byte memory with 32-bit addresses that wrap around. The segment registers are flat
  and equal, so loading \<open>es\<close> from \<open>ds\<close> has no effect on the addresses.

  The reference is \<open>overwrite\<close>, the memory in which a range of \<open>n\<close> bytes has new contents:
  the aligned, word-at-a-time routines are proved equal to it.
\<close>

section \<open>Operations\<close>

definition store32 :: "u32 \<Rightarrow> u32 \<Rightarrow> memory \<Rightarrow> memory" where
  "store32 a v m =
     m(a := ucast v, a + 1 := ucast (drop_bit 8 v), a + 2 := ucast (drop_bit 16 v), a + 3 := ucast (drop_bit 24 v))"

definition store16 :: "u32 \<Rightarrow> u32 \<Rightarrow> memory \<Rightarrow> memory" where
  "store16 a v m = m(a := ucast v, a + 1 := ucast (drop_bit 8 v))"

text \<open>\<open>rep stosl\<close> and \<open>rep stosw\<close> with the direction flag clear: the final \<open>edi\<close> and memory.\<close>

primrec rep_stosl :: "nat \<Rightarrow> u32 \<Rightarrow> u32 \<Rightarrow> memory \<Rightarrow> u32 \<times> memory" where
  "rep_stosl 0 eax edi m = (edi, m)"
| "rep_stosl (Suc ecx) eax edi m = rep_stosl ecx eax (edi + 4) (store32 edi eax m)"

primrec rep_stosw :: "nat \<Rightarrow> u32 \<Rightarrow> u32 \<Rightarrow> memory \<Rightarrow> u32 \<times> memory" where
  "rep_stosw 0 eax edi m = (edi, m)"
| "rep_stosw (Suc ecx) eax edi m = rep_stosw ecx eax (edi + 2) (store16 edi eax m)"

function memset_bottom :: "u32 \<Rightarrow> u32 \<Rightarrow> u32 \<Rightarrow> memory \<Rightarrow> memory" where
  "memset_bottom eax edi edx m =
     (if edx = 0 then m else memset_bottom eax (edi + 1) (edx - 1) (m(edi := ucast eax)))"
  by pat_completeness auto
termination
  by (relation "measure (\<lambda>(eax, edi, edx, m). unat edx)") (auto simp: unat_minus_one unat_gt_0)

definition memset_aligned :: "u32 \<Rightarrow> u32 \<Rightarrow> u32 \<Rightarrow> memory \<Rightarrow> memory" where
  "memset_aligned eax edi ecx m =
     (let edx = ecx;
          ecx = drop_bit 2 ecx;
          edx = edx AND 3;
          (edi, m) = rep_stosl (unat ecx) eax edi m
      in memset_bottom eax edi edx m)"

function memset_top :: "u32 \<Rightarrow> u32 \<Rightarrow> u32 \<Rightarrow> memory \<Rightarrow> memory" where
  "memset_top eax edi ecx m =
     (if ecx = 0 then m
      else if edi AND 3 = 0 then memset_aligned eax edi ecx m
      else memset_top eax (edi + 1) (ecx - 1) (m(edi := ucast eax)))"
  by pat_completeness auto
termination
  by (relation "measure (\<lambda>(eax, edi, ecx, m). unat ecx)") (auto simp: unat_minus_one unat_gt_0)

definition memset :: "u32 \<Rightarrow> u32 \<Rightarrow> u32 \<Rightarrow> memory \<Rightarrow> u32 \<times> memory" where
  "memset s c n m =
     (let c = c AND 0xFF;
          eax = push_bit 24 c OR push_bit 16 c OR push_bit 8 c OR c
      in (s, memset_top eax s n m))"

definition memset_word :: "u32 \<Rightarrow> u32 \<Rightarrow> u32 \<Rightarrow> memory \<Rightarrow> u32 \<times> memory" where
  "memset_word s c n m = (s, snd (rep_stosw (unat n) c s m))"

definition memset_dword :: "u32 \<Rightarrow> u32 \<Rightarrow> u32 \<Rightarrow> memory \<Rightarrow> u32 \<times> memory" where
  "memset_dword s c n m = (s, snd (rep_stosl (unat n) c s m))"

text \<open>\<open>rep movsl\<close> with the direction flag clear: the final \<open>esi\<close>, \<open>edi\<close> and memory.\<close>

primrec rep_movsl :: "nat \<Rightarrow> u32 \<Rightarrow> u32 \<Rightarrow> memory \<Rightarrow> u32 \<times> u32 \<times> memory" where
  "rep_movsl 0 esi edi m = (esi, edi, m)"
| "rep_movsl (Suc ecx) esi edi m = rep_movsl ecx (esi + 4) (edi + 4) (store32 edi (read_u32 m esi) m)"

function memcpy_bottom :: "u32 \<Rightarrow> u32 \<Rightarrow> u32 \<Rightarrow> memory \<Rightarrow> memory" where
  "memcpy_bottom esi edi edx m =
     (if edx = 0 then m else memcpy_bottom (esi + 1) (edi + 1) (edx - 1) (m(edi := m esi)))"
  by pat_completeness auto
termination
  by (relation "measure (\<lambda>(esi, edi, edx, m). unat edx)") (auto simp: unat_minus_one unat_gt_0)

definition memcpy_aligned :: "u32 \<Rightarrow> u32 \<Rightarrow> u32 \<Rightarrow> memory \<Rightarrow> memory" where
  "memcpy_aligned esi edi ecx m =
     (let edx = ecx;
          ecx = drop_bit 2 ecx;
          edx = edx AND 3;
          (esi, edi, m) = rep_movsl (unat ecx) esi edi m
      in memcpy_bottom esi edi edx m)"

function memcpy_top :: "u32 \<Rightarrow> u32 \<Rightarrow> u32 \<Rightarrow> memory \<Rightarrow> memory" where
  "memcpy_top esi edi ecx m =
     (if ecx = 0 then m
      else if edi AND 3 = 0 then memcpy_aligned esi edi ecx m
      else memcpy_top (esi + 1) (edi + 1) (ecx - 1) (m(edi := m esi)))"
  by pat_completeness auto
termination
  by (relation "measure (\<lambda>(esi, edi, ecx, m). unat ecx)") (auto simp: unat_minus_one unat_gt_0)

definition memcpy :: "u32 \<Rightarrow> u32 \<Rightarrow> u32 \<Rightarrow> memory \<Rightarrow> u32 \<times> memory" where
  "memcpy dest src n m = (dest, memcpy_top src dest n m)"

text \<open>
  \<open>rep movsb\<close> in the direction of the flag. \<open>memmove\<close> returns the destination, the
  direction flag it leaves behind and the memory.
\<close>

primrec rep_movsb :: "bool \<Rightarrow> nat \<Rightarrow> u32 \<Rightarrow> u32 \<Rightarrow> memory \<Rightarrow> memory" where
  "rep_movsb df 0 esi edi m = m"
| "rep_movsb df (Suc ecx) esi edi m =
     rep_movsb df ecx (if df then esi - 1 else esi + 1) (if df then edi - 1 else edi + 1) (m(edi := m esi))"

definition memmove :: "u32 \<Rightarrow> u32 \<Rightarrow> u32 \<Rightarrow> memory \<Rightarrow> u32 \<times> bool \<times> memory" where
  "memmove dest src n m =
     (if src \<ge> dest then (dest, False, rep_movsb False (unat n) src dest m)
      else (dest, True, rep_movsb True (unat n) (src + n - 1) (dest + n - 1) m))"

declare memset_bottom.simps [simp del] memset_top.simps [simp del]
  memcpy_bottom.simps [simp del] memcpy_top.simps [simp del]

section \<open>Reference: overwriting a range\<close>

definition overwrite :: "u32 \<Rightarrow> nat \<Rightarrow> (nat \<Rightarrow> u8) \<Rightarrow> memory \<Rightarrow> memory" where
  "overwrite a n f m = (\<lambda>x. if unat (x - a) < n then f (unat (x - a)) else m x)"

text \<open>The byte at an offset of a little-endian word that is repeated.\<close>

definition byte_of :: "u32 \<Rightarrow> nat \<Rightarrow> u8" where
  "byte_of v i = ucast (drop_bit (8 * i) v)"

lemma overwrite_0 [simp]: "overwrite a 0 f m = m"
  by (simp add: overwrite_def)

lemma unat_offset: "unat ((a + of_nat k :: u32) - a) = k mod 2 ^ 32"
  by (simp add: unat_of_nat)

text \<open>Writing one more byte behind a range extends the range.\<close>

lemma overwrite_Suc:
  assumes "k < 2 ^ 32"
  shows "(overwrite a k f m)(a + of_nat k := f k) = overwrite a (Suc k) f m"
proof
  fix x :: u32
  show "((overwrite a k f m)(a + of_nat k := f k)) x = overwrite a (Suc k) f m x"
  proof (cases "x = a + of_nat k")
    case True
    then show ?thesis using assms by (simp add: overwrite_def unat_of_nat)
  next
    case False
    have "unat (x - a) \<noteq> k"
    proof
      assume "unat (x - a) = k"
      then have "x - a = of_nat k" by (metis of_nat_unat ucast_id)
      with False show False by (simp add: algebra_simps)
    qed
    with False show ?thesis by (auto simp: overwrite_def less_Suc_eq)
  qed
qed

lemma overwrite_cong: "(\<And>i. i < n \<Longrightarrow> f i = g i) \<Longrightarrow> overwrite a n f m = overwrite a n g m"
  by (auto simp: overwrite_def fun_eq_iff)

lemma overwrite_store32:
  assumes "k + 4 \<le> 2 ^ 32" and "\<And>i. i < 4 \<Longrightarrow> f (k + i) = byte_of v i"
  shows "store32 (a + of_nat k) v (overwrite a k f m) = overwrite a (k + 4) f m"
proof -
  have f: "f k = ucast v" "f (Suc k) = ucast (drop_bit 8 v)" "f (Suc (Suc k)) = ucast (drop_bit 16 v)"
    "f (Suc (Suc (Suc k))) = ucast (drop_bit 24 v)"
    using assms(2) [of 0] assms(2) [of 1] assms(2) [of 2] assms(2) [of 3]
    by (simp_all add: byte_of_def eval_nat_numeral)
  have "overwrite a (k + 4) f m = overwrite a (Suc (Suc (Suc (Suc k)))) f m"
    by (simp add: eval_nat_numeral)
  also have "\<dots> = store32 (a + of_nat k) v (overwrite a k f m)"
    using assms(1) by (simp add: overwrite_Suc [symmetric] f store32_def algebra_simps)
  finally show ?thesis ..
qed

lemma overwrite_store16:
  assumes "k + 2 \<le> 2 ^ 32" and "\<And>i. i < 2 \<Longrightarrow> f (k + i) = byte_of v i"
  shows "store16 (a + of_nat k) v (overwrite a k f m) = overwrite a (k + 2) f m"
proof -
  have f: "f k = ucast v" "f (Suc k) = ucast (drop_bit 8 v)"
    using assms(2) [of 0] assms(2) [of 1] by (simp_all add: byte_of_def)
  have "overwrite a (k + 2) f m = overwrite a (Suc (Suc k)) f m" by simp
  also have "\<dots> = store16 (a + of_nat k) v (overwrite a k f m)"
    using assms(1) by (simp add: overwrite_Suc [symmetric] f store16_def algebra_simps)
  finally show ?thesis ..
qed

section \<open>Filling\<close>

lemma rep_stosl_overwrite:
  assumes "k + 4 * n \<le> 2 ^ 32" and "\<And>j i. i < 4 \<Longrightarrow> f (k + 4 * j + i) = byte_of eax i"
  shows "rep_stosl n eax (a + of_nat k) (overwrite a k f m) = (a + of_nat (k + 4 * n), overwrite a (k + 4 * n) f m)"
  using assms
proof (induction n arbitrary: k)
  case (Suc n)
  have "f (k + 4 + 4 * j + i) = byte_of eax i" if "i < 4" for i j
    using Suc.prems(2) [OF that, of "Suc j"] by (simp add: algebra_simps)
  from Suc.IH [OF _ this] Suc.prems have
    "rep_stosl n eax (a + of_nat (k + 4)) (overwrite a (k + 4) f m) = (a + of_nat (k + 4 + 4 * n), overwrite a (k + 4 + 4 * n) f m)"
    by simp
  moreover have "store32 (a + of_nat k) eax (overwrite a k f m) = overwrite a (k + 4) f m"
    using Suc.prems(1) Suc.prems(2) [where j = 0] by (intro overwrite_store32) simp_all
  ultimately show ?case by (simp add: algebra_simps)
qed simp

lemma rep_stosw_overwrite:
  assumes "k + 2 * n \<le> 2 ^ 32" and "\<And>j i. i < 2 \<Longrightarrow> f (k + 2 * j + i) = byte_of eax i"
  shows "rep_stosw n eax (a + of_nat k) (overwrite a k f m) = (a + of_nat (k + 2 * n), overwrite a (k + 2 * n) f m)"
  using assms
proof (induction n arbitrary: k)
  case (Suc n)
  have "f (k + 2 + 2 * j + i) = byte_of eax i" if "i < 2" for i j
    using Suc.prems(2) [OF that, of "Suc j"] by (simp add: algebra_simps)
  from Suc.IH [OF _ this] Suc.prems have
    "rep_stosw n eax (a + of_nat (k + 2)) (overwrite a (k + 2) f m) = (a + of_nat (k + 2 + 2 * n), overwrite a (k + 2 + 2 * n) f m)"
    by simp
  moreover have "store16 (a + of_nat k) eax (overwrite a k f m) = overwrite a (k + 2) f m"
    using Suc.prems(1) Suc.prems(2) [where j = 0] by (intro overwrite_store16) simp_all
  ultimately show ?case by (simp add: algebra_simps)
qed simp

text \<open>A byte-at-a-time loop with its count in a register.\<close>

lemma unat_Suc_minus_one: "e \<noteq> 0 \<Longrightarrow> unat e = Suc (unat (e - 1))" for e :: u32
  by (simp add: unat_minus_one unat_gt_0)

lemma memset_bottom_overwrite:
  assumes "k + unat edx \<le> 2 ^ 32"
  shows "memset_bottom eax (a + of_nat k) edx (overwrite a k (\<lambda>_. ucast eax) m) = overwrite a (k + unat edx) (\<lambda>_. ucast eax) m"
  using assms
proof (induction "unat edx" arbitrary: k edx)
  case 0
  then show ?case by (simp add: memset_bottom.simps unat_eq_0)
next
  case (Suc n)
  then have e: "edx \<noteq> 0" by auto
  with Suc have n: "n = unat (edx - 1)" by (simp add: unat_Suc_minus_one)
  have k: "k < 2 ^ 32" "unat edx = Suc (unat (edx - 1))" using Suc.prems e by (simp_all add: unat_Suc_minus_one)
  from Suc.hyps(1) [OF n, of "Suc k"] Suc.prems e show ?case
    by (subst memset_bottom.simps)
      (simp add: overwrite_Suc [OF k(1), of a "\<lambda>_. ucast eax" m, simplified] k(2) ac_simps)
qed

lemma unat_split4: "unat (x :: u32) = 4 * unat (drop_bit 2 x) + unat (x AND 3)"
proof -
  have "x AND 3 = take_bit 2 x" by (simp add: take_bit_eq_mask mask_eq_exp_minus_1)
  then have "unat (x AND 3) = unat x mod 4" by (simp add: take_bit_eq_mod unat_mod_distrib)
  moreover have "unat (drop_bit 2 x) = unat x div 4" by (simp add: drop_bit_eq_div unat_div_distrib)
  ultimately show ?thesis by simp
qed

lemma memset_aligned_overwrite:
  assumes "k + unat ecx \<le> 2 ^ 32" and "\<And>i. i < 4 \<Longrightarrow> byte_of eax i = ucast eax"
  shows "memset_aligned eax (a + of_nat k) ecx (overwrite a k (\<lambda>_. ucast eax) m) = overwrite a (k + unat ecx) (\<lambda>_. ucast eax) m"
proof -
  have u: "unat ecx = 4 * unat (drop_bit 2 ecx) + unat (ecx AND 3)" by (rule unat_split4)
  with assms(1) have "k + 4 * unat (drop_bit 2 ecx) \<le> 2 ^ 32" by linarith
  from rep_stosl_overwrite [OF this, of "\<lambda>_. ucast eax" eax a m] assms(2)
  have "rep_stosl (unat (drop_bit 2 ecx)) eax (a + of_nat k) (overwrite a k (\<lambda>_. ucast eax) m) =
      (a + of_nat (k + 4 * unat (drop_bit 2 ecx)), overwrite a (k + 4 * unat (drop_bit 2 ecx)) (\<lambda>_. ucast eax) m)" by metis
  moreover have "k + 4 * unat (drop_bit 2 ecx) + unat (ecx AND 3) \<le> 2 ^ 32" using assms(1) u by linarith
  ultimately show ?thesis
    using memset_bottom_overwrite [of "k + 4 * unat (drop_bit 2 ecx)" "ecx AND 3" eax a m] u
    by (simp add: memset_aligned_def Let_def algebra_simps)
qed

lemma memset_top_overwrite:
  assumes "k + unat ecx \<le> 2 ^ 32" and "\<And>i. i < 4 \<Longrightarrow> byte_of eax i = ucast eax"
  shows "memset_top eax (a + of_nat k) ecx (overwrite a k (\<lambda>_. ucast eax) m) = overwrite a (k + unat ecx) (\<lambda>_. ucast eax) m"
  using assms(1)
proof (induction "unat ecx" arbitrary: k ecx)
  case 0
  then show ?case by (simp add: memset_top.simps unat_eq_0)
next
  case (Suc n)
  then have e: "ecx \<noteq> 0" by auto
  with Suc have n: "n = unat (ecx - 1)" by (simp add: unat_Suc_minus_one)
  have k: "k < 2 ^ 32" "unat ecx = Suc (unat (ecx - 1))" using Suc.prems e by (simp_all add: unat_Suc_minus_one)
  from Suc.hyps(1) [OF n, of "Suc k"] Suc.prems e show ?case
    using memset_aligned_overwrite [OF Suc.prems assms(2), of a m]
    by (subst memset_top.simps)
      (simp add: overwrite_Suc [OF k(1), of a "\<lambda>_. ucast eax" m, simplified] k(2) ac_simps)
qed

lemma byte_of_replicated:
  fixes c b :: u32
  assumes "i < 4" and "b = c AND 0xFF"
  shows "byte_of (push_bit 24 b OR push_bit 16 b OR push_bit 8 b OR b) i = ucast c"
proof -
  have "b = take_bit 8 c" by (simp add: assms(2) take_bit_eq_mask mask_eq_exp_minus_1)
  then have b: "bit b k = (k < 8 \<and> bit c k)" for k by (simp add: bit_take_bit_iff)
  have "bit (push_bit 24 b OR push_bit 16 b OR push_bit 8 b OR b) (8 * i + j) = bit c j" if "j < 8" for j
  proof -
    consider "i = 0" | "i = 1" | "i = 2" | "i = 3" using assms(1) by linarith
    then show ?thesis
      by cases (use that in \<open>simp_all add: bit_or_iff bit_push_bit_iff b\<close>)
  qed
  then show ?thesis
    unfolding byte_of_def by (intro bit_word_eqI) (simp del: drop_bit_or add: bit_ucast_iff bit_drop_bit_eq)
qed

text \<open>
  C33: \<open>memset\<close>, which stores single bytes up to an aligned address, then four bytes at a time, then
  the remaining bytes, is equal to the reference: the \<open>n\<close> bytes from \<open>s\<close> on have the low byte of
  \<open>c\<close>, every other byte is kept, and \<open>s\<close> is returned. This holds for every alignment, every
  length and ranges that wrap around.
\<close>

theorem memset_equals_fill:
  "memset s c n m = (s, overwrite s (unat n) (\<lambda>_. ucast c) m)"
proof -
  define b where "b = c AND 0xFF"
  define eax where "eax = push_bit 24 b OR push_bit 16 b OR push_bit 8 b OR b"
  have e: "byte_of eax i = ucast c" if "i < 4" for i
    unfolding eax_def using that b_def by (rule byte_of_replicated)
  then have u: "ucast eax = (ucast c :: u8)" using e [of 0] by (simp add: byte_of_def)
  have "unat n \<le> 2 ^ 32" using unsigned_less [of n, where ?'a = nat] by simp
  then have "memset_top eax s n m = overwrite s (unat n) (\<lambda>_. ucast c) m"
    using memset_top_overwrite [of 0 n eax s m] e u by simp
  then show ?thesis by (simp add: memset_def Let_def b_def eax_def)
qed

text \<open>
  \<open>memset_word\<close> and \<open>memset_dword\<close> fill \<open>n\<close> two-byte and four-byte cells, so
  \<open>2 * n\<close> and \<open>4 * n\<close> bytes, with the little-endian bytes of \<open>c\<close>, and nothing else.
\<close>

lemma memset_word_dword_fill:
  assumes "4 * unat n \<le> 2 ^ 32"
  shows "memset_word s c n m = (s, overwrite s (2 * unat n) (\<lambda>i. byte_of c (i mod 2)) m)
    \<and> memset_dword s c n m = (s, overwrite s (4 * unat n) (\<lambda>i. byte_of c (i mod 4)) m)"
proof -
  have "rep_stosw (unat n) c (s + of_nat 0) (overwrite s 0 (\<lambda>i. byte_of c (i mod 2)) m) =
      (s + of_nat (0 + 2 * unat n), overwrite s (0 + 2 * unat n) (\<lambda>i. byte_of c (i mod 2)) m)"
    using assms by (intro rep_stosw_overwrite) simp_all
  moreover have "rep_stosl (unat n) c (s + of_nat 0) (overwrite s 0 (\<lambda>i. byte_of c (i mod 4)) m) =
      (s + of_nat (0 + 4 * unat n), overwrite s (0 + 4 * unat n) (\<lambda>i. byte_of c (i mod 4)) m)"
    using assms by (intro rep_stosl_overwrite) simp_all
  ultimately show ?thesis by (simp add: memset_word_def memset_dword_def)
qed

section \<open>Copying\<close>

definition copied :: "u32 \<Rightarrow> u32 \<Rightarrow> nat \<Rightarrow> memory \<Rightarrow> memory" where
  "copied src dest n m = overwrite dest n (\<lambda>i. m (src + of_nat i)) m"

text \<open>
  A forward copy of \<open>n\<close> bytes does not overwrite what it still has to read when the destination
  does not lie inside the source range (or is its start).
\<close>

definition forward_safe :: "u32 \<Rightarrow> u32 \<Rightarrow> nat \<Rightarrow> bool" where
  "forward_safe src dest n \<longleftrightarrow> dest = src \<or> n \<le> unat (dest - src)"

lemma copied_0 [simp]: "copied src dest 0 m = m"
  by (simp add: copied_def)

lemma copied_ahead:
  assumes "forward_safe src dest n" and "k \<le> j" and "j < n" and "n \<le> 2 ^ 32"
  shows "copied src dest k m (src + of_nat j) = m (src + of_nat j)"
proof (cases "unat (src + of_nat j - dest) < k")
  case True
  define i where "i = unat (src + of_nat j - dest)"
  have "of_nat i = src + of_nat j - dest" unfolding i_def by simp
  then have d: "dest - src = of_nat (j - i)" using True assms(2) by (simp add: i_def of_nat_diff algebra_simps)
  have "i < j" using True assms(2) by (simp add: i_def)
  then have "0 < j - i" "j - i < n" "j - i < 2 ^ 32" using assms(3,4) by linarith+
  then have "unat (dest - src) = j - i" unfolding d by (simp del: of_nat_diff add: unat_of_nat)
  with assms(1) \<open>0 < j - i\<close> \<open>j - i < n\<close> show ?thesis by (auto simp: forward_safe_def)
next
  case False
  then show ?thesis by (simp add: copied_def overwrite_def)
qed

lemma copied_Suc:
  assumes "k < 2 ^ 32"
  shows "(copied src dest k m)(dest + of_nat k := m (src + of_nat k)) = copied src dest (Suc k) m"
  unfolding copied_def using overwrite_Suc [OF assms, of dest "\<lambda>i. m (src + of_nat i)" m] by simp

lemma copied_byte:
  assumes "forward_safe src dest n" and "k < n" and "n \<le> 2 ^ 32"
  shows "(copied src dest k m)(dest + of_nat k := copied src dest k m (src + of_nat k)) = copied src dest (Suc k) m"
  using assms copied_ahead [OF assms(1) _ assms(2,3), of k m] copied_Suc [of k src dest m] by simp

lemma memcpy_bottom_copied:
  assumes "forward_safe src dest (k + unat edx)" and "k + unat edx \<le> 2 ^ 32"
  shows "memcpy_bottom (src + of_nat k) (dest + of_nat k) edx (copied src dest k m) = copied src dest (k + unat edx) m"
  using assms
proof (induction "unat edx" arbitrary: k edx)
  case 0
  then show ?case by (simp add: memcpy_bottom.simps unat_eq_0)
next
  case (Suc n)
  then have e: "edx \<noteq> 0" by auto
  have u: "unat edx = Suc (unat (edx - 1))" using e by (rule unat_Suc_minus_one)
  with Suc have n: "n = unat (edx - 1)" by simp
  from Suc.hyps(1) [OF n, of "Suc k"] Suc.prems u have
    "memcpy_bottom (src + of_nat (Suc k)) (dest + of_nat (Suc k)) (edx - 1) (copied src dest (Suc k) m) = copied src dest (k + unat edx) m"
    by simp
  moreover have "(copied src dest k m)(dest + of_nat k := copied src dest k m (src + of_nat k)) = copied src dest (Suc k) m"
    using Suc.prems u by (intro copied_byte [of _ _ "k + unat edx"]) simp_all
  ultimately show ?case using e
    by (subst memcpy_bottom.simps) (simp add: ac_simps)
qed

lemma byte_of_read_u32:
  assumes "i < 4"
  shows "byte_of (read_u32 m a) i = m (a + of_nat i)"
proof -
  have "bit (read_u32 m a) (8 * i + j) = bit (m (a + of_nat i)) j" if "j < 8" for j
  proof -
    consider "i = 0" | "i = 1" | "i = 2" | "i = 3" using assms(1) by linarith
    then show ?thesis
      by cases (use that in \<open>auto simp add: read_u32_def bit_or_iff bit_push_bit_iff bit_ucast_iff bit_imp_le_length dest: bit_imp_le_length\<close>)
  qed
  then show ?thesis
    unfolding byte_of_def by (intro bit_word_eqI) (simp add: bit_ucast_iff bit_drop_bit_eq)
qed

lemma copied_store32:
  assumes "forward_safe src dest n" and "k + 4 \<le> n" and "n \<le> 2 ^ 32"
  shows "store32 (dest + of_nat k) (read_u32 (copied src dest k m) (src + of_nat k)) (copied src dest k m) = copied src dest (k + 4) m"
proof -
  have "m (src + of_nat (k + i)) = byte_of (read_u32 (copied src dest k m) (src + of_nat k)) i" if "i < 4" for i
    using copied_ahead [OF assms(1) _ _ assms(3), of k "k + i" m] that assms(2)
    by (simp add: byte_of_read_u32 algebra_simps)
  then show ?thesis
    using assms unfolding copied_def by (intro overwrite_store32) simp_all
qed

lemma rep_movsl_copied:
  assumes "forward_safe src dest n" and "k + 4 * ecx \<le> n" and "n \<le> 2 ^ 32"
  shows "rep_movsl ecx (src + of_nat k) (dest + of_nat k) (copied src dest k m) =
    (src + of_nat (k + 4 * ecx), dest + of_nat (k + 4 * ecx), copied src dest (k + 4 * ecx) m)"
  using assms(2)
proof (induction ecx arbitrary: k)
  case (Suc ecx)
  from Suc.IH [of "k + 4"] Suc.prems copied_store32 [OF assms(1) _ assms(3), of k m] show ?case
    by (simp add: algebra_simps)
qed simp

lemma memcpy_aligned_copied:
  assumes "forward_safe src dest (k + unat ecx)" and "k + unat ecx \<le> 2 ^ 32"
  shows "memcpy_aligned (src + of_nat k) (dest + of_nat k) ecx (copied src dest k m) = copied src dest (k + unat ecx) m"
proof -
  let ?k = "k + 4 * unat (drop_bit 2 ecx)"
  have u: "?k + unat (ecx AND 3) = k + unat ecx" using unat_split4 [of ecx] by linarith
  have "?k \<le> k + unat ecx" using u by linarith
  from rep_movsl_copied [OF assms(1) this assms(2), of m] memcpy_bottom_copied [of src dest ?k "ecx AND 3" m, unfolded u, OF assms]
  show ?thesis by (simp add: memcpy_aligned_def Let_def algebra_simps)
qed

lemma memcpy_top_copied:
  assumes "forward_safe src dest (k + unat ecx)" and "k + unat ecx \<le> 2 ^ 32"
  shows "memcpy_top (src + of_nat k) (dest + of_nat k) ecx (copied src dest k m) = copied src dest (k + unat ecx) m"
  using assms
proof (induction "unat ecx" arbitrary: k ecx)
  case 0
  then show ?case by (simp add: memcpy_top.simps unat_eq_0)
next
  case (Suc n)
  then have e: "ecx \<noteq> 0" by auto
  have u: "unat ecx = Suc (unat (ecx - 1))" using e by (rule unat_Suc_minus_one)
  with Suc have n: "n = unat (ecx - 1)" by simp
  from Suc.hyps(1) [OF n, of "Suc k"] Suc.prems u have
    "memcpy_top (src + of_nat (Suc k)) (dest + of_nat (Suc k)) (ecx - 1) (copied src dest (Suc k) m) = copied src dest (k + unat ecx) m"
    by simp
  moreover have "(copied src dest k m)(dest + of_nat k := copied src dest k m (src + of_nat k)) = copied src dest (Suc k) m"
    using Suc.prems u by (intro copied_byte [of _ _ "k + unat ecx"]) simp_all
  ultimately show ?case using e memcpy_aligned_copied [OF Suc.prems, of m]
    by (subst memcpy_top.simps) (simp add: ac_simps)
qed

text \<open>
  \<open>memcpy\<close>, which copies four bytes at a time between aligned addresses, is equal to the
  reference copy: the \<open>n\<close> bytes from \<open>dest\<close> on are the old bytes from \<open>src\<close> on and no other
  byte changes, provided that the destination does not start inside the source range.
\<close>

lemma memcpy_equals_copy:
  assumes "forward_safe src dest (unat n)"
  shows "memcpy dest src n m = (dest, copied src dest (unat n) m)"
proof -
  have "unat n \<le> 2 ^ 32" using unsigned_less [of n, where ?'a = nat] by simp
  then show ?thesis using memcpy_top_copied [of src dest 0 n m] assms by (simp add: memcpy_def)
qed

lemma rep_movsb_forward:
  assumes "forward_safe src dest n" and "k + ecx \<le> n" and "n \<le> 2 ^ 32"
  shows "rep_movsb False ecx (src + of_nat k) (dest + of_nat k) (copied src dest k m) = copied src dest (k + ecx) m"
  using assms(2)
proof (induction ecx arbitrary: k)
  case (Suc ecx)
  from Suc.IH [of "Suc k"] Suc.prems copied_byte [OF assms(1) _ assms(3), of k m] show ?case
    by (simp add: ac_simps)
qed simp

text \<open>A backward copy: the bytes from index \<open>k\<close> on have been moved.\<close>

definition copied_tail :: "u32 \<Rightarrow> u32 \<Rightarrow> nat \<Rightarrow> nat \<Rightarrow> memory \<Rightarrow> memory" where
  "copied_tail src dest k n m = (\<lambda>x. if k \<le> unat (x - dest) \<and> unat (x - dest) < n then m (src + (x - dest)) else m x)"

lemma copied_tail_full: "copied_tail src dest 0 n m = copied src dest n m"
  unfolding copied_tail_def copied_def overwrite_def by (rule ext) simp

lemma unat_add_nowrap: "unat a + unat b < 2 ^ 32 \<Longrightarrow> unat (a + b) = unat a + unat b" for a b :: u32
  by (simp add: unat_word_ariths)

lemma copied_tail_step:
  assumes "k < n" and "n \<le> 2 ^ 32" and "src < dest" and "unat src + n \<le> 2 ^ 32" and "unat dest + n \<le> 2 ^ 32"
  shows "(copied_tail src dest (Suc k) n m)(dest + of_nat k := copied_tail src dest (Suc k) n m (src + of_nat k)) =
    copied_tail src dest k n m"
proof -
  have k: "unat (of_nat k :: u32) = k" using assms by (simp add: unat_of_nat)
  have s: "unat (src + of_nat k) = unat src + k" using assms k by (subst unat_add_nowrap) simp_all
  have "\<not> (Suc k \<le> unat (src + of_nat k - dest) \<and> unat (src + of_nat k - dest) < n)"
  proof
    assume a: "Suc k \<le> unat (src + of_nat k - dest) \<and> unat (src + of_nat k - dest) < n"
    define i where "i = unat (src + of_nat k - dest)"
    have "src + of_nat k = dest + of_nat i" unfolding i_def by simp
    moreover have "unat (of_nat i :: u32) = i" unfolding i_def by simp
    moreover have "unat dest + i < 2 ^ 32" using a assms by (simp add: i_def)
    ultimately have "unat src + k = unat dest + i" using s unat_add_nowrap [of dest "of_nat i"] by simp
    with a assms(3) show False by (simp add: i_def [symmetric] word_less_nat_alt)
  qed
  then have r: "copied_tail src dest (Suc k) n m (src + of_nat k) = m (src + of_nat k)"
    by (auto simp: copied_tail_def)
  show ?thesis
  proof
    fix x :: u32
    have "x = dest + of_nat k \<longleftrightarrow> unat (x - dest) = k"
    proof
      assume "x = dest + of_nat k"
      then show "unat (x - dest) = k" using k by simp
    next
      assume "unat (x - dest) = k"
      then have "x - dest = of_nat k" by (metis of_nat_unat ucast_id)
      then show "x = dest + of_nat k" by (simp add: algebra_simps)
    qed
    with r assms(1) show "((copied_tail src dest (Suc k) n m)(dest + of_nat k := copied_tail src dest (Suc k) n m (src + of_nat k))) x =
      copied_tail src dest k n m x"
      by (auto simp: copied_tail_def)
  qed
qed

lemma rep_movsb_backward:
  assumes "k \<le> n" and "n \<le> 2 ^ 32" and "src < dest" and "unat src + n \<le> 2 ^ 32" and "unat dest + n \<le> 2 ^ 32"
  shows "rep_movsb True k (src + of_nat k - 1) (dest + of_nat k - 1) (copied_tail src dest k n m) = copied src dest n m"
  using assms(1)
proof (induction k)
  case 0
  then show ?case by (simp add: copied_tail_full)
next
  case (Suc k)
  then show ?case using copied_tail_step [OF _ assms(2-5), of k m] by simp
qed

lemma forward_safe_below:
  assumes "dest \<le> src" and "unat src + n \<le> 2 ^ 32"
  shows "forward_safe src dest n"
proof (cases "dest = src")
  case False
  with assms(1) have "unat dest < unat src" by (simp add: word_less_nat_alt [symmetric])
  then have "unat (dest - src) = unat dest + 2 ^ 32 - unat src" by (simp add: unat_sub_if')
  with assms(2) show ?thesis unfolding forward_safe_def by linarith
qed (simp add: forward_safe_def)

text \<open>
  C34: \<open>memmove\<close> is equal to the reference copy for all ranges that do not wrap around,
  overlapping ones included: the \<open>n\<close> bytes from \<open>dest\<close> on are the bytes that were at
  \<open>src\<close> before the call. When it copies backwards, that is when \<open>src\<close> is below \<open>dest\<close>, it
  returns with the direction flag still set.
\<close>

theorem memmove_equals_copy:
  assumes "unat src + unat n \<le> 2 ^ 32" and "unat dest + unat n \<le> 2 ^ 32"
  shows "memmove dest src n m = (dest, src < dest, copied src dest (unat n) m)"
proof -
  have n: "unat n \<le> 2 ^ 32" using assms(1) by linarith
  show ?thesis
  proof (cases "src \<ge> dest")
    case True
    from rep_movsb_forward [OF forward_safe_below [OF True assms(1)] _ n, of 0 "unat n" m] True show ?thesis
      by (simp add: memmove_def)
  next
    case False
    then have "src < dest" by simp
    moreover have "copied_tail src dest (unat n) (unat n) m = m" by (rule ext) (auto simp: copied_tail_def)
    ultimately show ?thesis
      using rep_movsb_backward [OF order_refl n _ assms, of m] by (simp add: memmove_def)
  qed
qed

theorem memmove_equals_copy_witness:
  "memmove 0x103 0x100 8 (\<lambda>x. ucast x) = (0x103, True, copied 0x100 0x103 8 (\<lambda>x. ucast x))"
  using memmove_equals_copy [of "0x100" 8 "0x103" "\<lambda>x. ucast x"] by simp

end
