(* ===== verification/Port_IO.thy ===== *)
theory Port_IO
  imports Prelude
begin

text \<open>
  Port-mapped I/O (\<^verbatim>\<open>src/student-distrib/lib.h\<close>, \<open>inb\<close>, \<open>inw\<close>, \<open>inl\<close>, \<open>outb\<close>, \<open>outw\<close>, \<open>outl\<close>).
  The machine state starts here: its first field is the trace of all port accesses,
  oldest first (a read may change a device, so reads are in the trace too). The kernel's state is one extensible record; each component's theory extends
  the record of the one below with the globals of its C file, so an operation of a lower
  component applies to the whole kernel's state unchanged.

  A device's answer to a port read depends on hardware, which is a parameter: a function from
  the trace so far and the port to the byte read.

  Two devices the kernel programs, the VGA controller and the real-time clock, are addressed
  through an index port and a data port. The locale \<open>indexed_port\<close> states what such a pair
  of ports stores.
\<close>

datatype port_event = Out u16 u8 | In8 u16 | In16 u16 | In32 u16

type_synonym port_trace = "port_event list"
type_synonym device = "port_trace \<Rightarrow> u16 \<Rightarrow> u8"

record machine =
  ports :: port_trace

definition outb :: "u8 \<Rightarrow> u16 \<Rightarrow> 'a machine_scheme \<Rightarrow> 'a machine_scheme" where
  "outb v p s = s\<lparr>ports := ports s @ [Out p v]\<rparr>"

definition inb :: "device \<Rightarrow> u16 \<Rightarrow> 'a machine_scheme \<Rightarrow> u32 \<times> 'a machine_scheme" where
  "inb dev p s = (ucast (dev (ports s) p), s\<lparr>ports := ports s @ [In8 p]\<rparr>)"

definition inw :: "device \<Rightarrow> u16 \<Rightarrow> 'a machine_scheme \<Rightarrow> u32 \<times> 'a machine_scheme" where
  "inw dev p s =
     (ucast (dev (ports s) p) OR push_bit 8 (ucast (dev (ports s) (p + 1))),
      s\<lparr>ports := ports s @ [In16 p]\<rparr>)"

definition inl :: "device \<Rightarrow> u16 \<Rightarrow> 'a machine_scheme \<Rightarrow> u32 \<times> 'a machine_scheme" where
  "inl dev p s =
     (let tr = ports s in
      (ucast (dev tr p) OR push_bit 8 (ucast (dev tr (p + 1))) OR push_bit 16 (ucast (dev tr (p + 2))) OR push_bit 24 (ucast (dev tr (p + 3))),
       s\<lparr>ports := tr @ [In32 p]\<rparr>))"

text \<open>The wider writes store their bytes in consecutive ports, lowest first.\<close>

definition outw :: "u16 \<Rightarrow> u16 \<Rightarrow> 'a machine_scheme \<Rightarrow> 'a machine_scheme" where
  "outw v p s = outb (ucast (drop_bit 8 v)) (p + 1) (outb (ucast v) p s)"

definition outl :: "u32 \<Rightarrow> u16 \<Rightarrow> 'a machine_scheme \<Rightarrow> 'a machine_scheme" where
  "outl v p s = outw (ucast (drop_bit 16 v)) (p + 2) (outw (ucast v) p s)"

text \<open>The registers behind an index/data port pair, after a trace of writes.\<close>

fun reg_step ::
  "u16 \<Rightarrow> u16 \<Rightarrow> port_event \<Rightarrow> u8 option \<times> (u8 \<rightharpoonup> u8) \<Rightarrow> u8 option \<times> (u8 \<rightharpoonup> u8)" where
  "reg_step sel dat (Out p v) st =
     (if p = sel then (Some v, snd st)
      else if p = dat then
        (fst st, case fst st of None \<Rightarrow> snd st | Some i \<Rightarrow> (snd st)(i \<mapsto> v))
      else st)"
| "reg_step sel dat _ st = st"

definition regs_of :: "u16 \<Rightarrow> u16 \<Rightarrow> port_trace \<Rightarrow> (u8 \<rightharpoonup> u8)" where
  "regs_of sel dat tr = snd (fold (reg_step sel dat) tr (None, Map.empty))"

lemma ports_outb [simp]: "ports (outb v p s) = ports s @ [Out p v]"
  by (simp add: outb_def)

lemma more_outb [simp]: "machine.more (outb v p s) = machine.more s"
  by (simp add: outb_def)

locale indexed_port =
  fixes sel dat :: u16
  assumes ports_differ: "sel \<noteq> dat"
begin

lemma reg_write:
  "regs_of sel dat (tr @ [Out sel i, Out dat v]) = (regs_of sel dat tr)(i \<mapsto> v)"
  using ports_differ by (simp add: regs_of_def)

lemma reg_select: "regs_of sel dat (tr @ [Out sel i]) = regs_of sel dat tr"
  by (simp add: regs_of_def)

lemma reg_read: "regs_of sel dat (tr @ [In8 p]) = regs_of sel dat tr"
  by (simp add: regs_of_def)

lemma reg_other: "p \<noteq> sel \<Longrightarrow> p \<noteq> dat \<Longrightarrow> regs_of sel dat (tr @ [Out p v]) = regs_of sel dat tr"
  by (simp add: regs_of_def)

lemma reg_write2:
  "regs_of sel dat (tr @ [Out sel i, Out dat v, Out sel j, Out dat w]) =
   (regs_of sel dat tr)(i \<mapsto> v, j \<mapsto> w)"
  using reg_write [of "tr @ [Out sel i, Out dat v]" j w] by (simp add: reg_write)

end

text \<open>One \<open>outw\<close> to an index port whose data port follows it programs a register.\<close>

lemma outw_programs_register:
  "regs_of sel (sel + 1) (ports (outw v sel s)) = (regs_of sel (sel + 1) (ports s))(ucast v \<mapsto> ucast (drop_bit 8 v))"
proof -
  have "sel \<noteq> sel + 1" by simp
  then have "indexed_port sel (sel + 1)" by unfold_locales
  from indexed_port.reg_write [OF this] show ?thesis by (simp add: outw_def)
qed

end
