(* ===== verification/Pic.thy ===== *)
theory Pic
  imports Port_IO
begin

text \<open>
  The 8259 interrupt controllers (\<^verbatim>\<open>src/student-distrib/i8259.c\<close>). The two
  globals \<open>master_mask\<close> and \<open>slave_mask\<close> shadow the controllers' mask registers; they
  are active low, so a clear bit is an enabled interrupt line.
\<close>

record pic = machine +
  master_mask :: u8
  slave_mask :: u8

abbreviation MASTER_8259_PORT_COMMAND :: u16 where "MASTER_8259_PORT_COMMAND \<equiv> 0x20"
abbreviation SLAVE_8259_PORT_COMMAND :: u16 where "SLAVE_8259_PORT_COMMAND \<equiv> 0xA0"
abbreviation MASTER_8259_PORT_DATA :: u16 where "MASTER_8259_PORT_DATA \<equiv> 0x21"
abbreviation SLAVE_8259_PORT_DATA :: u16 where "SLAVE_8259_PORT_DATA \<equiv> 0xA1"
abbreviation SLAVE_IRQ :: u32 where "SLAVE_IRQ \<equiv> 2"
abbreviation EOI :: u32 where "EOI \<equiv> 0x60"

text \<open>The two mask loops; \<open>temp\<close> is a \<^verbatim>\<open>uint8_t\<close>, so each step truncates.\<close>

definition enable_temp :: "nat \<Rightarrow> u8" where
  "enable_temp n = fold (\<lambda>_ temp. push_bit 1 temp + 1) [0..<n] 0xFE"

definition disable_temp :: "nat \<Rightarrow> u8" where
  "disable_temp n = fold (\<lambda>_ temp. push_bit 1 temp) [0..<n] 0x01"

definition enable_irq :: "u32 \<Rightarrow> 'a pic_scheme \<Rightarrow> 'a pic_scheme" where
  "enable_irq irq_num s =
     (if irq_num \<ge> 0 \<and> irq_num \<le> 7 then
        let m = master_mask s AND enable_temp (unat irq_num)
        in outb m MASTER_8259_PORT_DATA (s\<lparr>master_mask := m\<rparr>)
      else if irq_num \<ge> 8 \<and> irq_num \<le> 16 then
        let m = slave_mask s AND enable_temp (unat (irq_num - 8))
        in outb m SLAVE_8259_PORT_DATA (s\<lparr>slave_mask := m\<rparr>)
      else s)"

definition disable_irq :: "u32 \<Rightarrow> 'a pic_scheme \<Rightarrow> 'a pic_scheme" where
  "disable_irq irq_num s =
     (if irq_num \<ge> 0 \<and> irq_num \<le> 7 then
        let m = master_mask s OR disable_temp (unat irq_num)
        in outb m MASTER_8259_PORT_DATA (s\<lparr>master_mask := m\<rparr>)
      else if irq_num \<ge> 8 \<and> irq_num \<le> 16 then
        let m = slave_mask s OR disable_temp (unat (irq_num - 8))
        in outb m SLAVE_8259_PORT_DATA (s\<lparr>slave_mask := m\<rparr>)
      else s)"

definition send_eoi :: "u32 \<Rightarrow> 'a pic_scheme \<Rightarrow> 'a pic_scheme" where
  "send_eoi irq_num s =
     (if irq_num \<ge> 0 \<and> irq_num \<le> 7 then
        outb (ucast (EOI OR irq_num)) MASTER_8259_PORT_COMMAND s
      else if irq_num \<ge> 8 \<and> irq_num \<le> 15 then
        outb (ucast (EOI OR SLAVE_IRQ)) MASTER_8259_PORT_COMMAND
          (outb (ucast (EOI OR (irq_num - 8))) SLAVE_8259_PORT_COMMAND s)
      else s)"

text \<open>\<open>i8259_init\<close>: mask everything, send the four control words, mask again, open the cascade.\<close>

definition i8259_init :: "'a pic_scheme \<Rightarrow> 'a pic_scheme" where
  "i8259_init s =
     (let s = outb (master_mask s) MASTER_8259_PORT_DATA s;
          s = outb (slave_mask s) SLAVE_8259_PORT_DATA s;
          s = outb 0x11 MASTER_8259_PORT_COMMAND s;
          s = outb 0x11 SLAVE_8259_PORT_COMMAND s;
          s = outb 0x20 MASTER_8259_PORT_DATA s;
          s = outb 0x28 SLAVE_8259_PORT_DATA s;
          s = outb 0x04 MASTER_8259_PORT_DATA s;
          s = outb 0x02 SLAVE_8259_PORT_DATA s;
          s = outb 0x01 MASTER_8259_PORT_DATA s;
          s = outb 0x01 SLAVE_8259_PORT_DATA s;
          s = outb (master_mask s) MASTER_8259_PORT_DATA s;
          s = outb (slave_mask s) SLAVE_8259_PORT_DATA s
      in enable_irq SLAVE_IRQ s)"

text \<open>
  Specification: the set of enabled lines (0 to 15) the two masks denote, and the mask
  registers of the controllers, which are the last bytes written to their data ports.
\<close>

definition irq_enabled :: "'a pic_scheme \<Rightarrow> nat \<Rightarrow> bool" where
  "irq_enabled s n =
     (if n < 8 then \<not> bit (master_mask s) n else n < 16 \<and> \<not> bit (slave_mask s) (n - 8))"

definition last_out :: "u16 \<Rightarrow> port_trace \<Rightarrow> u8 option" where
  "last_out p tr = foldl (\<lambda>r e. case e of Out q v \<Rightarrow> if q = p then Some v else r | _ \<Rightarrow> r) None tr"

definition masks_written :: "'a pic_scheme \<Rightarrow> bool" where
  "masks_written s \<longleftrightarrow>
     last_out MASTER_8259_PORT_DATA (ports s) = Some (master_mask s) \<and>
     last_out SLAVE_8259_PORT_DATA (ports s) = Some (slave_mask s)"

section \<open>The mask loops\<close>

lemma fold_const_Suc: "fold (\<lambda>_. f) [0..<Suc n] x = f (fold (\<lambda>_. f) [0..<n] x)"
  by simp

lemma bit_enable_temp: "k < 8 \<Longrightarrow> bit (enable_temp n) k \<longleftrightarrow> k \<noteq> n"
proof (induction n arbitrary: k)
  case 0
  have "list_all (\<lambda>k. bit (0xFE :: u8) k \<longleftrightarrow> k \<noteq> 0) [0..<8]" by code_simp
  with 0 show ?case by (auto simp: enable_temp_def list_all_iff)
next
  case (Suc n)
  have "push_bit 1 w + 1 = push_bit 1 w OR 1" for w :: u8
    by (rule disjunctive_add) (simp only: bit_push_bit_iff bit_1_iff, simp)
  then have "enable_temp (Suc n) = push_bit 1 (enable_temp n) OR 1"
    by (simp only: enable_temp_def fold_const_Suc)
  then have "bit (enable_temp (Suc n)) k \<longleftrightarrow> k = 0 \<or> 1 \<le> k \<and> bit (enable_temp n) (k - 1)"
    using Suc.prems by (auto simp only: bit_or_iff bit_push_bit_iff bit_1_iff, simp)
  with Suc show ?case by (cases k) auto
qed

lemma disable_temp_eq: "disable_temp n = push_bit n 1"
proof (induction n)
  case 0
  show ?case by (simp add: disable_temp_def)
next
  case (Suc n)
  then have "disable_temp (Suc n) = push_bit 1 (push_bit n 1)"
    by (simp only: disable_temp_def fold_const_Suc)
  then show ?case by (simp add: push_bit_push_bit)
qed

lemma bit_disable_temp: "k < 8 \<Longrightarrow> bit (disable_temp n) k \<longleftrightarrow> k = n"
  by (auto simp: disable_temp_eq bit_simps)

lemma last_out_snoc [simp]:
  "last_out p (tr @ [Out q v]) = (if q = p then Some v else last_out p tr)"
  by (simp add: last_out_def)


section \<open>Enabling and disabling lines\<close>

lemma unat_irq:
  fixes n :: u32
  shows "n \<le> 7 \<longleftrightarrow> unat n < 8" and "8 \<le> n \<longleftrightarrow> 8 \<le> unat n" and "n \<le> 16 \<longleftrightarrow> unat n \<le> 16"
  by (auto simp: word_le_nat_alt)

lemma unat_minus8: "8 \<le> unat (n :: u32) \<Longrightarrow> unat (n - 8) = unat n - 8"
  by (subst unat_sub) (auto simp: word_le_nat_alt)

lemma enable_irq_enabled:
  "irq_enabled (enable_irq n s) k \<longleftrightarrow> irq_enabled s k \<or> (k = unat n \<and> k < 16)"
  by (auto simp: irq_enabled_def enable_irq_def outb_def Let_def unat_irq unat_minus8
      bit_and_iff bit_enable_temp)

lemma disable_irq_enabled:
  "irq_enabled (disable_irq n s) k \<longleftrightarrow> irq_enabled s k \<and> k \<noteq> unat n"
  by (auto simp: irq_enabled_def disable_irq_def outb_def Let_def unat_irq unat_minus8
      bit_or_iff bit_disable_temp)

lemma enable_irq_masks_written: "masks_written s \<Longrightarrow> masks_written (enable_irq n s)"
  by (simp add: masks_written_def enable_irq_def outb_def Let_def)

lemma disable_irq_masks_written: "masks_written s \<Longrightarrow> masks_written (disable_irq n s)"
  by (simp add: masks_written_def disable_irq_def outb_def Let_def)

lemma send_eoi_masks [frame_simps]:
  "master_mask (send_eoi n s) = master_mask s" "slave_mask (send_eoi n s) = slave_mask s"
  by (simp_all add: send_eoi_def outb_def)

section \<open>Properties\<close>

text \<open>
  Enabling and disabling an interrupt line changes that line and no other (a number
  above 15 changes no line), and keeps the controllers' mask registers equal to the two
  globals that shadow them.
\<close>

lemma irq_masks_track_lines:
  assumes "masks_written s"
  shows "irq_enabled (enable_irq n s) k = (irq_enabled s k \<or> k = unat n \<and> k < 16)
    \<and> irq_enabled (disable_irq n s) k = (irq_enabled s k \<and> k \<noteq> unat n)
    \<and> masks_written (enable_irq n s) \<and> masks_written (disable_irq n s)"
  using assms
  by (simp add: enable_irq_enabled disable_irq_enabled enable_irq_masks_written
      disable_irq_masks_written)

text \<open>
  \<open>i8259_init\<close>, started with both masks closed as the globals are initialised, sends
  both controllers their four control words in order (edge-triggered cascade mode, vector bases
  0x20 and 0x28, the cascade wiring, 8086 mode), leaves exactly line 2, the cascade, enabled,
  and leaves the mask registers equal to the globals.
\<close>

lemma i8259_init_cascade_only:
  assumes "master_mask s = 0xFF" and "slave_mask s = 0xFF"
  shows "(k < 16 \<longrightarrow> irq_enabled (i8259_init s) k = (k = 2))
    \<and> masks_written (i8259_init s)
    \<and> (\<exists>before after. ports (i8259_init s) = before @
          [Out 0x20 0x11, Out 0xA0 0x11, Out 0x21 0x20, Out 0xA1 0x28,
           Out 0x21 0x04, Out 0xA1 0x02, Out 0x21 0x01, Out 0xA1 0x01] @ after)"
proof -
  define s1 where "s1 = s\<lparr>ports := ports s @ [Out 0x21 0xFF, Out 0xA1 0xFF] @
    [Out 0x20 0x11, Out 0xA0 0x11, Out 0x21 0x20, Out 0xA1 0x28, Out 0x21 0x04, Out 0xA1 0x02,
     Out 0x21 0x01, Out 0xA1 0x01] @ [Out 0x21 0xFF, Out 0xA1 0xFF]\<rparr>"
  have init: "i8259_init s = enable_irq 2 s1"
    using assms by (simp add: i8259_init_def s1_def outb_def Let_def)
  have w: "masks_written s1"
    using assms by (simp add: s1_def masks_written_def last_out_def)
  have "list_all (bit (0xFF :: u8)) [0..<8]" by code_simp
  then have "k < 16 \<Longrightarrow> \<not> irq_enabled s1 k"
    using assms by (auto simp: s1_def irq_enabled_def list_all_iff)
  then have "k < 16 \<longrightarrow> irq_enabled (i8259_init s) k = (k = 2)"
    by (auto simp: init enable_irq_enabled)
  moreover obtain after where "ports (enable_irq 2 s1) = ports s1 @ after"
    by (simp add: enable_irq_def Let_def)
  then have "\<exists>before after. ports (i8259_init s) = before @
          [Out 0x20 0x11, Out 0xA0 0x11, Out 0x21 0x20, Out 0xA1 0x28,
           Out 0x21 0x04, Out 0xA1 0x02, Out 0x21 0x01, Out 0xA1 0x01] @ after"
    by (intro exI [of _ "ports s @ [Out 0x21 0xFF, Out 0xA1 0xFF]"]
        exI [of _ "[Out 0x21 0xFF, Out 0xA1 0xFF] @ after"]) (simp add: init s1_def)
  ultimately show ?thesis using w by (simp add: init enable_irq_masks_written)
qed

end
