(* ===== verification/Rtc.thy ===== *)
theory Rtc
  imports Pic
begin

text \<open>
  The real-time clock driver (\<^verbatim>\<open>src/student-distrib/rtc.c\<close>) and its interrupt
  handler \<open>rtc_interrupt\<close> (\<^verbatim>\<open>IDT.c\<close>). The clock's registers are reached through
  the index port 0x70 and the data port 0x71.
\<close>

record rtc = pic +
  int_flag :: u32
  tick_counter :: u32

abbreviation RTC_IRQ :: u32 where "RTC_IRQ \<equiv> 8"
abbreviation RTC_SELECT_PORT :: u16 where "RTC_SELECT_PORT \<equiv> 0x70"
abbreviation RTC_RW_PORT :: u16 where "RTC_RW_PORT \<equiv> 0x71"
abbreviation RTC_REG_A :: u8 where "RTC_REG_A \<equiv> 0x8A"
abbreviation RTC_REG_B :: u8 where "RTC_REG_B \<equiv> 0x8B"
abbreviation RTC_REG_C :: u8 where "RTC_REG_C \<equiv> 0x8C"

definition rtc_init :: "device \<Rightarrow> 'a rtc_scheme \<Rightarrow> 'a rtc_scheme" where
  "rtc_init dev s =
     (let s = enable_irq RTC_IRQ s;
          s = outb RTC_REG_B RTC_SELECT_PORT s;
          (val, s) = inb dev RTC_RW_PORT s;
          regB = ucast val :: u8;
          s = outb RTC_REG_B RTC_SELECT_PORT s
      in outb (regB OR 0x40) RTC_RW_PORT s)"

text \<open>The rate selection of \<open>rtc_write\<close>; \<open>buf\<close> points to a \<^verbatim>\<open>uint16_t\<close>.\<close>

definition rtc_clock_rate :: "u16 \<Rightarrow> u32" where
  "rtc_clock_rate v =
     (if v = 2 then 15 else if v = 4 then 14 else if v = 8 then 13 else if v = 16 then 12
      else if v = 32 then 11 else if v = 64 then 10 else if v = 128 then 9
      else if v = 256 then 8 else 15)"

definition rtc_write :: "device \<Rightarrow> u16 \<Rightarrow> 'a rtc_scheme \<Rightarrow> int \<times> 'a rtc_scheme" where
  "rtc_write dev buf s =
     (let clock_rate = rtc_clock_rate buf AND 0x0F;
          s = outb RTC_REG_A RTC_SELECT_PORT s;
          (val, s) = inb dev RTC_RW_PORT s;
          previous = ucast val :: u8;
          s = outb RTC_REG_A RTC_SELECT_PORT s
      in (0, outb (previous AND 0xF0 OR ucast clock_rate) RTC_RW_PORT s))"

definition rtc_open :: "device \<Rightarrow> 'a rtc_scheme \<Rightarrow> int \<times> 'a rtc_scheme" where
  "rtc_open dev s = (0, rtc_init dev s)"

definition rtc_close :: "int \<Rightarrow> int" where
  "rtc_close fd = 0"

definition rtc_interrupt :: "device \<Rightarrow> 'a rtc_scheme \<Rightarrow> 'a rtc_scheme" where
  "rtc_interrupt dev s =
     (let s = s\<lparr>int_flag := 0\<rparr>;
          s = send_eoi RTC_IRQ s;
          s = outb RTC_REG_C RTC_SELECT_PORT s;
          (_, s) = inw dev RTC_RW_PORT s
      in s\<lparr>tick_counter := tick_counter s + 1\<rparr>)"

text \<open>
  \<open>rtc_read\<close> raises the flag and spins until the handler lowers it; the interrupts that
  arrive meanwhile are handled by \<open>h\<close>, the kernel's dispatch. \<^const>\<open>None\<close> is a read that does not return.
\<close>

definition rtc_read ::
  "('e \<Rightarrow> 'a rtc_scheme \<Rightarrow> 'a rtc_scheme option) \<Rightarrow> 'e list \<Rightarrow> 'a rtc_scheme
   \<Rightarrow> (int \<times> 'a rtc_scheme \<times> 'e list) option" where
  "rtc_read h es s =
     do {
       (s', rest) \<leftarrow> busy_wait (\<lambda>s. int_flag s \<noteq> 0) h es (s\<lparr>int_flag := 1\<rparr>);
       Some (0, s', rest)
     }"

text \<open>The periodic frequency a rate selects (MC146818: \<open>32768 >> (rate - 1)\<close> for rates 3 to 15).\<close>

definition rate_hz :: "nat \<Rightarrow> nat" where
  "rate_hz r = 32768 div 2 ^ (r - 1)"

abbreviation rtc_regs :: "'a machine_scheme \<Rightarrow> u8 \<rightharpoonup> u8" where
  "rtc_regs s \<equiv> regs_of RTC_SELECT_PORT RTC_RW_PORT (ports s)"

interpretation rtc_port: indexed_port RTC_SELECT_PORT RTC_RW_PORT
  by unfold_locales simp

section \<open>Waiting for a tick\<close>

text \<open>
  What \<open>rtc_read\<close> relies on of the interrupt dispatch: a clock tick lowers the flag, and no
  other interrupt touches it.
\<close>

locale tick_source =
  fixes h :: "'e \<Rightarrow> 'a rtc_scheme \<Rightarrow> 'a rtc_scheme option"
    and is_tick :: "'e \<Rightarrow> bool"
  assumes tick_lowers: "is_tick e \<Longrightarrow> \<exists>t. h e s = Some t \<and> int_flag t = 0"
    and other_keeps: "\<not> is_tick e \<Longrightarrow> h e s = Some t \<Longrightarrow> int_flag t = int_flag s"
begin

lemma flag_stays: "(\<forall>e\<in>set es. \<not> is_tick e) \<Longrightarrow> run_events h es s = Some t \<Longrightarrow> int_flag t = int_flag s"
  by (induction es arbitrary: s) (auto simp: bind_eq_Some_conv dest: other_keeps)

lemma flag_up:
  assumes "\<forall>e\<in>set es. \<not> is_tick e" and "run_events h (take k es) (s\<lparr>int_flag := 1\<rparr>) = Some u"
  shows "int_flag u \<noteq> 0"
proof -
  have "\<forall>e\<in>set (take k es). \<not> is_tick e" using assms(1) by (auto dest: in_set_takeD)
  from flag_stays [OF this assms(2)] show ?thesis by simp
qed

text \<open>The read returns at the first tick, if the handlers before it come back, and otherwise it does not return.\<close>

lemma read_at_first_tick:
  assumes "\<forall>e\<in>set es. \<not> is_tick e" and "is_tick t"
  shows "rtc_read h (es @ t # rest) s =
    do { u \<leftarrow> run_events h es (s\<lparr>int_flag := 1\<rparr>); v \<leftarrow> h t u; Some (0, v, rest) }"
proof -
  let ?s = "s\<lparr>int_flag := 1\<rparr>"
  have bw: "busy_wait (\<lambda>s. int_flag s \<noteq> 0) h (es @ t # rest) ?s =
      do { u \<leftarrow> run_events h es ?s; busy_wait (\<lambda>s. int_flag s \<noteq> 0) h (t # rest) u }"
    using flag_up [OF assms(1)] by (intro busy_wait_skip) blast
  show ?thesis
  proof (cases "run_events h es ?s")
    case None
    then show ?thesis using bw by (simp add: rtc_read_def)
  next
    case (Some u)
    have "int_flag u \<noteq> 0" using flag_up [OF assms(1), of "length es" s u] Some by simp
    moreover obtain v where "h t u = Some v" "int_flag v = 0" using tick_lowers [OF assms(2)] by blast
    ultimately show ?thesis using bw Some by (simp add: rtc_read_def busy_wait_done)
  qed
qed

lemma read_blocks: "(\<forall>e\<in>set es. \<not> is_tick e) \<Longrightarrow> rtc_read h es s = None"
proof -
  assume a: "\<forall>e\<in>set es. \<not> is_tick e"
  have "busy_wait (\<lambda>s. int_flag s \<noteq> 0) h es (s\<lparr>int_flag := 1\<rparr>) = None"
    using flag_up [OF a] by (intro busy_wait_stuck) blast
  then show ?thesis by (simp add: rtc_read_def)
qed

end

lemma rtc_interrupt_int_flag [simp]: "int_flag (rtc_interrupt dev s) = 0"
  by (simp add: rtc_interrupt_def send_eoi_def outb_def inw_def Let_def)

lemma rtc_regs_write:
  "rtc_regs (snd (rtc_write dev f s)) =
   (rtc_regs s)(RTC_REG_A \<mapsto>
     (dev (ports s @ [Out RTC_SELECT_PORT RTC_REG_A]) RTC_RW_PORT AND 0xF0)
      OR ucast (rtc_clock_rate f AND 0x0F))"
  using rtc_port.reg_write [of "ports s @ [Out RTC_SELECT_PORT RTC_REG_A, In8 RTC_RW_PORT]" RTC_REG_A]
    rtc_port.reg_read [of "ports s @ [Out RTC_SELECT_PORT RTC_REG_A]" RTC_RW_PORT]
  by (simp add: rtc_write_def Let_def inb_def rtc_port.reg_select)

section \<open>Properties\<close>

text \<open>
  \<open>rtc_write\<close> with a power of two from 2 to 256 programs register A so that its low
  four bits select that frequency; any other value selects 2 Hz. The divider bits (the high
  nibble) are those the device reported, and no other clock register changes.
\<close>

lemma rtc_write_programs_frequency:
  "\<exists>a. rtc_regs (snd (rtc_write dev f s)) = (rtc_regs s)(RTC_REG_A \<mapsto> a)
     \<and> rate_hz (unat (a AND 0x0F)) =
         (if unat f \<in> {2, 4, 8, 16, 32, 64, 128, 256} then unat f else 2)
     \<and> a AND 0xF0 = dev (ports s @ [Out RTC_SELECT_PORT RTC_REG_A]) RTC_RW_PORT AND 0xF0
     \<and> fst (rtc_write dev f s) = 0"
proof -
  let ?p = "dev (ports s @ [Out RTC_SELECT_PORT RTC_REG_A]) RTC_RW_PORT"
  let ?r = "ucast (rtc_clock_rate f AND 0x0F) :: u8"
  let ?a = "(?p AND 0xF0) OR ?r"
  have lo: "((x AND 0xF0) OR r) AND 0x0F = r AND 0x0F" and
    hi: "((x AND 0xF0) OR r) AND 0xF0 = (x AND 0xF0) OR (r AND 0xF0)" for x r :: u8
    by (simp_all add: bit.conj_disj_distrib2 and.assoc)
  have "rate_hz (unat (?a AND 0x0F)) =
         (if unat f \<in> {2, 4, 8, 16, 32, 64, 128, 256} then unat f else 2)"
    unfolding lo by (auto simp: rtc_clock_rate_def rate_hz_def word_unat_eq_iff [of f])
  moreover have "?a AND 0xF0 = ?p AND 0xF0"
    unfolding hi by (simp add: rtc_clock_rate_def)
  ultimately show ?thesis
    by (intro exI [of _ ?a]) (simp add: rtc_regs_write, simp add: rtc_write_def inb_def Let_def)
qed

text \<open>
  A clock interrupt is acknowledged at all three places, so that the next one can arrive:
  the specific end-of-interrupt for line 0 of the slave controller, the one for the cascade line
  of the master, then the selection and the read of the clock's register C. It lowers the flag
  \<open>rtc_read\<close> spins on, counts the tick (modulo \<open>2 ^ 32\<close>) and leaves the interrupt masks.
\<close>

lemma rtc_interrupt_acknowledges:
  "ports (rtc_interrupt dev s) = ports s @
     [Out SLAVE_8259_PORT_COMMAND 0x60, Out MASTER_8259_PORT_COMMAND 0x62,
      Out RTC_SELECT_PORT RTC_REG_C, In16 RTC_RW_PORT]
   \<and> int_flag (rtc_interrupt dev s) = 0
   \<and> uint (tick_counter (rtc_interrupt dev s)) = (uint (tick_counter s) + 1) mod 2 ^ 32
   \<and> irq_enabled (rtc_interrupt dev s) = irq_enabled s"
  by (simp add: rtc_interrupt_def send_eoi_def outb_def inw_def Let_def irq_enabled_def fun_eq_iff
      uint_word_ariths)

end
