(* ===== verification/Lib_String.thy ===== *)
theory Lib_String
  imports Prelude
begin

text \<open>
  The string routines of \<^verbatim>\<open>src/student-distrib/lib.c\<close>: \<open>strlen\<close>, \<open>strncmp\<close>,
  \<open>strcpy\<close>, \<open>strncpy\<close>, \<open>strrev\<close> and \<open>itoa\<close>. A string argument is
  the byte object it points into; \<^const>\<open>None\<close> means that the C code would read or write
  outside that object (or divide by zero). Each loop of the source is one recursive function
  with the source's counter as its argument; the lemmas give its closed form in terms of
  \<^const>\<open>cstr\<close>, the bytes before the first NUL.
\<close>

section \<open>Definitions\<close>

function strlen_from :: "u8 list \<Rightarrow> nat \<Rightarrow> nat option" where
  "strlen_from s len =
     (if len < length s then (if s ! len \<noteq> 0 then strlen_from s (Suc len) else Some len)
      else None)"
  by pat_completeness auto
termination
  by (relation "measure (\<lambda>(s, len). length s - len)") auto

definition strlen :: "u8 list \<Rightarrow> nat option" where
  "strlen s = strlen_from s 0"

function strncmp_from :: "u8 list \<Rightarrow> u8 list \<Rightarrow> nat \<Rightarrow> nat \<Rightarrow> int option" where
  "strncmp_from s1 s2 n i =
     (if i < n then
        do {
          a \<leftarrow> rd s1 i;
          b \<leftarrow> rd s2 i;
          if a \<noteq> b \<or> a = 0 then Some (sint a - sint b) else strncmp_from s1 s2 n (Suc i)
        }
      else Some 0)"
  by pat_completeness auto
termination
  by (relation "measure (\<lambda>(s1, s2, n, i). n - i)") auto

definition strncmp :: "u8 list \<Rightarrow> u8 list \<Rightarrow> nat \<Rightarrow> int option" where
  "strncmp s1 s2 n = strncmp_from s1 s2 n 0"

function strcpy_from :: "u8 list \<Rightarrow> u8 list \<Rightarrow> nat \<Rightarrow> u8 list option" where
  "strcpy_from dest src i =
     (if i < length src then
        if src ! i \<noteq> 0 then
          do { dest' \<leftarrow> wr dest i (src ! i); strcpy_from dest' src (Suc i) }
        else wr dest i 0
      else None)"
  by pat_completeness auto
termination
  by (relation "measure (\<lambda>(dest, src, i). length src - i)") auto

definition strcpy :: "u8 list \<Rightarrow> u8 list \<Rightarrow> u8 list option" where
  "strcpy dest src = strcpy_from dest src 0"

text \<open>
  The first loop of \<open>strncpy\<close> tests \<open>src[i]\<close> before it tests \<open>i < n\<close>, so
  it reads one byte past a source that has no NUL among its first \<open>n\<close> bytes.
\<close>

function strncpy_copy :: "u8 list \<Rightarrow> u8 list \<Rightarrow> nat \<Rightarrow> nat \<Rightarrow> (nat \<times> u8 list) option" where
  "strncpy_copy dest src n i =
     (if i < length src then
        if src ! i \<noteq> 0 \<and> i < n then
          do { dest' \<leftarrow> wr dest i (src ! i); strncpy_copy dest' src n (Suc i) }
        else Some (i, dest)
      else None)"
  by pat_completeness auto
termination
  by (relation "measure (\<lambda>(dest, src, n, i). length src - i)") auto

function strncpy_pad :: "u8 list \<Rightarrow> nat \<Rightarrow> nat \<Rightarrow> u8 list option" where
  "strncpy_pad dest n i =
     (if i < n then do { dest' \<leftarrow> wr dest i 0; strncpy_pad dest' n (Suc i) } else Some dest)"
  by pat_completeness auto
termination
  by (relation "measure (\<lambda>(dest, n, i). n - i)") auto

definition strncpy :: "u8 list \<Rightarrow> u8 list \<Rightarrow> nat \<Rightarrow> u8 list option" where
  "strncpy dest src n =
     do { (i, dest') \<leftarrow> strncpy_copy dest src n 0; strncpy_pad dest' n i }"

text \<open>\<open>register int32_t end = strlen(s) - 1\<close> is \<open>-1\<close> for the empty string.\<close>

function strrev_loop :: "u8 list \<Rightarrow> int \<Rightarrow> int \<Rightarrow> u8 list option" where
  "strrev_loop s beg fin =
     (if beg < fin then
        do {
          tmp \<leftarrow> rd s (nat fin);
          b \<leftarrow> rd s (nat beg);
          s1 \<leftarrow> wr s (nat fin) b;
          s2 \<leftarrow> wr s1 (nat beg) tmp;
          strrev_loop s2 (beg + 1) (fin - 1)
        }
      else Some s)"
  by pat_completeness auto
termination
  by (relation "measure (\<lambda>(s, beg, fin). nat (fin - beg))") auto

definition strrev :: "u8 list \<Rightarrow> u8 list option" where
  "strrev s = do { n \<leftarrow> strlen s; strrev_loop s 0 (int n - 1) }"

definition itoa_lookup :: "u8 list" where
  "itoa_lookup = bytes ''0123456789ABCDEFGHIJKLMNOPQRSTUVWXYZ'' @ [0]"

text \<open>
  The digit loop of \<open>itoa\<close>: \<open>newval % radix\<close> and \<open>newval / radix\<close> are unsigned,
  because \<open>newval\<close> is; a zero radix traps. The loop ends on every input because each round
  stores one byte into \<open>buf\<close>.
\<close>

function itoa_loop :: "u32 \<Rightarrow> u8 list \<Rightarrow> nat \<Rightarrow> u32 \<Rightarrow> (u8 list \<times> nat) option" where
  "itoa_loop newval buf pos radix =
     (if newval = 0 then Some (buf, pos)
      else if radix = 0 then None
      else do {
        c \<leftarrow> rd itoa_lookup (unat (newval mod radix));
        buf' \<leftarrow> wr buf pos c;
        itoa_loop (newval div radix) buf' (Suc pos) radix
      })"
  by pat_completeness auto
termination
  by (relation "measure (\<lambda>(newval, buf, pos, radix). length buf - pos)")
    (auto simp: wr_def split: if_splits)

definition itoa :: "u32 \<Rightarrow> u8 list \<Rightarrow> u32 \<Rightarrow> u8 list option" where
  "itoa value buf radix =
     (if value = 0 then do { b \<leftarrow> wr buf 0 (of_char CHR ''0''); wr b 1 0 }
      else do {
        (b, pos) \<leftarrow> itoa_loop value buf 0 radix;
        b' \<leftarrow> wr b pos 0;
        strrev b'
      })"

text \<open>
  Specification: the digits of \<open>n\<close> in base \<open>r\<close>, least significant first, their
  printed form, and the number a printed form denotes.
\<close>

fun digits :: "nat \<Rightarrow> nat \<Rightarrow> nat list" where
  "digits r n = (if n = 0 \<or> r < 2 then [] else n mod r # digits r (n div r))"

definition radix_repr :: "nat \<Rightarrow> nat \<Rightarrow> u8 list" where
  "radix_repr r n = (if n = 0 then bytes ''0'' else rev (map ((!) itoa_lookup) (digits r n)))"

definition digit_of :: "u8 \<Rightarrow> nat option" where
  "digit_of c =
     (if 48 \<le> unat c \<and> unat c \<le> 57 then Some (unat c - 48)
      else if 65 \<le> unat c \<and> unat c \<le> 90 then Some (unat c - 55) else None)"

definition read_digit :: "nat \<Rightarrow> u8 \<Rightarrow> nat option \<Rightarrow> nat option" where
  "read_digit r c acc = do { n \<leftarrow> acc; d \<leftarrow> digit_of c; if d < r then Some (n * r + d) else None }"

text \<open>A numeral is a non-empty string of digits below the radix; anything else is not read.\<close>

definition read_number :: "nat \<Rightarrow> u8 list \<Rightarrow> nat option" where
  "read_number r s = (if s = [] then None else fold (read_digit r) s (Some 0))"

text \<open>The numeral of a number without superfluous zeros.\<close>

definition is_numeral :: "nat \<Rightarrow> nat \<Rightarrow> u8 list \<Rightarrow> bool" where
  "is_numeral r n s \<longleftrightarrow> read_number r s = Some n \<and> (length s = 1 \<or> hd s \<noteq> of_char CHR ''0'')"

declare digits.simps [simp del]

lemmas string_loop_simps [simp del] =
  strlen_from.simps strncmp_from.simps strcpy_from.simps strncpy_copy.simps
  strncpy_pad.simps strrev_loop.simps itoa_loop.simps


section \<open>strlen\<close>

lemma strlen_from_eq:
  "len \<le> length s \<Longrightarrow> 0 \<notin> set (take len s) \<Longrightarrow>
   strlen_from s len = (if 0 \<in> set s then Some (length (cstr s)) else None)"
proof (induction s len rule: strlen_from.induct)
  case (1 s len)
  show ?case
  proof (cases "len < length s \<and> s ! len \<noteq> 0")
    case True
    then have "0 \<notin> set (take (Suc len) s)"
      using "1.prems" by (auto simp: take_Suc_conv_app_nth)
    with True show ?thesis
      by (simp add: strlen_from.simps [of s len] "1.IH" del: set_take_subset)
  next
    case False
    show ?thesis
    proof (cases "len < length s")
      case True
      with False have z: "s ! len = 0" by simp
      have s: "s = take len s @ 0 # drop (Suc len) s"
        using True z by (metis id_take_nth_drop)
      have "cstr s = take len s"
        using "1.prems"(2) by (subst s) (rule cstr_append_nul)
      moreover have "0 \<in> set s" using True z by (metis nth_mem)
      ultimately show ?thesis
        using True z by (simp add: strlen_from.simps [of s len])
    next
      case oob: False
      with "1.prems" show ?thesis by (subst strlen_from.simps) simp
    qed
  qed
qed

lemma strlen_eq: "strlen s = (if 0 \<in> set s then Some (length (cstr s)) else None)"
  by (simp add: strlen_def strlen_from_eq)

lemma strlen_nul_terminated [simp]: "0 \<notin> set s \<Longrightarrow> strlen (s @ 0 # t) = Some (length s)"
  by (simp add: strlen_eq)

section \<open>strncmp\<close>

text \<open>
  Where both objects are NUL-terminated or at least \<open>n\<close> bytes long, the loop compares
  the two strings' first \<open>n\<close> bytes without leaving them; the result is zero exactly when
  they agree.
\<close>

lemma strncmp_from_zero_iff:
  assumes "0 \<in> set s1 \<or> n \<le> length s1" and "0 \<in> set s2 \<or> n \<le> length s2"
    and "i \<le> length (cstr s1)" "i \<le> length (cstr s2)" "i \<le> n"
    and "take i (cstr s1) = take i (cstr s2)"
  shows "\<exists>r. strncmp_from s1 s2 n i = Some r \<and>
             (r = 0 \<longleftrightarrow> take n (cstr s1) = take n (cstr s2))"
  using assms(3-)
proof (induction "n - i" arbitrary: i)
  case 0
  then show ?case by (subst strncmp_from.simps) simp
next
  case (Suc k)
  then have less: "i < n" by simp
  note x = nth_cstr_bounded [OF assms(1) Suc.prems(1) less]
    and y = nth_cstr_bounded [OF assms(2) Suc.prems(2) less]
  have step: "strncmp_from s1 s2 n i =
    (if s1 ! i \<noteq> s2 ! i \<or> s1 ! i = 0 then Some (sint (s1 ! i) - sint (s2 ! i))
     else strncmp_from s1 s2 n (Suc i))"
    using less x y by (subst strncmp_from.simps) simp
  show ?case
  proof (cases "s1 ! i = s2 ! i")
    case False
    then have "take n (cstr s1) \<noteq> take n (cstr s2)"
      using x y less Suc.prems by (metis length_take min_less_iff_conj nth_take)
    with False show ?thesis by (simp add: step)
  next
    case eq: True
    show ?thesis
    proof (cases "s1 ! i = 0")
      case True
      with eq x y Suc.prems have "i = length (cstr s1)" "i = length (cstr s2)"
        by (metis nat_less_le nth_cstr_nonzero)+
      with Suc.prems have "cstr s1 = cstr s2" by simp
      with True eq show ?thesis by (simp add: step)
    next
      case False
      with eq x y have l: "i < length (cstr s1)" "i < length (cstr s2)"
        by presburger+
      with eq x y Suc.prems have "take (Suc i) (cstr s1) = take (Suc i) (cstr s2)"
        by (simp add: take_Suc_conv_app_nth)
      with l less Suc.hyps(2) have
        "\<exists>r. strncmp_from s1 s2 n (Suc i) = Some r \<and>
             (r = 0 \<longleftrightarrow> take n (cstr s1) = take n (cstr s2))"
        by (intro Suc.hyps(1)) auto
      with eq False show ?thesis by (simp add: step)
    qed
  qed
qed

lemma strncmp_zero_iff:
  assumes "0 \<in> set s1 \<or> n \<le> length s1" and "0 \<in> set s2 \<or> n \<le> length s2"
  obtains r where "strncmp s1 s2 n = Some r"
    and "r = 0 \<longleftrightarrow> take n (cstr s1) = take n (cstr s2)"
  using strncmp_from_zero_iff [OF assms, of 0] by (auto simp: strncmp_def)

section \<open>strcpy and strncpy\<close>

lemma strcpy_from_eq:
  assumes "0 \<in> set src" and "length (cstr src) < length dest" and "i \<le> length (cstr src)"
  shows "strcpy_from dest src i =
         Some (take i dest @ drop i (cstr src) @ 0 # drop (Suc (length (cstr src))) dest)"
  using assms(2-)
proof (induction "length (cstr src) - i" arbitrary: i dest)
  case 0
  then have i: "i = length (cstr src)" by simp
  with assms(1) 0 length_cstr_less [OF assms(1)] nth_length_cstr [OF assms(1)] show ?case
    by (subst strcpy_from.simps) (simp add: upd_conv_take_nth_drop)
next
  case (Suc k)
  then have l: "i < length (cstr src)" by simp
  with length_cstr_less [OF assms(1)] have li: "i < length src" by simp
  have nz: "src ! i \<noteq> 0" and eq: "src ! i = cstr src ! i"
    using l by (metis nth_cstr nth_cstr_nonzero)+
  have "strcpy_from dest src i = strcpy_from (dest[i := src ! i]) src (Suc i)"
    using li nz l Suc.prems by (subst strcpy_from.simps) simp
  also have "\<dots> = Some (take (Suc i) (dest[i := src ! i]) @ drop (Suc i) (cstr src) @
      0 # drop (Suc (length (cstr src))) (dest[i := src ! i]))"
    using l Suc.prems Suc.hyps(2) by (intro Suc.hyps(1)) auto
  finally show ?case
    using l Suc.prems by (simp add: take_Suc_conv_app_nth eq Cons_nth_drop_Suc)
qed

lemma strcpy_eq:
  "0 \<in> set src \<Longrightarrow> length (cstr src) < length dest \<Longrightarrow>
   strcpy dest src = Some (cstr src @ 0 # drop (Suc (length (cstr src))) dest)"
  by (simp add: strcpy_def strcpy_from_eq)


lemma strncpy_copy_eq:
  assumes "0 \<in> set src \<or> n < length src" and "n \<le> length dest"
    and "i \<le> length (cstr src)" "i \<le> n"
  shows "strncpy_copy dest src n i =
         (let m = min n (length (cstr src)) in
          Some (m, take i dest @ drop i (take m (cstr src)) @ drop m dest))"
  using assms(2-)
proof (induction "min n (length (cstr src)) - i" arbitrary: i dest)
  case 0
  then have i: "i = min n (length (cstr src))" by simp
  have "i < length src \<and> (i = n \<or> src ! i = 0)"
    using nth_cstr_bounded [of src "Suc n" i] assms(1) i by (auto simp: min_def)
  with i show ?case by (subst strncpy_copy.simps) (auto simp: Let_def)
next
  case (Suc k)
  then have l: "i < length (cstr src)" and n: "i < n" by auto
  have li: "i < length src" and eq: "src ! i = cstr src ! i" and nz: "src ! i \<noteq> 0"
    using l length_cstr_le [of src] nth_cstr [OF l] nth_cstr_nonzero [OF l] by auto
  let ?m = "min n (length (cstr src))" and ?d = "dest[i := src ! i]"
  have "strncpy_copy dest src n i = strncpy_copy ?d src n (Suc i)"
    using li nz n Suc.prems by (subst strncpy_copy.simps) simp
  also have "\<dots> = (let m = ?m in
      Some (m, take (Suc i) ?d @ drop (Suc i) (take m (cstr src)) @ drop m ?d))"
    using l n Suc.prems Suc.hyps(2) by (intro Suc.hyps(1)) auto
  finally have rec: "strncpy_copy dest src n i = (let m = ?m in
      Some (m, take (Suc i) ?d @ drop (Suc i) (take m (cstr src)) @ drop m ?d))" .
  have "take (Suc i) ?d = take i dest @ [cstr src ! i]"
    using n Suc.prems by (simp add: take_Suc_conv_app_nth eq)
  moreover have "drop i (take ?m (cstr src)) = cstr src ! i # drop (Suc i) (take ?m (cstr src))"
    using l n by (subst Cons_nth_drop_Suc [symmetric]) auto
  ultimately show ?case using l n by (simp add: rec Let_def)
qed

lemma strncpy_pad_eq:
  "n \<le> length dest \<Longrightarrow> i \<le> n \<Longrightarrow>
   strncpy_pad dest n i = Some (take i dest @ replicate (n - i) 0 @ drop n dest)"
proof (induction dest n i rule: strncpy_pad.induct)
  case (1 dest n i)
  show ?case
  proof (cases "i < n")
    case True
    have "strncpy_pad dest n i = strncpy_pad (dest[i := 0]) n (Suc i)"
      using True "1.prems" by (subst strncpy_pad.simps) simp
    also have "\<dots> = Some (take (Suc i) (dest[i := 0]) @ replicate (n - Suc i) 0 @
        drop n (dest[i := 0]))"
      using True "1.prems" by (intro "1.IH") auto
    finally show ?thesis
      using True "1.prems"
      by (simp add: take_Suc_conv_app_nth Suc_diff_Suc [symmetric] del: Suc_diff_Suc)
  next
    case False
    with "1.prems" show ?thesis by (subst strncpy_pad.simps) simp
  qed
qed

lemma strncpy_eq:
  assumes "0 \<in> set src \<or> n < length src" and "n \<le> length dest"
  shows "strncpy dest src n =
         Some (take n (cstr src) @ replicate (n - length (cstr src)) 0 @ drop n dest)"
proof -
  let ?m = "min n (length (cstr src))"
  have "strncpy dest src n = strncpy_pad (take ?m (cstr src) @ drop ?m dest) n ?m"
    using assms by (simp add: strncpy_def strncpy_copy_eq Let_def)
  then show ?thesis
    using assms by (simp add: strncpy_pad_eq min_def)
qed

section \<open>strrev\<close>

lemma strrev_loop_eq:
  assumes "int (length a) = beg" and "fin = beg + int (length m) - 1"
  shows "strrev_loop (a @ m @ b) beg fin = Some (a @ rev m @ b)"
  using assms
proof (induction m arbitrary: a b beg fin rule: length_induct)
  case (1 m)
  show ?case
  proof (cases "length m \<le> 1")
    case True
    then have "rev m = m" by (cases m) (auto simp: Suc_le_eq)
    with True "1.prems" show ?thesis by (subst strrev_loop.simps) simp
  next
    case False
    then obtain x y ms where m: "m = x # ms @ [y]"
      by (metis One_nat_def append_Cons append_Nil append_butlast_last_id le_numeral_extra(4)
          list.exhaust list.size(3) list.size(4) zero_le_one add_Suc_right add_0_right add.commute)
    have f: "nat fin = length (a @ x # ms)" and g: "nat beg = length a"
      using "1.prems" m by auto
    have "rd ((a @ x # ms) @ y # b) (nat fin) = Some y" and
      "rd (a @ x # ms @ y # b) (nat beg) = Some x" and
      "wr ((a @ x # ms) @ y # b) (nat fin) x = Some ((a @ x # ms) @ x # b)" and
      "wr (a @ x # ms @ x # b) (nat beg) y = Some (a @ y # ms @ x # b)"
      unfolding f g by (simp_all only: rd_def wr_def nth_append_length list_update_length) simp_all
    then have "strrev_loop (a @ m @ b) beg fin =
        strrev_loop ((a @ [y]) @ ms @ x # b) (beg + 1) (fin - 1)"
      using "1.prems" m by (subst strrev_loop.simps) simp
    also have "\<dots> = Some ((a @ [y]) @ rev ms @ x # b)"
      using "1.prems" m by (intro "1.IH" [rule_format]) auto
    finally show ?thesis by (simp add: m)
  qed
qed

lemma strrev_eq:
  "0 \<in> set s \<Longrightarrow> strrev s = Some (rev (cstr s) @ drop (length (cstr s)) s)"
proof -
  assume z: "0 \<in> set s"
  then have s: "s = cstr s @ drop (length (cstr s)) s"
    by (simp add: cstr_def flip: dropWhile_eq_drop)
  have "strrev s = strrev_loop ([] @ cstr s @ drop (length (cstr s)) s) 0 (int (length (cstr s)) - 1)"
    using z s by (simp add: strrev_def strlen_eq)
  then show ?thesis by (simp add: strrev_loop_eq del: append_Nil)
qed


section \<open>itoa\<close>

lemma itoa_lookup_digits:
  "list_all (\<lambda>d. itoa_lookup ! d \<noteq> 0 \<and> digit_of (itoa_lookup ! d) = Some d \<and> (itoa_lookup ! d = 48 \<longrightarrow> d = 0)) [0..<36]"
  by code_simp

lemma digit_char [simp]:
  "d < 36 \<Longrightarrow> itoa_lookup ! d \<noteq> 0" "d < 36 \<Longrightarrow> digit_of (itoa_lookup ! d) = Some d" "d < 36 \<Longrightarrow> itoa_lookup ! d = 48 \<Longrightarrow> d = 0"
  using itoa_lookup_digits by (auto simp: list_all_iff)

lemma length_itoa_lookup [simp]: "length itoa_lookup = 37"
  by (simp add: itoa_lookup_def bytes_def)

lemma digits_less: "2 \<le> r \<Longrightarrow> d \<in> set (digits r n) \<Longrightarrow> d < r"
  by (induction r n rule: digits.induct) (subst (asm) (2) digits.simps, auto split: if_splits)

lemma length_digits_le: "2 \<le> r \<Longrightarrow> n < r ^ k \<Longrightarrow> length (digits r n) \<le> k"
proof (induction k arbitrary: n)
  case 0
  then show ?case by (simp add: digits.simps)
next
  case (Suc k)
  then have "n div r < r ^ k" by (simp add: less_mult_imp_div_less mult.commute)
  with Suc show ?case by (subst digits.simps) simp
qed

lemma foldr_digits:
  "2 \<le> r \<Longrightarrow> foldr (\<lambda>d acc. acc * r + d) (digits r n) 0 = n"
proof (induction r n rule: digits.induct)
  case (1 r n)
  then show ?case
    by (subst digits.simps) (auto simp: div_mult_mod_eq)
qed

lemma read_digits:
  assumes "2 \<le> r" "r \<le> 36"
  shows "fold (read_digit r) (rev (map ((!) itoa_lookup) (digits r n))) (Some 0) = Some n"
  using assms
proof (induction r n rule: digits.induct)
  case (1 r n)
  show ?case
  proof (cases "n = 0")
    case False
    have "n mod r < r" "n mod r < 36" using "1.prems" mod_less_divisor [of r n] by linarith+
    moreover have "fold (read_digit r) (rev (map ((!) itoa_lookup) (digits r (n div r)))) (Some 0) = Some (n div r)"
      using 1 False by simp
    ultimately show ?thesis
      using False "1.prems" by (subst digits.simps) (simp add: read_digit_def div_mult_mod_eq)
  qed (simp add: digits.simps)
qed

lemma digits_last_nonzero: "2 \<le> r \<Longrightarrow> 0 < n \<Longrightarrow> digits r n \<noteq> [] \<and> last (digits r n) \<noteq> 0"
proof (induction r n rule: digits.induct)
  case (1 r n)
  have d: "digits r n = n mod r # digits r (n div r)" using "1.prems" by (subst digits.simps) simp
  show ?case
  proof (cases "n div r = 0")
    case True
    then have "digits r (n div r) = []" by (simp add: digits.simps)
    moreover have "n mod r \<noteq> 0" using True "1.prems"(2) div_mult_mod_eq [of n r] by simp
    ultimately show ?thesis by (simp add: d)
  next
    case False
    then have "digits r (n div r) \<noteq> [] \<and> last (digits r (n div r)) \<noteq> 0" using 1 by simp
    then show ?thesis by (simp add: d)
  qed
qed

lemma is_numeral_repr:
  assumes "2 \<le> r" "r \<le> 36"
  shows "is_numeral r n (radix_repr r n)"
proof (cases "n = 0")
  case True
  then show ?thesis using assms by (simp add: is_numeral_def read_number_def read_digit_def digit_of_def radix_repr_def bytes_def)
next
  case False
  let ?ds = "digits r n"
  have l: "?ds \<noteq> []" "last ?ds \<noteq> 0" using digits_last_nonzero [of r n] assms(1) False by auto
  have "last ?ds < r" using digits_less [OF assms(1)] last_in_set [OF l(1)] .
  then have lt: "last ?ds < 36" using assms(2) by linarith
  have "itoa_lookup ! last ?ds \<noteq> 48"
  proof
    assume "itoa_lookup ! last ?ds = 48"
    from digit_char(3) [OF lt this] l(2) show False by contradiction
  qed
  moreover have "hd (rev (map ((!) itoa_lookup) ?ds)) = itoa_lookup ! last ?ds" using l(1) by (simp add: hd_rev last_map)
  ultimately show ?thesis using False l(1) read_digits [OF assms, of n] by (simp add: is_numeral_def read_number_def radix_repr_def)
qed

lemma length_radix_repr_le: "2 \<le> r \<Longrightarrow> n < r ^ k \<Longrightarrow> 0 < k \<Longrightarrow> length (radix_repr r n) \<le> k"
  using length_digits_le [of r n k] by (simp add: radix_repr_def bytes_def)

lemma itoa_loop_eq:
  assumes "2 \<le> unat radix" "unat radix \<le> 36"
    and "pos + length (digits (unat radix) (unat v)) \<le> length buf"
  shows "itoa_loop v buf pos radix =
    (let ds = map ((!) itoa_lookup) (digits (unat radix) (unat v)) in
     Some (take pos buf @ ds @ drop (pos + length ds) buf, pos + length ds))"
  using assms
proof (induction v buf pos radix rule: itoa_loop.induct)
  case (1 v buf pos radix)
  let ?r = "unat radix"
  show ?case
  proof (cases "v = 0")
    case True
    then show ?thesis by (simp add: digits.simps [of _ 0] itoa_loop.simps [of 0] Let_def)
  next
    case False
    then have nz: "unat v \<noteq> 0" and rz: "radix \<noteq> 0"
      using "1.prems" by (auto simp: unat_eq_zero)
    have dg: "digits ?r (unat v) = unat v mod ?r # digits ?r (unat v div ?r)"
      using nz "1.prems" by (subst digits.simps) simp
    have "unat v mod ?r < ?r" using "1.prems"(1) by simp
    then have i: "unat v mod ?r < 37" using "1.prems"(2) by simp
    let ?c = "itoa_lookup ! (unat v mod ?r)"
    have p: "pos < length buf" using "1.prems"(3) dg by simp
    have r: "rd itoa_lookup (unat (v mod radix)) = Some ?c"
      and w: "wr buf pos ?c = Some (buf[pos := ?c])"
      using i p by (simp_all add: unat_mod)
    have "itoa_loop v buf pos radix = itoa_loop (v div radix) (buf[pos := ?c]) (Suc pos) radix"
      using False rz r w by (subst itoa_loop.simps) simp
    moreover have "itoa_loop (v div radix) (buf[pos := ?c]) (Suc pos) radix =
      (let ds = map ((!) itoa_lookup) (digits ?r (unat (v div radix))) in
       Some (take (Suc pos) (buf[pos := ?c]) @ ds @ drop (Suc pos + length ds) (buf[pos := ?c]),
             Suc pos + length ds))"
      using "1.prems" dg by (intro "1.IH" [OF False rz r w]) (simp_all add: unat_div)
    ultimately show ?thesis
      using p by (simp add: dg Let_def unat_div take_Suc_conv_app_nth)
  qed
qed

lemma itoa_eq:
  assumes "2 \<le> unat radix" "unat radix \<le> 36"
    and "length (radix_repr (unat radix) (unat v)) < length buf"
  obtains b where "itoa v buf radix = Some b" and "cstr b = radix_repr (unat radix) (unat v)"
    and "length b = length buf"
proof (cases "v = 0")
  case True
  obtain c c' bs where "buf = c # c' # bs"
    using assms(3) True by (cases buf; cases "tl buf") (auto simp: radix_repr_def bytes_def)
  with True that show ?thesis
    by (simp add: itoa_def radix_repr_def bytes_def cstr_def)
next
  case False
  then have nz: "unat v \<noteq> 0" by (simp add: unat_eq_zero)
  let ?ds = "map ((!) itoa_lookup) (digits (unat radix) (unat v))"
  have no0: "0 \<notin> set ?ds"
    using digits_less [OF assms(1)] assms(2) digit_char(1) by fastforce
  have len: "length ?ds < length buf" using assms(3) nz by (simp add: radix_repr_def)
  obtain x xs where rest: "drop (length ?ds) buf = x # xs"
    using len by (metis Cons_nth_drop_Suc)
  have "itoa v buf radix = strrev (?ds @ 0 # xs)"
    using False assms len rest by (simp add: itoa_def itoa_loop_eq Let_def list_update_append)
  also have "\<dots> = Some (rev ?ds @ 0 # xs)"
    using no0 by (simp add: strrev_eq)
  finally show ?thesis
    using that [of "rev ?ds @ 0 # xs"] no0 nz rest len
    by (simp add: radix_repr_def) (metis Suc_diff_Suc add_Suc_right length_Cons length_drop
        le_add_diff_inverse less_imp_le_nat length_map)
qed

section \<open>Properties\<close>

text \<open>
  C40: \<open>itoa\<close> writes into the caller's buffer, as a NUL-terminated string, the numeral of the value in the radix, for
  every radix from 2 to 36 and every 32-bit value of at most \<open>k\<close> digits, whenever the buffer has more than \<open>k\<close> bytes: a non-empty string of digits below the
  radix, without superfluous zeros, whose reading is the value again. It never leaves the buffer.
\<close>

theorem itoa_round_trip:
  assumes "2 \<le> unat radix" and "unat radix \<le> 36"
    and "unat v < unat radix ^ k" and "0 < k" and "k < length buf"
  shows "\<exists>b. itoa v buf radix = Some b \<and> length b = length buf \<and> 0 \<in> set b
           \<and> is_numeral (unat radix) (unat v) (cstr b)"
proof -
  have len: "length (radix_repr (unat radix) (unat v)) < length buf"
    using length_radix_repr_le [OF assms(1,3,4)] assms(5) by linarith
  obtain b where b: "itoa v buf radix = Some b" "cstr b = radix_repr (unat radix) (unat v)"
    "length b = length buf"
    using itoa_eq [OF assms(1,2) len] by metis
  moreover have "0 \<in> set b"
    using b len cstr_no_nul [of b] by (metis less_irrefl)
  ultimately show ?thesis
    using is_numeral_repr [OF assms(1,2), of "unat v"] by simp
qed

theorem itoa_round_trip_witness:
  "\<exists>b c. itoa 0xCAFE (replicate 8 1) 16 = Some b \<and> read_number 16 (cstr b) = Some 0xCAFE
    \<and> itoa 0 (replicate 8 1) 16 = Some c \<and> read_number 16 (cstr c) = Some 0"
  using itoa_round_trip [of 16 "0xCAFE" 4 "replicate 8 1"] itoa_round_trip [of 16 0 4 "replicate 8 1"] by (auto simp: is_numeral_def)

text \<open>
  \<open>strncmp\<close> on two objects that are NUL-terminated or at least \<open>n\<close> bytes long
  returns without reading outside them, and returns zero exactly when the two strings agree on
  their first \<open>n\<close> characters.
\<close>

lemma strncmp_compares_prefixes:
  assumes "0 \<in> set s1 \<or> n \<le> length s1" and "0 \<in> set s2 \<or> n \<le> length s2"
  shows "\<exists>r. strncmp s1 s2 n = Some r \<and> (r = 0) = (take n (cstr s1) = take n (cstr s2))"
  using strncmp_zero_iff [OF assms] by metis

text \<open>
  \<open>strncpy\<close> copies the string's first \<open>n\<close> characters, fills the rest of the first
  \<open>n\<close> bytes with NULs and leaves the bytes of the destination after them alone. It needs
  one byte of the source more than it copies: the source has to be NUL-terminated or longer than
  \<open>n\<close>, and with exactly \<open>n\<close> non-NUL bytes the code reads past it.
\<close>

lemma strncpy_copies_and_pads:
  assumes "n \<le> length dest"
  shows "(0 \<in> set src \<or> n < length src \<longrightarrow>
           strncpy dest src n =
             Some (take n (cstr src) @ replicate (n - length (cstr src)) 0 @ drop n dest))
       \<and> (0 \<notin> set src \<and> length src = n \<longrightarrow> strncpy dest src n = None)"
proof (intro conjI impI)
  assume "0 \<in> set src \<or> n < length src"
  then show "strncpy dest src n =
      Some (take n (cstr src) @ replicate (n - length (cstr src)) 0 @ drop n dest)"
    using assms by (rule strncpy_eq)
next
  assume a: "0 \<notin> set src \<and> length src = n"
  have "i \<le> n \<Longrightarrow> strncpy_copy d src n i = None" for i d
  proof (induction "n - i" arbitrary: i d)
    case 0
    with a show ?case by (subst strncpy_copy.simps) simp
  next
    case (Suc k)
    then have l: "i < length src" using a by simp
    then have nz: "src ! i \<noteq> 0" using a nth_mem by fastforce
    have "strncpy_copy d' src n (Suc i) = None" for d'
      using Suc.hyps(2) Suc.prems by (intro Suc.hyps(1)) auto
    with l nz a show ?case by (subst strncpy_copy.simps) (simp add: wr_def)
  qed
  then show "strncpy dest src n = None" by (simp add: strncpy_def)
qed

end
