(* ===== verification/Console.thy ===== *)
theory Console
  imports Rtc Lib_String
begin

text \<open>
  The text console: \<open>clear\<close>, \<open>putc\<close>, \<open>puts\<close>, \<open>printf\<close> and \<open>test_interrupts\<close>
  of \<^verbatim>\<open>src/student-distrib/lib.c\<close>, \<open>scroll_up\<close> of \<^verbatim>\<open>keyboard.c\<close>
  and \<open>update_cursor\<close> of \<^verbatim>\<open>terminal.c\<close>.

  Video memory is the byte map \<open>vid\<close>, indexed by the offset from \<^verbatim>\<open>video_mem\<close>
  (0xB8000), so a store below the frame buffer is a store at a negative offset. The cell of
  column \<open>x\<close> and row \<open>y\<close> is the character byte at offset \<open>2 * (80 * y + x)\<close> and
  the attribute byte after it. The invariant \<open>con_inv\<close> keeps the cursor on the screen.
\<close>

record console = rtc +
  vid :: "int \<Rightarrow> u8"
  screen_x :: int
  screen_y :: int

abbreviation NUM_COLS :: int where "NUM_COLS \<equiv> 80"
abbreviation NUM_ROWS :: int where "NUM_ROWS \<equiv> 25"
abbreviation ATTRIB :: u8 where "ATTRIB \<equiv> 7"
abbreviation VGA_CONTROL_REG :: u16 where "VGA_CONTROL_REG \<equiv> 0x3D4"
abbreviation VGA_CONTROL_REG2 :: u16 where "VGA_CONTROL_REG2 \<equiv> 0x3D5"

definition cell :: "int \<Rightarrow> int \<Rightarrow> int" where
  "cell x y = 2 * (NUM_COLS * y + x)"

definition update_cursor :: "int \<Rightarrow> int \<Rightarrow> 'a machine_scheme \<Rightarrow> 'a machine_scheme" where
  "update_cursor x y s =
     (let pos = word_of_int (y * NUM_COLS + x) :: u16;
          s = outb 0x0F VGA_CONTROL_REG s;
          s = outb (ucast (pos AND 0xFF)) VGA_CONTROL_REG2 s;
          s = outb 0x0E VGA_CONTROL_REG s
      in outb (ucast (drop_bit 8 pos AND 0xFF)) VGA_CONTROL_REG2 s)"

definition clear_vid :: "(int \<Rightarrow> u8) \<Rightarrow> (int \<Rightarrow> u8)" where
  "clear_vid v =
     fold (\<lambda>i v. v(2 * int i := 0x20, 2 * int i + 1 := ATTRIB)) [0..<nat (NUM_ROWS * NUM_COLS)] v"

definition clear :: "'a console_scheme \<Rightarrow> 'a console_scheme" where
  "clear s = s\<lparr>vid := clear_vid (vid s), screen_x := 0, screen_y := 0\<rparr>"

text \<open>
  \<open>scroll_up\<close>: rows 1 to 24 are saved into \<open>scroll_buf\<close>, written back one row up, and the
  last row's characters are zeroed. The two nested loops run row by row, and the buffer index
  counts the visited cells.
\<close>

definition scroll_save :: "(int \<Rightarrow> u8) \<Rightarrow> u8 list" where
  "scroll_save v = map (\<lambda>(row, col). v (cell (int col) (int row))) (List.product [1..<25] [0..<80])"

definition scroll_store :: "u8 list \<Rightarrow> (int \<Rightarrow> u8) \<Rightarrow> (int \<Rightarrow> u8)" where
  "scroll_store scroll_buf v =
     fold (\<lambda>(i, row, col) v. v(cell (int col) (int row) := scroll_buf ! i))
       (enumerate 0 (List.product [0..<24] [0..<80])) v"

definition scroll_blank :: "(int \<Rightarrow> u8) \<Rightarrow> (int \<Rightarrow> u8)" where
  "scroll_blank v = fold (\<lambda>col v. v(cell (int col) (NUM_ROWS - 1) := 0)) [0..<80] v"

definition scroll_up :: "'a console_scheme \<Rightarrow> 'a console_scheme" where
  "scroll_up s =
     (let s = s\<lparr>vid := scroll_blank (scroll_store (scroll_save (vid s)) (vid s))\<rparr>;
          s = s\<lparr>screen_x := 0, screen_y := NUM_ROWS - 1\<rparr>
      in update_cursor (screen_x s) (screen_y s) s)"

definition putc :: "u8 \<Rightarrow> 'a console_scheme \<Rightarrow> 'a console_scheme" where
  "putc c s =
     (let s = (if c = 10 \<or> c = 13 then
                 let s = s\<lparr>screen_y := screen_y s + 1\<rparr>;
                     s = s\<lparr>screen_x := 0\<rparr>
                 in if screen_y s \<ge> NUM_ROWS then scroll_up s else s
               else
                 let s = s\<lparr>vid := (vid s)(cell (screen_x s) (screen_y s) := c)\<rparr>;
                     s = s\<lparr>vid := (vid s)(cell (screen_x s) (screen_y s) + 1 := ATTRIB)\<rparr>;
                     s = s\<lparr>screen_x := screen_x s + 1\<rparr>;
                     s = (if screen_x s \<ge> NUM_COLS then s\<lparr>screen_y := screen_y s + 1\<rparr> else s);
                     s = s\<lparr>screen_x := screen_x s smod NUM_COLS\<rparr>;
                     s = s\<lparr>screen_y := (screen_y s + screen_x s sdiv NUM_COLS) smod NUM_ROWS\<rparr>
                 in if screen_y s \<ge> NUM_ROWS then scroll_up s else s)
      in update_cursor (screen_x s) (screen_y s) s)"

text \<open>\<open>puts\<close> prints the bytes before the NUL and returns their number.\<close>

definition puts :: "u8 list \<Rightarrow> 'a console_scheme \<Rightarrow> (int \<times> 'a console_scheme) option" where
  "puts str s = do { n \<leftarrow> strlen str; Some (int n, fold putc (take n str) s) }"

definition test_interrupts :: "'a console_scheme \<Rightarrow> 'a console_scheme" where
  "test_interrupts s =
     s\<lparr>vid := fold (\<lambda>i v. v(2 * int i := v (2 * int i) + 1)) [0..<nat (NUM_ROWS * NUM_COLS)] (vid s)\<rparr>"

text \<open>
  \<open>printf\<close> as the bytes it sends to \<open>putc\<close>, in order, and what is left of the
  format when the loop ends. The format is the rest of the
  format object from \<open>buf\<close> on; \<open>args\<close> are the stack words after the format pointer, and
  \<open>str\<close> gives the string object behind a pointer argument. \<^const>\<open>None\<close> is a read past
  the format object or past the arguments: a lone \<open>%\<close> at the end of the format makes the
  loop step over the terminator. The contents of the uninitialised conversion buffers do not
  matter (\<open>itoa\<close> writes the bytes that are printed), so they start as zeros.
\<close>

definition conv_x :: "u32 \<Rightarrow> u8 list option" where
  "conv_x v = do { b \<leftarrow> itoa v (replicate 64 0) 16; n \<leftarrow> strlen b; Some (take n b) }"

definition conv_alt_x :: "u32 \<Rightarrow> u8 list option" where
  "conv_alt_x v =
     do {
       hi \<leftarrow> itoa v (replicate 56 0) 16;
       starting_index \<leftarrow> strlen hi;
       let conv_buf = fold (\<lambda>i b. b[i := of_char CHR ''0'']) [starting_index..<8] (replicate 8 0) @ hi;
       n \<leftarrow> strlen (drop starting_index conv_buf);
       Some (take n (drop starting_index conv_buf))
     }"

definition conv_u :: "u32 \<Rightarrow> u8 list option" where
  "conv_u v = do { b \<leftarrow> itoa v (replicate 36 0) 10; n \<leftarrow> strlen b; Some (take n b) }"

definition conv_d :: "u32 \<Rightarrow> u8 list option" where
  "conv_d v =
     (if sint v < 0 then
        do {
          b \<leftarrow> itoa (- v) (replicate 35 0) 10;
          n \<leftarrow> strlen (of_char CHR ''-'' # b);
          Some (take n (of_char CHR ''-'' # b))
        }
      else conv_u v)"

definition emit :: "u8 list \<Rightarrow> (u8 list \<times> u8 list) option \<Rightarrow> (u8 list \<times> u8 list) option" where
  "emit ds r = map_option (\<lambda>(out, rest). (ds @ out, rest)) r"

fun printf_loop :: "(u32 \<Rightarrow> u8 list) \<Rightarrow> u8 list \<Rightarrow> u32 list \<Rightarrow> (u8 list \<times> u8 list) option"
and printf_spec :: "(u32 \<Rightarrow> u8 list) \<Rightarrow> bool \<Rightarrow> u8 list \<Rightarrow> u32 list \<Rightarrow> (u8 list \<times> u8 list) option" where
  "printf_loop str [] args = None"
| "printf_loop str (c # buf) args =
     (if c = 0 then Some ([], c # buf)
      else if c = of_char CHR ''%'' then printf_spec str False buf args
      else emit [c] (printf_loop str buf args))"
| "printf_spec str alternate [] args = None"
| "printf_spec str alternate (c # buf) args =
     (if c = of_char CHR ''%'' then emit [of_char CHR ''%''] (printf_loop str buf args)
      else if c = of_char CHR ''#'' then printf_spec str True buf args
      else if c = of_char CHR ''x'' then
        do {
          w \<leftarrow> rd args 0;
          ds \<leftarrow> (if alternate then conv_alt_x w else conv_x w);
          emit ds (printf_loop str buf (tl args))
        }
      else if c = of_char CHR ''u'' then
        do { w \<leftarrow> rd args 0; ds \<leftarrow> conv_u w; emit ds (printf_loop str buf (tl args)) }
      else if c = of_char CHR ''d'' then
        do { w \<leftarrow> rd args 0; ds \<leftarrow> conv_d w; emit ds (printf_loop str buf (tl args)) }
      else if c = of_char CHR ''c'' then
        do { w \<leftarrow> rd args 0; emit [ucast w] (printf_loop str buf (tl args)) }
      else if c = of_char CHR ''s'' then
        do {
          w \<leftarrow> rd args 0;
          n \<leftarrow> strlen (str w);
          emit (take n (str w)) (printf_loop str buf (tl args))
        }
      else printf_loop str buf args)"

text \<open>The value returned is \<open>buf - format\<close>, the distance to the terminator that ended the loop.\<close>

definition printf ::
  "(u32 \<Rightarrow> u8 list) \<Rightarrow> u8 list \<Rightarrow> u32 list \<Rightarrow> 'a console_scheme \<Rightarrow> (int \<times> 'a console_scheme) option" where
  "printf str format args s =
     do {
       (out, rest) \<leftarrow> printf_loop str format args;
       Some (int (length format) - int (length rest), fold putc out s)
     }"

text \<open>Specification vocabulary: the text on the screen, the cursor, and the invariant.\<close>

definition con_inv :: "'a console_scheme \<Rightarrow> bool" where
  "con_inv s \<longleftrightarrow> 0 \<le> screen_x s \<and> screen_x s < NUM_COLS \<and> 0 \<le> screen_y s \<and> screen_y s < NUM_ROWS"

definition screen_text :: "'a console_scheme \<Rightarrow> int \<Rightarrow> int \<Rightarrow> u8" where
  "screen_text s x y = vid s (cell x y)"

definition screen_pos :: "'a console_scheme \<Rightarrow> int" where
  "screen_pos s = NUM_COLS * screen_y s + screen_x s"

definition vga_cursor :: "'a machine_scheme \<Rightarrow> u16 option" where
  "vga_cursor s =
     (let regs = regs_of VGA_CONTROL_REG VGA_CONTROL_REG2 (ports s)
      in do { hi \<leftarrow> regs 0x0E; lo \<leftarrow> regs 0x0F; Some (push_bit 8 (ucast hi) OR ucast lo) })"

interpretation vga_port: indexed_port VGA_CONTROL_REG VGA_CONTROL_REG2
  by unfold_locales simp


section \<open>The cursor\<close>

lemma u16_bytes: "push_bit 8 (ucast (ucast (drop_bit 8 p AND 0xFF) :: u8)) OR ucast (ucast (p AND 0xFF) :: u8) = (p :: u16)"
proof (rule bit_word_eqI)
  fix n assume n: "n < LENGTH(16)"
  have m: "(0xFF :: int) = mask 8" by (simp add: mask_eq_exp_minus_1)
  have low_byte: "bit (0xFF :: int) n \<longleftrightarrow> n < 8" for n
    by (subst m, subst bit_mask_iff) auto
  show "bit (push_bit 8 (ucast (ucast (drop_bit 8 p AND 0xFF) :: u8)) OR ucast (ucast (p AND 0xFF) :: u8) :: u16) n = bit p n"
  proof (cases "n < 8")
    case True
    then show ?thesis using n by (simp add: bit_simps low_byte)
  next
    case False
    with n have "n - 8 < 8" "n - 8 < 16" by auto
    with False n show ?thesis by (simp add: bit_simps low_byte)
  qed
qed

lemma update_cursor_vga [simp]:
  "vga_cursor (update_cursor x y s) = Some (word_of_int (y * NUM_COLS + x))"
  by (simp add: vga_cursor_def update_cursor_def Let_def vga_port.reg_write2 u16_bytes)

lemma update_cursor_more [simp]: "machine.more (update_cursor x y s) = machine.more s"
  by (simp add: update_cursor_def Let_def)

lemma update_cursor_fields [simp]:
  fixes s :: "'a console_scheme"
  shows "vid (update_cursor x y s) = vid s"
    and "screen_x (update_cursor x y s) = screen_x s"
    and "screen_y (update_cursor x y s) = screen_y s"
  by (simp_all add: update_cursor_def outb_def Let_def)

lemma con_inv_update_cursor [simp]: "con_inv (update_cursor x y s) \<longleftrightarrow> con_inv s"
  by (simp add: con_inv_def)


section \<open>Loops over the frame buffer\<close>

lemma cell_eq_iff:
  assumes "0 \<le> x" "x < NUM_COLS" "0 \<le> x'" "x' < NUM_COLS"
  shows "cell x y = cell x' y' \<longleftrightarrow> x = x' \<and> y = y'"
proof
  assume "cell x y = cell x' y'"
  then have eq: "NUM_COLS * y + x = NUM_COLS * y' + x'" by (simp add: cell_def)
  then have "(NUM_COLS * y + x) div NUM_COLS = (NUM_COLS * y' + x') div NUM_COLS" by simp
  then have "y = y'" using assms by simp
  with eq show "x = x' \<and> y = y'" by simp
qed simp

lemma clear_vid_eq [loop_simps]:
  "clear_vid v a = (if 0 \<le> a \<and> a < 4000 then if even a then 0x20 else ATTRIB else v a)"
proof -
  have "fold (\<lambda>i v. v(2 * int i := 0x20, 2 * int i + 1 := ATTRIB)) [0..<n] v a =
    (if 0 \<le> a \<and> a < 2 * int n then if even a then 0x20 else ATTRIB else v a)" for n
  proof (induction n)
    case 0
    then show ?case by auto
  next
    case (Suc n)
    then show ?case
      by (cases "a = 2 * int n"; cases "a = 2 * int n + 1") auto
  qed
  then show ?thesis by (simp add: clear_vid_def)
qed

lemma product_rows:
  "map (\<lambda>(r, c). w * r + c) (List.product [a..<b] [0..<w]) = [w * a..<w * b]"
proof (induction b)
  case 0
  then show ?case by simp
next
  case (Suc b)
  show ?case
  proof (cases "a \<le> b")
    case True
    have "List.product [a..<Suc b] [0..<w] = List.product [a..<b] [0..<w] @ map (Pair b) [0..<w]"
      using True by (simp add: product_concat_map)
    moreover have "[w * a..<w * Suc b] = [w * a..<w * b] @ [w * b..<w * b + w]"
      using True upt_add_eq_append [of "w * a" "w * b" w] by (simp add: add.commute)
    moreover have "[w * b..<w * b + w] = map ((+) (w * b)) [0..<w]"
      by (simp add: list_eq_iff_nth_eq)
    ultimately show ?thesis by (simp add: Suc.IH o_def)
  next
    case False
    then have "w * Suc b \<le> w * a" by (simp only: mult_le_mono2 not_less_eq_eq [symmetric] not_le)
    with False show ?thesis by simp
  qed
qed

lemma length_scroll_save: "length (scroll_save v) = 1920"
  by (simp add: scroll_save_def)

lemma nth_product_rows:
  assumes "i < w * (b - a)" "0 < w"
  shows "List.product [a..<b] [0..<w] ! i = (a + i div w, i mod w)"
proof -
  have "i div w < b - a" using assms by (simp add: less_mult_imp_div_less mult.commute)
  with assms show ?thesis
    by (subst product_nth) (auto simp: mult.commute)
qed

lemma scroll_save_nth: "i < 1920 \<Longrightarrow> scroll_save v ! i = v (2 * (80 + int i))"
proof -
  assume i: "i < 1920"
  then have "List.product [1..<25] [0..<80] ! i = (1 + i div 80, i mod 80)"
    by (intro nth_product_rows) simp_all
  moreover have "cell (int (i mod 80)) (int (1 + i div 80)) = 2 * (80 + int i)"
    by (simp add: cell_def zdiv_int zmod_int) 
  ultimately show ?thesis
    using i by (simp add: scroll_save_def del: upt_rec_numeral)
qed


text \<open>A loop over every second byte from offset 0.\<close>

lemma fold_even_array:
  "fold (\<lambda>i g. g(2 * int i := f i)) [0..<n] g a =
   (if 0 \<le> a \<and> a < 2 * int n \<and> even a then f (nat (a div 2)) else g a)"
proof (cases "0 \<le> a \<and> a < 2 * int n \<and> even a")
  case True
  then have a: "a = 2 * int (nat (a div 2))" by simp
  have "fold (\<lambda>i g. g(2 * int i := f i)) [0..<n] g (2 * int (nat (a div 2))) = f (nat (a div 2))"
    using True by (intro fold_upd_hit) (auto simp: inj_on_def)
  with True show ?thesis unfolding a [symmetric] by simp
next
  case False
  then have "a \<notin> (\<lambda>i. 2 * int i) ` set [0..<n]" by auto
  then have "fold (\<lambda>i g. g(2 * int i := f i)) [0..<n] g a = g a" by (rule fold_upd_other)
  with False show ?thesis by (simp only: if_False)
qed

lemma scroll_store_eq:
  "scroll_store buf v = fold (\<lambda>i g. g(2 * int i := buf ! i)) [0..<1920] v"
proof -
  let ?L = "List.product [0..<24] [0..<80]"
  have len: "length ?L = 1920" by simp
  have "enumerate 0 ?L = map (\<lambda>i. (i, ?L ! i)) [0..<1920]"
    unfolding enumerate_eq_zip len [symmetric] by (rule nth_equalityI) auto
  then have "scroll_store buf v =
      fold (\<lambda>i v. case ?L ! i of (row, col) \<Rightarrow> v(cell (int col) (int row) := buf ! i)) [0..<1920] v"
    by (simp only: scroll_store_def fold_map o_def split_conv) (simp only: split_beta)
  also have "\<dots> = fold (\<lambda>i g. g(2 * int i := buf ! i)) [0..<1920] v"
  proof (intro fold_cong refl ext)
    fix i :: nat and g :: "int \<Rightarrow> u8" and a
    assume "i \<in> set [0..<1920]"
    then have "?L ! i = (0 + i div 80, i mod 80)" by (intro nth_product_rows) simp_all
    moreover have "cell (int (i mod 80)) (int (i div 80)) = 2 * int i"
      by (simp add: cell_def zdiv_int zmod_int)
    ultimately show "(case ?L ! i of (row, col) \<Rightarrow> g(cell (int col) (int row) := buf ! i)) a =
        (g(2 * int i := buf ! i)) a"
      by (simp del: upt_rec_numeral)
  qed
  finally show ?thesis .
qed

lemma scroll_blank_eq [loop_simps]:
  "scroll_blank v a = (if 3840 \<le> a \<and> a < 4000 \<and> even a then 0 else v a)"
proof -
  have "fold (\<lambda>col v. v(cell (int col) (NUM_ROWS - 1) := 0)) [0..<n] v a =
      (if 3840 \<le> a \<and> a < 3840 + 2 * int n \<and> even a then 0 else v a)" for n
  proof (induction n)
    case 0
    then show ?case by auto
  next
    case (Suc n)
    then show ?case by (cases "a = 3840 + 2 * int n"; cases "a = 3840 + 2 * int n + 1") (auto simp: cell_def)
  qed
  from this [of 80] show ?thesis by (simp add: scroll_blank_def del: upt_rec_numeral)
qed

lemma scroll_vid_eq [loop_simps]:
  "scroll_blank (scroll_store (scroll_save v) v) a =
   (if 0 \<le> a \<and> a < 3840 \<and> even a then v (a + 160)
    else if 3840 \<le> a \<and> a < 4000 \<and> even a then 0 else v a)"
  by (auto simp: loop_simps scroll_store_eq fold_even_array scroll_save_nth nat_less_iff add.commute
      elim!: evenE simp del: upt_rec_numeral)

section \<open>Functional behaviour\<close>

lemma scroll_up_fields [simp]:
  "screen_x (scroll_up s) = 0" "screen_y (scroll_up s) = NUM_ROWS - 1"
  "vid (scroll_up s) = scroll_blank (scroll_store (scroll_save (vid s)) (vid s))"
  by (simp_all add: scroll_up_def Let_def)

lemma con_inv_scroll_up [inv_intros]: "con_inv (scroll_up s)"
  by (simp add: con_inv_def)

lemma putc_newline:
  assumes "con_inv s" and "c = 10 \<or> c = 13"
  shows "screen_x (putc c s) = 0"
    and "screen_y (putc c s) = min (screen_y s + 1) (NUM_ROWS - 1)"
    and "vid (putc c s) = (if screen_y s < NUM_ROWS - 1 then vid s
           else scroll_blank (scroll_store (scroll_save (vid s)) (vid s)))"
  using assms by (auto simp: putc_def Let_def con_inv_def min_def)

lemma putc_char:
  assumes "con_inv s" and "c \<noteq> 10" "c \<noteq> 13"
  shows "screen_x (putc c s) = (screen_x s + 1) mod NUM_COLS"
    and "screen_y (putc c s) = (if screen_x s = NUM_COLS - 1 then (screen_y s + 1) mod NUM_ROWS else screen_y s)"
    and "vid (putc c s) = (vid s)(2 * screen_pos s := c, 2 * screen_pos s + 1 := ATTRIB)"
  using assms
  by (auto simp: putc_def Let_def con_inv_def cell_def screen_pos_def)


lemma con_inv_putc [inv_intros]: "con_inv s \<Longrightarrow> con_inv (putc c s)"
  by (cases "c = 10 \<or> c = 13") (auto simp: con_inv_def putc_newline putc_char)

lemma screen_pos_range: "con_inv s \<Longrightarrow> 0 \<le> screen_pos s \<and> screen_pos s < 2000"
  by (auto simp: con_inv_def screen_pos_def)

lemma putc_pos:
  assumes "con_inv s" and "c \<noteq> 10" "c \<noteq> 13"
  shows "screen_pos (putc c s) = (screen_pos s + 1) mod 2000"
  using assms
  by (cases "screen_y s = NUM_ROWS - 1")
    (auto simp: screen_pos_def putc_char con_inv_def mod_pos_pos_trivial)

lemma putc_cursor: "vga_cursor (putc c s) = Some (word_of_int (screen_pos (putc c s)))"
  by (simp add: putc_def Let_def screen_pos_def mult.commute)

section \<open>The character device\<close>

text \<open>
  What printing loops rely on: every character keeps the device's invariant. Everything that
  prints a byte sequence (\<open>puts\<close>, \<open>printf\<close>, \<open>terminal_write\<close>) then keeps it.
\<close>

locale char_device =
  fixes put :: "u8 \<Rightarrow> 's \<Rightarrow> 's"
    and inv :: "'s \<Rightarrow> bool"
  assumes put_inv: "inv s \<Longrightarrow> inv (put c s)"
begin

lemma print_inv: "inv s \<Longrightarrow> inv (fold put cs s)"
  by (induction cs arbitrary: s) (simp_all add: put_inv)

end

interpretation con: char_device putc con_inv
  by unfold_locales (rule con_inv_putc)

text \<open>
  A device with cells: a printable character lands in the current cell, moves the position
  on by one and changes no other cell before the end of the medium.
\<close>

locale cell_device = char_device put inv
  for put :: "u8 \<Rightarrow> 's \<Rightarrow> 's" and inv :: "'s \<Rightarrow> bool" +
  fixes pos :: "'s \<Rightarrow> int"
    and glyph :: "'s \<Rightarrow> int \<Rightarrow> u8"
    and printable :: "u8 \<Rightarrow> bool"
    and size :: int
  assumes put_pos: "inv s \<Longrightarrow> printable c \<Longrightarrow> pos s + 1 < size \<Longrightarrow> pos (put c s) = pos s + 1"
    and put_glyph: "inv s \<Longrightarrow> printable c \<Longrightarrow>
      glyph (put c s) k = (if k = pos s then c else glyph s k)"
begin

lemma print_text:
  assumes "inv s" and "list_all printable cs" and "pos s + int (length cs) < size"
  shows "pos (fold put cs s) = pos s + int (length cs) \<and>
         (\<forall>k. glyph (fold put cs s) k =
            (if pos s \<le> k \<and> k < pos s + int (length cs) then cs ! nat (k - pos s) else glyph s k))"
  using assms
proof (induction cs arbitrary: s)
  case Nil
  then show ?case by auto
next
  case (Cons c cs)
  let ?s = "put c s"
  have p: "pos ?s = pos s + 1" using Cons.prems by (simp add: put_pos)
  have "pos (fold put cs ?s) = pos ?s + int (length cs) \<and>
      (\<forall>k. glyph (fold put cs ?s) k =
        (if pos ?s \<le> k \<and> k < pos ?s + int (length cs) then cs ! nat (k - pos ?s) else glyph ?s k))"
    using Cons.prems p by (intro Cons.IH) (simp_all add: put_inv)
  moreover have "nat (k - (pos s + 1)) = nat (k - pos s) - Suc 0" for k by linarith
  ultimately show ?case
    using Cons.prems p by (auto simp: put_glyph nth_Cons')
qed

end

interpretation con: cell_device putc con_inv screen_pos "\<lambda>s k. vid s (2 * k)"
    "\<lambda>c. c \<noteq> 10 \<and> c \<noteq> 13" 2000
proof unfold_locales
  fix s :: "'a console_scheme" and c :: u8 and k :: int
  assume inv: "con_inv s" and c: "c \<noteq> 10 \<and> c \<noteq> 13"
  show "vid (putc c s) (2 * k) = (if k = screen_pos s then c else vid s (2 * k))"
    using inv c by (auto simp: putc_char)
  assume "screen_pos s + 1 < 2000"
  then show "screen_pos (putc c s) = screen_pos s + 1"
    using inv c screen_pos_range [OF inv] by (simp add: putc_pos)
qed


section \<open>Number formatting\<close>

lemma fold_fill [loop_simps]:
  "k \<le> n \<Longrightarrow> n \<le> length b \<Longrightarrow>
   fold (\<lambda>i b. b[i := x]) [k..<n] b = take k b @ replicate (n - k) x @ drop n b"
proof (induction n)
  case 0
  then show ?case by simp
next
  case (Suc n)
  show ?case
  proof (cases "k = Suc n")
    case True
    then show ?thesis by simp
  next
    case False
    with Suc have "k \<le> n" and
      IH: "fold (\<lambda>i b. b[i := x]) [k..<n] b = take k b @ replicate (n - k) x @ drop n b"
      by auto
    have d: "drop n b = b ! n # drop (Suc n) b" using Suc.prems by (simp add: Cons_nth_drop_Suc)
    have l: "length (take k b @ replicate (n - k) x) = n" using \<open>k \<le> n\<close> Suc.prems by simp
    have "fold (\<lambda>i b. b[i := x]) [k..<Suc n] b =
        ((take k b @ replicate (n - k) x) @ b ! n # drop (Suc n) b)[n := x]"
      using \<open>k \<le> n\<close> by (simp add: IH d)
    also have "\<dots> = (take k b @ replicate (n - k) x) @ x # drop (Suc n) b"
      using l by (metis list_update_length)
    finally show ?thesis
      using \<open>k \<le> n\<close> by (simp add: Suc_diff_le replicate_append_same [symmetric])
  qed
qed

lemma unat_u32_less: "unat (v :: u32) < 16 ^ 8" "unat (v :: u32) < 10 ^ 10"
  using unsigned_less [of v, where ?'a = nat] by simp_all

lemma length_radix_repr:
  "length (radix_repr 16 (unat (v :: u32))) \<le> 8" "length (radix_repr 10 (unat (v :: u32))) \<le> 10"
  using length_digits_le [OF _ unat_u32_less(1) [of v]] length_digits_le [OF _ unat_u32_less(2) [of v]]
  by (auto simp: radix_repr_def bytes_def)

lemma itoa_repr:
  assumes "itoa v buf r = Some b" "2 \<le> unat r" "unat r \<le> 36"
    and "length (radix_repr (unat r) (unat v)) < length buf"
  shows "strlen b = Some (length (radix_repr (unat r) (unat v)))"
    and "take (length (radix_repr (unat r) (unat v))) b = radix_repr (unat r) (unat v)"
    and "cstr b = radix_repr (unat r) (unat v)"
proof -
  obtain b' where b': "itoa v buf r = Some b'" "cstr b' = radix_repr (unat r) (unat v)"
    "length b' = length buf"
    using assms itoa_eq by metis
  with assms have [simp]: "b' = b" by simp
  have "0 \<in> set b"
    using b' assms(4) cstr_no_nul [of b] by (metis \<open>b' = b\<close> less_irrefl)
  with b' show "strlen b = Some (length (radix_repr (unat r) (unat v)))"
    "cstr b = radix_repr (unat r) (unat v)"
    by (simp_all add: strlen_eq)
  show "take (length (radix_repr (unat r) (unat v))) b = radix_repr (unat r) (unat v)"
    using b'(2) by (metis \<open>b' = b\<close> cstr_def takeWhile_eq_take)
qed

lemma conv_x_eq: "conv_x v = Some (radix_repr 16 (unat v))"
proof -
  obtain b where b: "itoa v (replicate 64 0) 16 = Some b"
    using itoa_eq [of 16 v "replicate 64 0"] length_radix_repr(1) [of v] by auto
  with itoa_repr [OF this] length_radix_repr(1) [of v] show ?thesis
    by (simp add: conv_x_def)
qed

lemma conv_u_eq: "conv_u v = Some (radix_repr 10 (unat v))"
proof -
  obtain b where b: "itoa v (replicate 36 0) 10 = Some b"
    using itoa_eq [of 10 v "replicate 36 0"] length_radix_repr(2) [of v] by auto
  with itoa_repr [OF this] length_radix_repr(2) [of v] show ?thesis
    by (simp add: conv_u_def)
qed


lemma conv_alt_x_eq:
  "conv_alt_x v = Some (replicate (8 - length (radix_repr 16 (unat v))) 0x30 @
     radix_repr 16 (unat v))"
proof -
  let ?r = "radix_repr 16 (unat v)" and ?z = "0x30 :: u8"
  have len: "length ?r \<le> 8" by (rule length_radix_repr)
  obtain b where b: "itoa v (replicate 56 0) 16 = Some b"
    using itoa_eq [of 16 v "replicate 56 0"] len by auto
  note r = itoa_repr [OF b, simplified]
  have sb: "strlen b = Some (length ?r)" and tb: "take (length ?r) b = ?r" and cb: "cstr b = ?r"
    using r len by auto
  have z: "0 \<in> set b" using sb by (auto simp: strlen_eq split: if_splits)
  have c: "cstr (replicate k ?z @ b) = replicate k ?z @ ?r" for k
    using cb by (induction k) (simp_all add: cstr_def)
  have "strlen (replicate (8 - length ?r) ?z @ b) = Some (8 - length ?r + length ?r)"
    using z by (simp add: strlen_eq c)
  then show ?thesis
    using len tb by (simp add: conv_alt_x_def b sb fold_fill Let_def)
qed

text \<open>The negated word \<open>-value\<close> denotes the absolute value, at \<open>INT_MIN\<close> too.\<close>

lemma unat_uminus_neg: "sint (v :: u32) < 0 \<Longrightarrow> unat (- v) = nat (- sint v)"
proof -
  assume neg: "sint v < 0"
  have "- (2 ^ 31) \<le> sint v" using sint_ge [of v] by simp
  then have "(- sint v) mod 2 ^ 32 = - sint v" using neg by (intro mod_pos_pos_trivial) auto
  moreover have "uint (- v) = (- sint v) mod 2 ^ 32"
  proof -
    have "- v = word_of_int (- sint v)" by simp
    then have "uint (- v) = uint (word_of_int (- sint v) :: u32)" by (rule arg_cong)
    then show ?thesis by (subst (asm) uint_word_of_int) simp
  qed
  ultimately show ?thesis by (simp add: nat_eq_iff unat_eq_nat_uint)
qed


lemma conv_d_eq:
  "conv_d v = Some (if sint v < 0 then 0x2D # radix_repr 10 (nat (- sint v))
                    else radix_repr 10 (nat (sint v)))"
proof (cases "sint v < 0")
  case True
  let ?r = "radix_repr 10 (unat (- v))"
  have len: "length ?r \<le> 10" by (rule length_radix_repr)
  obtain b where b: "itoa (- v) (replicate 35 0) 10 = Some b"
    using itoa_eq [of 10 "- v" "replicate 35 0"] len by auto
  note r = itoa_repr [OF b, simplified]
  have sb: "strlen b = Some (length ?r)" and tb: "take (length ?r) b = ?r" and cb: "cstr b = ?r"
    using r len by auto
  have z: "0 \<in> set b" using sb by (auto simp: strlen_eq split: if_splits)
  have "strlen (0x2D # b) = Some (Suc (length ?r))"
    using z cb by (simp add: strlen_eq cstr_def)
  then show ?thesis
    using True tb by (simp add: conv_d_def b unat_uminus_neg)
next
  case False
  moreover have "uint v = sint v mod 2 ^ 32" by (simp add: uint_sint take_bit_eq_mod)
  moreover have "sint v < 2 ^ 31" using sint_lt [of v] by simp
  ultimately have "nat (sint v) = unat v" by (simp add: unat_eq_nat_uint)
  with False show ?thesis by (simp add: conv_d_def conv_u_eq)
qed


lemma read_number_zeros:
  assumes "s \<noteq> []" and "0 < r"
  shows "read_number r (replicate k 0x30 @ s) = read_number r s"
proof -
  have "fold (read_digit r) (replicate k 0x30) (Some 0) = Some 0"
    using assms(2) by (induction k) (simp_all add: read_digit_def digit_of_def)
  then show ?thesis using assms(1) by (simp add: read_number_def)
qed

section \<open>Properties\<close>

text \<open>
  \<open>scroll_up\<close> moves the characters of rows 1 to 24 up by one row, blanks the last
  row's characters, leaves every attribute byte and every byte outside the 80x25 screen alone,
  and puts the cursor at the start of the last row, in the globals and in the VGA registers.
\<close>

lemma scroll_up_moves_rows:
  assumes "0 \<le> x" "x < NUM_COLS" "0 \<le> y" "y < NUM_ROWS" and "a < 0 \<or> 4000 \<le> a"
  shows "screen_text (scroll_up s) x y = (if y < NUM_ROWS - 1 then screen_text s x (y + 1) else 0)
    \<and> vid (scroll_up s) (cell x y + 1) = vid s (cell x y + 1)
    \<and> vid (scroll_up s) a = vid s a
    \<and> screen_x (scroll_up s) = 0 \<and> screen_y (scroll_up s) = NUM_ROWS - 1
    \<and> vga_cursor (scroll_up s) = Some (word_of_int (screen_pos (scroll_up s)))"
proof -
  have "vga_cursor (scroll_up s) = Some (word_of_int (screen_pos (scroll_up s)))"
    by (simp add: scroll_up_def screen_pos_def Let_def)
  moreover have "screen_text (scroll_up s) x y = (if y < NUM_ROWS - 1 then screen_text s x (y + 1) else 0)"
    using assms by (auto simp: screen_text_def scroll_vid_eq cell_def algebra_simps)
  moreover have "vid (scroll_up s) (cell x y + 1) = vid s (cell x y + 1)"
    by (simp add: scroll_vid_eq cell_def)
  moreover have "vid (scroll_up s) a = vid s a"
    using assms(5) by (auto simp: scroll_vid_eq)
  ultimately show ?thesis by simp
qed

text \<open>
  A character other than a line break goes into the cell under the cursor with the
  standard attribute, no other byte of video memory changes, and the cursor moves to the next
  cell in reading order, the last cell being followed by the first one of the screen: at the
  bottom right corner \<open>putc\<close> wraps to the top and never scrolls. The invariant and the
  hardware cursor are kept.
\<close>

lemma putc_char_effect:
  assumes "con_inv s" and "c \<noteq> 10" and "c \<noteq> 13"
  shows "screen_text (putc c s) (screen_x s) (screen_y s) = c
    \<and> vid (putc c s) = (vid s)(2 * screen_pos s := c, 2 * screen_pos s + 1 := ATTRIB)
    \<and> screen_pos (putc c s) = (screen_pos s + 1) mod 2000
    \<and> con_inv (putc c s)
    \<and> vga_cursor (putc c s) = Some (word_of_int (screen_pos (putc c s)))"
proof -
  have "cell (screen_x s) (screen_y s) = 2 * screen_pos s"
    by (simp add: cell_def screen_pos_def)
  then show ?thesis
    using assms by (simp add: putc_char putc_pos putc_cursor con_inv_putc screen_text_def)
qed

text \<open>
  C39: the number conversions of \<open>printf\<close> print numerals: \<open>%u\<close> the unsigned value in decimal, \<open>%x\<close> in hexadecimal, \<open>%d\<close>
  the decimal numeral of the absolute two's-complement value after a minus sign for a negative one (\<open>INT_MIN\<close> included), all
  without superfluous zeros, and \<open>%#x\<close> exactly eight hexadecimal digits that read as the value; each consumes one argument.
\<close>

theorem printf_numbers:
  "(\<exists>ds. printf_loop str (bytes ''%u'' @ buf) (v # args) = emit ds (printf_loop str buf args)
        \<and> is_numeral 10 (unat v) ds)
   \<and> (\<exists>ds. printf_loop str (bytes ''%x'' @ buf) (v # args) = emit ds (printf_loop str buf args)
        \<and> is_numeral 16 (unat v) ds)
   \<and> (\<exists>ds. printf_loop str (bytes ''%#x'' @ buf) (v # args) = emit ds (printf_loop str buf args)
        \<and> length ds = 8 \<and> read_number 16 ds = Some (unat v))
   \<and> (\<exists>ds. printf_loop str (bytes ''%d'' @ buf) (v # args) =
            emit (if sint v < 0 then bytes ''-'' @ ds else ds) (printf_loop str buf args)
        \<and> is_numeral 10 (nat \<bar>sint v\<bar>) ds)"
proof (intro conjI)
  have n: "is_numeral 10 k (radix_repr 10 k)" "is_numeral 16 k (radix_repr 16 k)" for k by (rule is_numeral_repr; simp)+
  show "\<exists>ds. printf_loop str (bytes ''%u'' @ buf) (v # args) = emit ds (printf_loop str buf args)
        \<and> is_numeral 10 (unat v) ds"
    by (rule exI [of _ "radix_repr 10 (unat v)"]) (simp add: bytes_def conv_u_eq n)
  show "\<exists>ds. printf_loop str (bytes ''%x'' @ buf) (v # args) = emit ds (printf_loop str buf args)
        \<and> is_numeral 16 (unat v) ds"
    by (rule exI [of _ "radix_repr 16 (unat v)"]) (simp add: bytes_def conv_x_eq n)
  have "read_number 16 (radix_repr 16 (unat v)) = Some (unat v)" using n(2) by (simp add: is_numeral_def)
  then have "read_number 16 (replicate j 0x30 @ radix_repr 16 (unat v)) = Some (unat v)" for j
    by (subst read_number_zeros) (auto simp: read_number_def)
  then show "\<exists>ds. printf_loop str (bytes ''%#x'' @ buf) (v # args) = emit ds (printf_loop str buf args)
        \<and> length ds = 8 \<and> read_number 16 ds = Some (unat v)"
    using length_radix_repr(1) [of v]
    by (intro exI [of _ "replicate (8 - length (radix_repr 16 (unat v))) 0x30 @ radix_repr 16 (unat v)"])
      (simp add: bytes_def conv_alt_x_eq)
  show "\<exists>ds. printf_loop str (bytes ''%d'' @ buf) (v # args) =
            emit (if sint v < 0 then bytes ''-'' @ ds else ds) (printf_loop str buf args)
        \<and> is_numeral 10 (nat \<bar>sint v\<bar>) ds"
    by (rule exI [of _ "radix_repr 10 (nat \<bar>sint v\<bar>)"]) (simp add: bytes_def conv_d_eq n)
qed

end
