(* ===== verification/Keyboard.thy ===== *)
theory Keyboard
  imports Console
begin

text \<open>
  The keyboard's modifier state and scan-code translation
  (\<^verbatim>\<open>src/student-distrib/keyboard.c\<close>, \<^verbatim>\<open>keyboard.h\<close>): the four
  translation tables, \<open>set_keyboard_flags\<close>, \<open>scan_code_to_char\<close> and
  \<open>keyboard_init\<close>. The tables interleave ASCII codes (even indices) and scan codes (odd
  indices), as the arrays of the source do. The interrupt handler itself edits the terminal's
  line buffer and is in the theories of the terminal and of the kernel.
\<close>

record keyboard = console +
  enter_pressed :: int
  caps_lock_on :: int
  shift_on :: int
  ctrl_on :: int
  alt_on :: int

abbreviation KEYBOARD_IRQ :: u32 where "KEYBOARD_IRQ \<equiv> 1"
abbreviation PS2_DATA_PORT :: u16 where "PS2_DATA_PORT \<equiv> 0x60"
abbreviation SCAN_CAPS :: u32 where "SCAN_CAPS \<equiv> 0x3A"
abbreviation SCAN_LSHIFT :: u32 where "SCAN_LSHIFT \<equiv> 0x2A"
abbreviation SCAN_LSHIFT_RELEASE :: u32 where "SCAN_LSHIFT_RELEASE \<equiv> 0xAA"
abbreviation SCAN_RSHIFT :: u32 where "SCAN_RSHIFT \<equiv> 0x36"
abbreviation SCAN_RSHIFT_RELEASE :: u32 where "SCAN_RSHIFT_RELEASE \<equiv> 0xB6"
abbreviation SCAN_CTRL :: u32 where "SCAN_CTRL \<equiv> 0x1D"
abbreviation SCAN_CTRL_RELEASE :: u32 where "SCAN_CTRL_RELEASE \<equiv> 0x9D"
abbreviation SCAN_BACKSPACE :: u32 where "SCAN_BACKSPACE \<equiv> 0x0E"
abbreviation SCAN_ENTER :: u32 where "SCAN_ENTER \<equiv> 0x1C"
abbreviation SCAN_TAB :: u32 where "SCAN_TAB \<equiv> 0x0F"
abbreviation SCAN_ESC :: u32 where "SCAN_ESC \<equiv> 0x01"
abbreviation SCAN_ALT :: u32 where "SCAN_ALT \<equiv> 0x38"
abbreviation SCAN_ALT_RELEASE :: u32 where "SCAN_ALT_RELEASE \<equiv> 0xB8"
abbreviation SCAN_L :: u32 where "SCAN_L \<equiv> 0x26"
abbreviation SCAN_FONE :: u32 where "SCAN_FONE \<equiv> 0x3B"
abbreviation SCAN_FTWO :: u32 where "SCAN_FTWO \<equiv> 0x3C"
abbreviation SCAN_FTHREE :: u32 where "SCAN_FTHREE \<equiv> 0x3D"
abbreviation DUMMY :: u32 where "DUMMY \<equiv> 0x3A"

definition scan_code_set :: "u32 list" where
  "scan_code_set =
    [48, 0x0B, 49, 0x02, 50, 0x03, 51, 0x04, 52, 0x05, 53, 0x06,
     54, 0x07, 55, 0x08, 56, 0x09, 57, 0x0A, 97, 0x1E, 98, 0x30,
     99, 0x2E, 100, 0x20, 101, 0x12, 102, 0x21, 103, 0x22, 104, 0x23,
     105, 0x17, 106, 0x24, 107, 0x25, 108, 0x26, 109, 0x32, 110, 0x31,
     111, 0x18, 112, 0x19, 113, 0x10, 114, 0x13, 115, 0x1F, 116, 0x14,
     117, 0x16, 118, 0x2F, 119, 0x11, 120, 0x2D, 121, 0x15, 122, 0x2C,
     96, 0x29, 45, 0x0C, 61, 0x0D, 91, 0x1A, 93, 0x1B, 92, 0x2B,
     59, 0x27, 39, 0x28, 44, 0x33, 46, 0x34, 47, 0x35, 32, 0x39]"

definition scan_code_set_caps :: "u32 list" where
  "scan_code_set_caps =
    [48, 0x0B, 49, 0x02, 50, 0x03, 51, 0x04, 52, 0x05, 53, 0x06,
     54, 0x07, 55, 0x08, 56, 0x09, 57, 0x0A, 65, 0x1E, 66, 0x30,
     67, 0x2E, 68, 0x20, 69, 0x12, 70, 0x21, 71, 0x22, 72, 0x23,
     73, 0x17, 74, 0x24, 75, 0x25, 76, 0x26, 77, 0x32, 78, 0x31,
     79, 0x18, 80, 0x19, 81, 0x10, 82, 0x13, 83, 0x1F, 84, 0x14,
     85, 0x16, 86, 0x2F, 87, 0x11, 88, 0x2D, 89, 0x15, 90, 0x2C,
     96, 0x29, 45, 0x0C, 61, 0x0D, 91, 0x1A, 93, 0x1B, 92, 0x2B,
     59, 0x27, 39, 0x28, 44, 0x33, 46, 0x34, 47, 0x35, 32, 0x39]"

definition scan_code_set_shift :: "u32 list" where
  "scan_code_set_shift =
    [41, 0x0B, 33, 0x02, 64, 0x03, 35, 0x04, 36, 0x05, 37, 0x06,
     94, 0x07, 38, 0x08, 42, 0x09, 40, 0x0A, 65, 0x1E, 66, 0x30,
     67, 0x2E, 68, 0x20, 69, 0x12, 70, 0x21, 71, 0x22, 72, 0x23,
     73, 0x17, 74, 0x24, 75, 0x25, 76, 0x26, 77, 0x32, 78, 0x31,
     79, 0x18, 80, 0x19, 81, 0x10, 82, 0x13, 83, 0x1F, 84, 0x14,
     85, 0x16, 86, 0x2F, 87, 0x11, 88, 0x2D, 89, 0x15, 90, 0x2C,
     126, 0x29, 95, 0x0C, 43, 0x0D, 123, 0x1A, 125, 0x1B, 124, 0x2B,
     58, 0x27, 34, 0x28, 60, 0x33, 62, 0x34, 63, 0x35, 32, 0x39]"

definition scan_code_set_shift_caps :: "u32 list" where
  "scan_code_set_shift_caps =
    [41, 0x0B, 33, 0x02, 64, 0x03, 35, 0x04, 36, 0x05, 37, 0x06,
     94, 0x07, 38, 0x08, 42, 0x09, 40, 0x0A, 97, 0x1E, 98, 0x30,
     99, 0x2E, 100, 0x20, 101, 0x12, 102, 0x21, 103, 0x22, 104, 0x23,
     105, 0x17, 106, 0x24, 107, 0x25, 108, 0x26, 109, 0x32, 110, 0x31,
     111, 0x18, 112, 0x19, 113, 0x10, 114, 0x13, 115, 0x1F, 116, 0x14,
     117, 0x16, 118, 0x2F, 119, 0x11, 120, 0x2D, 121, 0x15, 122, 0x2C,
     126, 0x29, 95, 0x0C, 43, 0x0D, 123, 0x1A, 125, 0x1B, 124, 0x2B,
     58, 0x27, 34, 0x28, 60, 0x33, 62, 0x34, 63, 0x35, 32, 0x39]"

definition keyboard_init :: "'a keyboard_scheme \<Rightarrow> 'a keyboard_scheme" where
  "keyboard_init s =
     (let s = enable_irq KEYBOARD_IRQ s;
          s = s\<lparr>enter_pressed := 0\<rparr>;
          s = s\<lparr>screen_x := 0, screen_y := 0\<rparr>
      in update_cursor 0 0 s)"

definition set_keyboard_flags :: "u32 \<Rightarrow> 'a keyboard_scheme \<Rightarrow> 'a keyboard_scheme" where
  "set_keyboard_flags scan s =
     (if scan = SCAN_CTRL then s\<lparr>ctrl_on := 1\<rparr>
      else if scan = SCAN_CTRL_RELEASE then s\<lparr>ctrl_on := 0\<rparr>
      else if scan = SCAN_LSHIFT then s\<lparr>shift_on := 1\<rparr>
      else if scan = SCAN_LSHIFT_RELEASE then s\<lparr>shift_on := 0\<rparr>
      else if scan = SCAN_RSHIFT then s\<lparr>shift_on := 1\<rparr>
      else if scan = SCAN_RSHIFT_RELEASE then s\<lparr>shift_on := 0\<rparr>
      else if scan = SCAN_CAPS then s\<lparr>caps_lock_on := 1 - caps_lock_on s\<rparr>
      else if scan = SCAN_ALT then s\<lparr>alt_on := 1\<rparr>
      else if scan = SCAN_ALT_RELEASE then s\<lparr>alt_on := 0\<rparr>
      else s)"

text \<open>
  The translation loop runs over all odd indices and never leaves early; \<open>c\<close> is only
  assigned on a match, so \<^const>\<open>None\<close> is the uninitialised \<open>c\<close> the source returns.
\<close>

definition scan_code_to_char :: "u32 \<Rightarrow> 'a keyboard_scheme \<Rightarrow> u8 option" where
  "scan_code_to_char scan s =
     fold (\<lambda>i c.
         if scan_code_set ! i = scan then
           Some (ucast (
             if shift_on s = 1 \<and> caps_lock_on s = 1 then scan_code_set_shift_caps ! (i - 1)
             else if shift_on s = 0 \<and> caps_lock_on s = 1 then scan_code_set_caps ! (i - 1)
             else if shift_on s = 1 \<and> caps_lock_on s = 0 then scan_code_set_shift ! (i - 1)
             else scan_code_set ! (i - 1)))
         else c)
       (map (\<lambda>k. 2 * k + 1) [0..<48]) None"

text \<open>
  Specification: the US layout by its physical rows. A key has an unshifted and a shifted
  character; caps lock acts on the letters only.
\<close>

definition key_row :: "u32 \<Rightarrow> string \<Rightarrow> string \<Rightarrow> (u32 \<times> char \<times> char) list" where
  "key_row first lo up = map (\<lambda>k. (first + of_nat k, lo ! k, up ! k)) [0..<length lo]"

definition us_layout :: "(u32 \<times> char \<times> char) list" where
  "us_layout =
     key_row 0x02 ''1234567890-='' ''!@#$%^&*()_+'' @
     key_row 0x10 ''qwertyuiop[]'' ''QWERTYUIOP{}'' @
     key_row 0x1E ''asdfghjkl;'' ''ASDFGHJKL:'' @
     key_row 0x28 [CHR 0x27, CHR 0x60] [CHR 0x22, CHR 0x7E] @
     key_row 0x2B [CHR 0x5C] ''|'' @
     key_row 0x2C ''zxcvbnm,./'' ''ZXCVBNM<>?'' @
     key_row 0x39 '' '' '' ''"

definition is_letter :: "char \<Rightarrow> bool" where
  "is_letter c = (of_char c \<ge> (97 :: nat) \<and> of_char c \<le> (122 :: nat))"

definition key_char :: "bool \<Rightarrow> bool \<Rightarrow> char \<times> char \<Rightarrow> u8" where
  "key_char shift caps = (\<lambda>(lo, up).
     of_char (if (if is_letter lo then shift \<noteq> caps else shift) then up else lo))"

text \<open>The modifier flags are booleans stored in \<^verbatim>\<open>int\<close>s.\<close>

definition flags_inv :: "'a keyboard_scheme \<Rightarrow> bool" where
  "flags_inv s \<longleftrightarrow> caps_lock_on s \<in> {0, 1} \<and> shift_on s \<in> {0, 1} \<and> ctrl_on s \<in> {0, 1} \<and> alt_on s \<in> {0, 1}"

section \<open>Lemmas\<close>

lemma flags_inv_set_keyboard_flags [inv_intros]: "flags_inv s \<Longrightarrow> flags_inv (set_keyboard_flags scan s)"
  by (auto simp: flags_inv_def set_keyboard_flags_def)

lemma set_keyboard_flags_frame [frame_simps]:
  fixes s :: "'a keyboard_scheme"
  shows "vid (set_keyboard_flags scan s) = vid s"
    "screen_x (set_keyboard_flags scan s) = screen_x s"
    "screen_y (set_keyboard_flags scan s) = screen_y s"
    "enter_pressed (set_keyboard_flags scan s) = enter_pressed s"
    "keyboard.more (set_keyboard_flags scan s) = keyboard.more s"
    "int_flag (set_keyboard_flags scan s) = int_flag s"
    "ports (set_keyboard_flags scan s) = ports s"
  by (simp_all add: set_keyboard_flags_def)

text \<open>
  The translation as an association list: the loop keeps the last match, so it is the lookup
  in the reversed list of table entries; the tables list the keys of the layout in another order.
\<close>

lemma fold_last_match:
  "fold (\<lambda>i c. if f i = x then Some (g i) else c) xs c =
   (case map_of (rev (map (\<lambda>i. (f i, g i)) xs)) x of None \<Rightarrow> c | Some v \<Rightarrow> Some v)"
  by (induction xs arbitrary: c) (auto simp: map_add_def split: option.splits)

definition table_entries :: "u32 list \<Rightarrow> (u32 \<times> u8) list" where
  "table_entries tab =
     rev (map (\<lambda>i. (scan_code_set ! i, ucast (tab ! (i - 1)))) (map (\<lambda>k. 2 * k + 1) [0..<48]))"

definition layout_entries :: "bool \<Rightarrow> bool \<Rightarrow> (u32 \<times> u8) list" where
  "layout_entries shift caps = map (\<lambda>(k, v). (k, key_char shift caps v)) us_layout"

lemma distinct_scan_codes: "distinct (map (\<lambda>k. scan_code_set ! (2 * k + 1)) [0..<48])"
  by code_simp

lemma distinct_layout: "distinct (map fst us_layout)"
  by code_simp

lemma sorted_table_plain: "sort_key (\<lambda>e. unat (fst e)) (table_entries scan_code_set) = layout_entries False False"
  by code_simp

lemma sorted_table_caps: "sort_key (\<lambda>e. unat (fst e)) (table_entries scan_code_set_caps) = layout_entries False True"
  by code_simp

lemma sorted_table_shift: "sort_key (\<lambda>e. unat (fst e)) (table_entries scan_code_set_shift) = layout_entries True False"
  by code_simp

lemma sorted_table_shift_caps: "sort_key (\<lambda>e. unat (fst e)) (table_entries scan_code_set_shift_caps) = layout_entries True True"
  by code_simp

lemma table_entries_layout:
  "set (table_entries scan_code_set) = set (layout_entries False False)"
  "set (table_entries scan_code_set_caps) = set (layout_entries False True)"
  "set (table_entries scan_code_set_shift) = set (layout_entries True False)"
  "set (table_entries scan_code_set_shift_caps) = set (layout_entries True True)"
  by (simp_all flip: sorted_table_plain sorted_table_caps sorted_table_shift sorted_table_shift_caps)

lemma map_of_table:
  assumes "set (table_entries tab) = set (layout_entries shift caps)"
  shows "map_of (table_entries tab) k = map_option (key_char shift caps) (map_of us_layout k)"
proof -
  have "map fst (table_entries tab) = rev (map (\<lambda>k. scan_code_set ! (2 * k + 1)) [0..<48])"
    by (simp add: table_entries_def rev_map o_def del: upt_rec_numeral)
  then have "distinct (map fst (table_entries tab))"
    using distinct_scan_codes by (simp del: upt_rec_numeral)
  moreover have "map fst (layout_entries shift caps) = map fst us_layout"
    by (simp add: layout_entries_def split_beta o_def)
  then have "distinct (map fst (layout_entries shift caps))"
    using distinct_layout by simp
  ultimately have "map_of (table_entries tab) = map_of (layout_entries shift caps)"
    using assms map_of_inject_set by blast
  then show ?thesis by (simp add: layout_entries_def map_of_map)
qed

lemma scan_code_to_char_table:
  "scan_code_to_char scan s = map_of (table_entries (
     if shift_on s = 1 \<and> caps_lock_on s = 1 then scan_code_set_shift_caps
     else if shift_on s = 0 \<and> caps_lock_on s = 1 then scan_code_set_caps
     else if shift_on s = 1 \<and> caps_lock_on s = 0 then scan_code_set_shift
     else scan_code_set)) scan"
proof -
  have lookup: "(case r of None \<Rightarrow> None | Some v \<Rightarrow> Some v) = r" for r :: "u8 option"
    by (cases r) simp_all
  show ?thesis
    unfolding scan_code_to_char_def fold_last_match lookup table_entries_def
    by (simp only: if_distrib [where f = ucast] if_distrib [where f = "\<lambda>t. t ! _"] cong: if_cong)
qed

section \<open>Properties\<close>

text \<open>
  C37: \<open>scan_code_to_char\<close> types the US keyboard layout: shift selects the upper character
  of a key, caps lock inverts shift on the letters only, and a scan code outside the layout leaves
  the result uninitialised.
\<close>

theorem scan_code_to_char_us_layout:
  assumes "flags_inv s"
  shows "scan_code_to_char scan s =
    map_option (key_char (shift_on s = 1) (caps_lock_on s = 1)) (map_of us_layout scan)"
  using assms
  by (auto simp: scan_code_to_char_table flags_inv_def map_of_table table_entries_layout)

theorem scan_code_to_char_us_layout_witness:
  "\<exists>s :: keyboard. shift_on s = 1 \<and> caps_lock_on s = 1
     \<and> scan_code_to_char 0x1E s = Some 97 \<and> scan_code_to_char 0x02 s = Some 33
     \<and> scan_code_to_char 0x37 s = None"
proof -
  define s :: keyboard where "s = \<lparr>ports = [], master_mask = 0, slave_mask = 0, int_flag = 0,
    tick_counter = 0, vid = (\<lambda>_. 0), screen_x = 0, screen_y = 0, enter_pressed = 0,
    caps_lock_on = 1, shift_on = 1, ctrl_on = 0, alt_on = 0\<rparr>"
  have f: "flags_inv s" by (simp add: s_def flags_inv_def)
  have "map_of us_layout 0x1E = Some (CHR ''a'', CHR ''A'')"
    "map_of us_layout 0x02 = Some (CHR ''1'', CHR ''!'')" "map_of us_layout 0x37 = None"
    by code_simp+
  then have "scan_code_to_char 0x1E s = Some 97 \<and> scan_code_to_char 0x02 s = Some 33
     \<and> scan_code_to_char 0x37 s = None"
    unfolding scan_code_to_char_us_layout [OF f] by (simp add: s_def key_char_def is_letter_def)
  then show ?thesis by (intro exI [of _ s]) (simp add: s_def)
qed

text \<open>
  The modifier keys: shift, control and alt are on exactly between press and release,
  caps lock toggles on each press, every other scan code leaves all four flags, and the flags stay
  booleans.
\<close>

lemma set_keyboard_flags_effect:
  "(shift_on (set_keyboard_flags scan s) = 1) =
     (if scan \<in> {0x2A, 0x36} then True else if scan \<in> {0xAA, 0xB6} then False else shift_on s = 1)
   \<and> (ctrl_on (set_keyboard_flags scan s) = 1) =
     (if scan = 0x1D then True else if scan = 0x9D then False else ctrl_on s = 1)
   \<and> (alt_on (set_keyboard_flags scan s) = 1) =
     (if scan = 0x38 then True else if scan = 0xB8 then False else alt_on s = 1)
   \<and> caps_lock_on (set_keyboard_flags scan s) =
     (if scan = 0x3A then 1 - caps_lock_on s else caps_lock_on s)
   \<and> (flags_inv s \<longrightarrow> flags_inv (set_keyboard_flags scan s))
   \<and> set_keyboard_flags 0x3A (set_keyboard_flags 0x3A s) = s"
  by (auto simp: set_keyboard_flags_def flags_inv_def)

end
