(* ===== verification/Terminal.thy ===== *)
theory Terminal
  imports Keyboard
begin

text \<open>
  The terminal driver: the line buffer, the three virtual terminals, \<open>terminal_read\<close> and
  \<open>terminal_write\<close> (\<^verbatim>\<open>src/student-distrib/terminal.c\<close>), and the parts of
  \<^verbatim>\<open>keyboard.c\<close> that edit the line and switch terminals: \<open>terminal_switch\<close>,
  \<open>terminalone\<close>, \<open>terminaltwo\<close>, \<open>terminalthree\<close> and the key handling of
  \<open>keyboard_interrupt\<close> from the test for control-L on (\<open>key_edit\<close>).

  The refinement \<open>key_edit\<close> against a line editor on a list of characters and the round
  trip of switching terminals are proved here.
\<close>

abbreviation KEYBOARD_BUFFER_SIZE :: nat where "KEYBOARD_BUFFER_SIZE \<equiv> 128"
abbreviation VIDEO_BUFFER_SIZE :: nat where "VIDEO_BUFFER_SIZE \<equiv> 4096"

record terminal = keyboard +
  keyboard_buffer :: "u8 list"
  keyboard_buffer1 :: "u8 list"
  keyboard_buffer2 :: "u8 list"
  keyboard_buffer3 :: "u8 list"
  video_buffer1 :: "u8 list"
  video_buffer2 :: "u8 list"
  video_buffer3 :: "u8 list"
  end_buf_idx :: int
  end_buf_idx1 :: int
  end_buf_idx2 :: int
  end_buf_idx3 :: int
  screen_x1 :: int
  screen_y1 :: int
  screen_x2 :: int
  screen_y2 :: int
  screen_x3 :: int
  screen_y3 :: int
  current_terminal :: int
  terminal_used :: "int list"

section \<open>Operations\<close>

text \<open>The copying loops of \<open>terminal_switch\<close> and of the three switching functions.\<close>

definition copy_loop :: "nat \<Rightarrow> u8 list \<Rightarrow> u8 list \<Rightarrow> u8 list" where
  "copy_loop n src dest = fold (\<lambda>i d. d[i := src ! i]) [0..<n] dest"

definition save_video :: "(int \<Rightarrow> u8) \<Rightarrow> u8 list \<Rightarrow> u8 list" where
  "save_video v buf = fold (\<lambda>i b. b[i := v (int i)]) [0..<VIDEO_BUFFER_SIZE] buf"

definition load_video :: "u8 list \<Rightarrow> (int \<Rightarrow> u8) \<Rightarrow> (int \<Rightarrow> u8)" where
  "load_video buf v = fold (\<lambda>i v. v(int i := buf ! i)) [0..<VIDEO_BUFFER_SIZE] v"

definition terminal_switch :: "'a terminal_scheme \<Rightarrow> 'a terminal_scheme" where
  "terminal_switch s =
     (if current_terminal s = 1 then
        s\<lparr>screen_x1 := screen_x s, screen_y1 := screen_y s,
          keyboard_buffer1 := copy_loop KEYBOARD_BUFFER_SIZE (keyboard_buffer s) (keyboard_buffer1 s),
          video_buffer1 := save_video (vid s) (video_buffer1 s),
          end_buf_idx1 := end_buf_idx s\<rparr>
      else if current_terminal s = 2 then
        s\<lparr>screen_x2 := screen_x s, screen_y2 := screen_y s,
          keyboard_buffer2 := copy_loop KEYBOARD_BUFFER_SIZE (keyboard_buffer s) (keyboard_buffer2 s),
          video_buffer2 := save_video (vid s) (video_buffer2 s),
          end_buf_idx2 := end_buf_idx s\<rparr>
      else if current_terminal s = 3 then
        s\<lparr>screen_x3 := screen_x s, screen_y3 := screen_y s,
          keyboard_buffer3 := copy_loop KEYBOARD_BUFFER_SIZE (keyboard_buffer s) (keyboard_buffer3 s),
          video_buffer3 := save_video (vid s) (video_buffer3 s),
          end_buf_idx3 := end_buf_idx s\<rparr>
      else s)"

definition terminalone :: "'a terminal_scheme \<Rightarrow> 'a terminal_scheme" where
  "terminalone s =
     (let s = terminal_switch s;
          s = s\<lparr>current_terminal := 1\<rparr>;
          s = s\<lparr>vid := load_video (video_buffer1 s) (vid s)\<rparr>;
          s = s\<lparr>screen_x := screen_x1 s, screen_y := screen_y1 s\<rparr>;
          s = s\<lparr>keyboard_buffer := copy_loop KEYBOARD_BUFFER_SIZE (keyboard_buffer1 s) (keyboard_buffer s)\<rparr>;
          s = s\<lparr>end_buf_idx := end_buf_idx1 s\<rparr>
      in update_cursor (screen_x s) (screen_y s) s)"

definition terminaltwo :: "'a terminal_scheme \<Rightarrow> 'a terminal_scheme" where
  "terminaltwo s =
     (let s = terminal_switch s;
          s = s\<lparr>current_terminal := 2\<rparr>;
          s = s\<lparr>vid := load_video (video_buffer2 s) (vid s)\<rparr>;
          s = s\<lparr>screen_x := screen_x2 s, screen_y := screen_y2 s\<rparr>;
          s = s\<lparr>keyboard_buffer := copy_loop KEYBOARD_BUFFER_SIZE (keyboard_buffer2 s) (keyboard_buffer s)\<rparr>;
          s = s\<lparr>end_buf_idx := end_buf_idx2 s\<rparr>
      in update_cursor (screen_x s) (screen_y s) s)"

definition terminalthree :: "'a terminal_scheme \<Rightarrow> 'a terminal_scheme" where
  "terminalthree s =
     (let s = terminal_switch s;
          s = s\<lparr>current_terminal := 3\<rparr>;
          s = s\<lparr>vid := load_video (video_buffer3 s) (vid s)\<rparr>;
          s = s\<lparr>screen_x := screen_x3 s, screen_y := screen_y3 s\<rparr>;
          s = s\<lparr>keyboard_buffer := copy_loop KEYBOARD_BUFFER_SIZE (keyboard_buffer3 s) (keyboard_buffer s)\<rparr>;
          s = s\<lparr>end_buf_idx := end_buf_idx3 s\<rparr>
      in update_cursor (screen_x s) (screen_y s) s)"

text \<open>
  \<open>terminal_read\<close> spins until Enter was pressed, copies the line up to the first NUL or
  \<open>nbytes\<close> characters, and clears the line buffer. \<open>buf\<close> is the caller's buffer;
  \<^const>\<open>None\<close> from the copying loop is an access outside one of the two buffers, and
  \<^const>\<open>None\<close> from the busy wait that Enter never came or a handler did not come back.
\<close>

function read_line_from :: "u8 list \<Rightarrow> u8 list \<Rightarrow> nat \<Rightarrow> nat \<Rightarrow> (nat \<times> u8 list) option" where
  "read_line_from kb buf nbytes count =
     (if count < nbytes then
        do {
          c \<leftarrow> rd kb count;
          if c = 0 then Some (count, buf)
          else do { buf' \<leftarrow> wr buf count c; read_line_from kb buf' nbytes (Suc count) }
        }
      else Some (count, buf))"
  by pat_completeness auto
termination
  by (relation "measure (\<lambda>(kb, buf, nbytes, count). nbytes - count)") auto

definition clear_keyboard_buffer :: "u8 list \<Rightarrow> u8 list" where
  "clear_keyboard_buffer kb = fold (\<lambda>i b. b[i := 0]) [0..<KEYBOARD_BUFFER_SIZE] kb"

definition terminal_read ::
  "('e \<Rightarrow> 'a terminal_scheme \<Rightarrow> 'a terminal_scheme option) \<Rightarrow> 'e list \<Rightarrow> u8 list \<Rightarrow> int
   \<Rightarrow> 'a terminal_scheme \<Rightarrow> (int \<times> u8 list \<times> 'a terminal_scheme \<times> 'e list) option" where
  "terminal_read h es buf nbytes s =
     do {
       (s, rest) \<leftarrow> busy_wait (\<lambda>s. enter_pressed s = 0) h es s;
       let s = s\<lparr>enter_pressed := 0\<rparr>;
       (count, buf') \<leftarrow> read_line_from (keyboard_buffer s) buf (nat nbytes) 0;
       Some (int count, buf',
         s\<lparr>keyboard_buffer := clear_keyboard_buffer (keyboard_buffer s), end_buf_idx := 0\<rparr>, rest)
     }"

text \<open>\<open>terminal_write\<close>; it runs with interrupts off. Reading past \<open>buf\<close> is \<^const>\<open>None\<close>.\<close>

definition terminal_write :: "u8 list \<Rightarrow> int \<Rightarrow> 'a console_scheme \<Rightarrow> (int \<times> 'a console_scheme) option" where
  "terminal_write buf nbytes s =
     (if nbytes \<le> int (length buf) then Some (nbytes, fold putc (take (nat nbytes) buf) s) else None)"

definition terminal_open :: "u8 list \<Rightarrow> int" where
  "terminal_open filename = 0"

definition terminal_close :: "int \<Rightarrow> int" where
  "terminal_close fd = 0"

text \<open>The initialisation of the globals by \<open>terminal_init\<close>, before it starts the first shell.\<close>

definition terminal_init_state :: "'a terminal_scheme \<Rightarrow> 'a terminal_scheme" where
  "terminal_init_state s =
     (let zero = fold (\<lambda>i b. b[i := 0 :: u8])
      in s\<lparr>keyboard_buffer := zero [0..<KEYBOARD_BUFFER_SIZE] (keyboard_buffer s),
           keyboard_buffer1 := zero [0..<KEYBOARD_BUFFER_SIZE] (keyboard_buffer1 s),
           keyboard_buffer2 := zero [0..<KEYBOARD_BUFFER_SIZE] (keyboard_buffer2 s),
           keyboard_buffer3 := zero [0..<KEYBOARD_BUFFER_SIZE] (keyboard_buffer3 s),
           video_buffer1 := zero [0..<VIDEO_BUFFER_SIZE] (video_buffer1 s),
           video_buffer2 := zero [0..<VIDEO_BUFFER_SIZE] (video_buffer2 s),
           video_buffer3 := zero [0..<VIDEO_BUFFER_SIZE] (video_buffer3 s),
           screen_x1 := 0, screen_y1 := 0, screen_x2 := 0, screen_y2 := 0,
           screen_x3 := 0, screen_y3 := 0,
           end_buf_idx := 0, end_buf_idx1 := 0, end_buf_idx2 := 0, end_buf_idx3 := 0,
           current_terminal := 1,
           terminal_used := (terminal_used s)[0 := 1, 1 := 0, 2 := 0]\<rparr>)"

text \<open>
  The branches of \<open>keyboard_interrupt\<close> after the terminal-switching keys: control-L, Enter,
  Backspace and printable keys, with the early returns of the source. \<open>junk\<close> is the value
  of the uninitialised \<open>c\<close> that \<open>scan_code_to_char\<close> returns for a code outside its table.
  The store \<open>keyboard_buffer[end_buf_idx]\<close> stays inside the buffer by \<open>line_inv\<close>.
\<close>

definition key_ctrl_l :: "'a console_scheme \<Rightarrow> 'a console_scheme" where
  "key_ctrl_l s =
     (let s = clear s;
          s = s\<lparr>screen_x := 0, screen_y := 0\<rparr>
      in update_cursor (screen_x s) (screen_y s) s)"

definition key_enter :: "'a terminal_scheme \<Rightarrow> 'a terminal_scheme" where
  "key_enter s =
     (let s = s\<lparr>enter_pressed := 1\<rparr>;
          s = s\<lparr>keyboard_buffer := (keyboard_buffer s)[nat (end_buf_idx s) := 10]\<rparr>
      in if screen_y s = NUM_ROWS - 1 then
           let s = scroll_up s in update_cursor (screen_x s) (screen_y s) s
         else
           let s = s\<lparr>screen_y := screen_y s + 1\<rparr>;
               s = s\<lparr>screen_x := 0\<rparr>
           in update_cursor (screen_x s) (screen_y s) s)"

definition key_backspace :: "'a terminal_scheme \<Rightarrow> 'a terminal_scheme" where
  "key_backspace s =
     (if end_buf_idx s > 0 then
        let s = s\<lparr>screen_x := screen_x s - 1\<rparr>;
            s = s\<lparr>screen_x := screen_x s smod NUM_COLS\<rparr>;
            s = s\<lparr>screen_y := (screen_y s + screen_x s sdiv NUM_COLS) smod NUM_ROWS\<rparr>;
            s = s\<lparr>vid := (vid s)(cell (screen_x s) (screen_y s) := 0)\<rparr>;
            s = s\<lparr>vid := (vid s)(cell (screen_x s) (screen_y s) + 1 := ATTRIB)\<rparr>;
            s = s\<lparr>end_buf_idx := end_buf_idx s - 1\<rparr>;
            s = s\<lparr>keyboard_buffer := (keyboard_buffer s)[nat (end_buf_idx s) := 0]\<rparr>
        in update_cursor (screen_x s) (screen_y s) s
      else s)"

definition key_char_in :: "u8 \<Rightarrow> 'a terminal_scheme \<Rightarrow> 'a terminal_scheme" where
  "key_char_in tempc s =
     (let s = (if end_buf_idx s < int KEYBOARD_BUFFER_SIZE - 2 then
                 let s = s\<lparr>keyboard_buffer := (keyboard_buffer s)[nat (end_buf_idx s) := tempc]\<rparr>
                 in s\<lparr>end_buf_idx := end_buf_idx s + 1\<rparr>
               else if end_buf_idx s = int KEYBOARD_BUFFER_SIZE - 2 then
                 let s = s\<lparr>keyboard_buffer := (keyboard_buffer s)[nat (end_buf_idx s) := tempc]\<rparr>;
                     s = s\<lparr>end_buf_idx := end_buf_idx s + 1\<rparr>
                 in s\<lparr>keyboard_buffer := (keyboard_buffer s)[nat (end_buf_idx s) := 10]\<rparr>
               else s)
      in if end_buf_idx s > int KEYBOARD_BUFFER_SIZE - 2 then s
         else
           let s = (if screen_x s = NUM_COLS - 1 \<and> screen_y s = NUM_ROWS - 1 then scroll_up s
                    else update_cursor (screen_x s + 1) (screen_y s) s)
           in putc tempc s)"

definition is_char_key :: "u32 \<Rightarrow> bool" where
  "is_char_key temp \<longleftrightarrow>
     temp < DUMMY \<and> temp \<noteq> SCAN_LSHIFT \<and> temp \<noteq> SCAN_RSHIFT \<and> temp \<noteq> SCAN_CTRL \<and>
     temp \<noteq> SCAN_TAB \<and> temp \<noteq> SCAN_ESC \<and> temp \<noteq> SCAN_ALT"

definition key_edit :: "u8 \<Rightarrow> u32 \<Rightarrow> 'a terminal_scheme \<Rightarrow> 'a terminal_scheme" where
  "key_edit junk temp s =
     (if ctrl_on s = 1 \<and> temp = SCAN_L then key_ctrl_l s
      else if temp = SCAN_ENTER then key_enter s
      else if temp = SCAN_BACKSPACE then key_backspace s
      else if is_char_key temp then
        key_char_in (case scan_code_to_char temp s of None \<Rightarrow> junk | Some c \<Rightarrow> c) s
      else s)"

declare read_line_from.simps [simp del]

section \<open>Specification\<close>

text \<open>
  The line being edited; the invariant of the driver (buffer sizes, indices inside the buffers,
  screen coordinates in the range C's truncating remainder keeps them in); and a buffer that is
  clear behind the line, as \<open>terminal_read\<close> leaves it.
\<close>

definition line :: "'a terminal_scheme \<Rightarrow> u8 list" where
  "line s = take (nat (end_buf_idx s)) (keyboard_buffer s)"

definition idx_ok :: "int \<Rightarrow> bool" where
  "idx_ok e \<longleftrightarrow> 0 \<le> e \<and> e < int KEYBOARD_BUFFER_SIZE"

definition xy_ok :: "int \<Rightarrow> int \<Rightarrow> bool" where
  "xy_ok x y \<longleftrightarrow> - NUM_COLS < x \<and> x < NUM_COLS \<and> 0 \<le> y \<and> y < NUM_ROWS"

definition line_inv :: "'a terminal_scheme \<Rightarrow> bool" where
  "line_inv s \<longleftrightarrow> length (keyboard_buffer s) = KEYBOARD_BUFFER_SIZE \<and> idx_ok (end_buf_idx s)
     \<and> xy_ok (screen_x s) (screen_y s)"

definition slots_inv :: "'a terminal_scheme \<Rightarrow> bool" where
  "slots_inv s \<longleftrightarrow>
     length (keyboard_buffer1 s) = KEYBOARD_BUFFER_SIZE \<and> length (keyboard_buffer2 s) = KEYBOARD_BUFFER_SIZE
     \<and> length (keyboard_buffer3 s) = KEYBOARD_BUFFER_SIZE
     \<and> length (video_buffer1 s) = VIDEO_BUFFER_SIZE \<and> length (video_buffer2 s) = VIDEO_BUFFER_SIZE
     \<and> length (video_buffer3 s) = VIDEO_BUFFER_SIZE
     \<and> idx_ok (end_buf_idx1 s) \<and> idx_ok (end_buf_idx2 s) \<and> idx_ok (end_buf_idx3 s)
     \<and> xy_ok (screen_x1 s) (screen_y1 s) \<and> xy_ok (screen_x2 s) (screen_y2 s) \<and> xy_ok (screen_x3 s) (screen_y3 s)
     \<and> current_terminal s \<in> {1, 2, 3} \<and> length (terminal_used s) = 3"

definition term_inv :: "'a terminal_scheme \<Rightarrow> bool" where
  "term_inv s \<longleftrightarrow> line_inv s \<and> slots_inv s"

definition line_clear_behind :: "'a terminal_scheme \<Rightarrow> bool" where
  "line_clear_behind s \<longleftrightarrow> (\<forall>i<127. nat (end_buf_idx s) \<le> i \<longrightarrow> keyboard_buffer s ! i = 0)"

text \<open>The line editor the key handling implements, and what the three terminals show.\<close>

definition edit_char :: "u8 \<Rightarrow> u8 list \<Rightarrow> u8 list" where
  "edit_char c l = (if length l < 127 then l @ [c] else l)"

type_synonym term_view = "u8 list \<times> int \<times> int \<times> u8 list \<times> int"

definition live_view :: "'a terminal_scheme \<Rightarrow> term_view" where
  "live_view s = (map (\<lambda>i. vid s (int i)) [0..<VIDEO_BUFFER_SIZE], screen_x s, screen_y s,
     keyboard_buffer s, end_buf_idx s)"

definition slot_view :: "int \<Rightarrow> 'a terminal_scheme \<Rightarrow> term_view" where
  "slot_view n s =
     (if n = 1 then (video_buffer1 s, screen_x1 s, screen_y1 s, keyboard_buffer1 s, end_buf_idx1 s)
      else if n = 2 then (video_buffer2 s, screen_x2 s, screen_y2 s, keyboard_buffer2 s, end_buf_idx2 s)
      else (video_buffer3 s, screen_x3 s, screen_y3 s, keyboard_buffer3 s, end_buf_idx3 s))"

definition term_view_of :: "int \<Rightarrow> 'a terminal_scheme \<Rightarrow> term_view" where
  "term_view_of n s = (if current_terminal s = n then live_view s else slot_view n s)"

section \<open>Loops\<close>

lemma fold_list_array:
  "n \<le> length d \<Longrightarrow> fold (\<lambda>i d. d[i := f i]) [0..<n] d = map f [0..<n] @ drop n d"
proof (induction n)
  case 0
  then show ?case by simp
next
  case (Suc n)
  then have "fold (\<lambda>i d. d[i := f i]) [0..<Suc n] d = (map f [0..<n] @ drop n d)[n := f n]"
    by simp
  also have "\<dots> = map f [0..<Suc n] @ drop (Suc n) d"
    using Suc.prems by (simp add: list_update_append Cons_nth_drop_Suc [symmetric])
  finally show ?case .
qed

lemma copy_loop_eq [loop_simps]: "length src = n \<Longrightarrow> length dest = n \<Longrightarrow> copy_loop n src dest = src"
  by (simp add: copy_loop_def fold_list_array) (metis map_nth)

lemma save_video_eq [loop_simps]:
  "length buf = VIDEO_BUFFER_SIZE \<Longrightarrow> save_video v buf = map (\<lambda>i. v (int i)) [0..<VIDEO_BUFFER_SIZE]"
  by (simp add: save_video_def fold_list_array del: upt_rec_numeral)

lemma load_video_eq:
  "load_video buf v a = (if 0 \<le> a \<and> a < int VIDEO_BUFFER_SIZE then buf ! nat a else v a)"
  by (simp add: load_video_def fold_int_array del: upt_rec_numeral)

lemma load_video_view [loop_simps]:
  "length buf = VIDEO_BUFFER_SIZE \<Longrightarrow> map (\<lambda>i. load_video buf v (int i)) [0..<VIDEO_BUFFER_SIZE] = buf"
  by (rule nth_equalityI) (simp_all add: load_video_eq del: upt_rec_numeral)

lemma clear_keyboard_buffer_eq [loop_simps]:
  "length kb = KEYBOARD_BUFFER_SIZE \<Longrightarrow> clear_keyboard_buffer kb = replicate KEYBOARD_BUFFER_SIZE 0"
  by (simp add: clear_keyboard_buffer_def fold_list_array map_replicate_const del: upt_rec_numeral)

lemma read_line_from_eq:
  assumes "0 \<in> set kb \<or> nbytes \<le> length kb" and "min nbytes (length (cstr kb)) \<le> length buf"
    and "count \<le> min nbytes (length (cstr kb))" and "take count buf = take count kb"
  shows "read_line_from kb buf nbytes count =
    (let n = min nbytes (length (cstr kb)) in Some (n, take n (cstr kb) @ drop n buf))"
  using assms(2-)
proof (induction "min nbytes (length (cstr kb)) - count" arbitrary: count buf)
  case 0
  then have c: "count = min nbytes (length (cstr kb))" by simp
  have t: "take count (cstr kb) @ drop count buf = buf"
    using 0(4) c by (metis append_take_drop_id cstr_def min.cobounded2 takeWhile_eq_take take_take min.absorb1 min.absorb2)
  show ?case
  proof (cases "count < nbytes")
    case True
    with c have "rd kb count = Some 0"
      using nth_cstr_bounded [OF assms(1), of count] by auto
    with True c t show ?thesis by (subst read_line_from.simps) (simp add: Let_def)
  next
    case False
    with c t show ?thesis by (subst read_line_from.simps) (simp add: Let_def)
  qed
next
  case (Suc k)
  then have l: "count < length (cstr kb)" and n: "count < nbytes" by auto
  then have kb: "count < length kb" "kb ! count \<noteq> 0"
    using length_cstr_le [of kb] nth_cstr nth_cstr_nonzero by (force, metis)
  have "read_line_from kb buf nbytes count = read_line_from kb (buf[count := kb ! count]) nbytes (Suc count)"
    using l n kb Suc.prems by (subst read_line_from.simps) simp
  also have "\<dots> = (let n = min nbytes (length (cstr kb)) in
      Some (n, take n (cstr kb) @ drop n (buf[count := kb ! count])))"
    using l n kb Suc.prems Suc.hyps(2)
    by (intro Suc.hyps(1)) (auto simp: take_Suc_conv_app_nth)
  finally show ?case using l n by (simp add: Let_def)
qed

lemma read_line_from_overrun:
  assumes "0 \<notin> set kb" and "length kb < nbytes" and "length kb \<le> length buf" and "count \<le> length kb"
  shows "read_line_from kb buf nbytes count = None"
  using assms
proof (induction "length kb - count" arbitrary: count buf)
  case 0
  then show ?case by (subst read_line_from.simps) simp
next
  case (Suc k)
  then have l: "count < length kb" by simp
  then have "kb ! count \<noteq> 0" using Suc.prems(1) nth_mem by fastforce
  moreover have "read_line_from kb (buf[count := kb ! count]) nbytes (Suc count) = None"
    using l Suc by (intro Suc.hyps(1)) auto
  ultimately show ?case using l Suc.prems by (subst read_line_from.simps) simp
qed

section \<open>Coordinates\<close>

lemma smod_small [simp]: "- b < a \<Longrightarrow> a < b \<Longrightarrow> (a :: int) smod b = a"
proof (cases "0 \<le> a")
  case False
  assume "- b < a" "a < b"
  with False have "sgn a = - 1" "\<bar>a\<bar> = - a" "\<bar>b\<bar> = b" by auto
  with \<open>- b < a\<close> False show ?thesis by (simp add: smod_int_alt_def)
qed simp

lemma sdiv_small [simp]: "- b < a \<Longrightarrow> a < b \<Longrightarrow> (a :: int) sdiv b = 0"
proof (cases "0 \<le> a")
  case False
  assume "- b < a" "a < b"
  with False have "sgn a = - 1" "\<bar>a\<bar> = - a" "\<bar>b\<bar> = b" by auto
  with \<open>- b < a\<close> False show ?thesis by (simp add: signed_divide_int_def)
qed simp

lemma xy_ok_putc [inv_intros]:
  "xy_ok (screen_x s) (screen_y s) \<Longrightarrow> xy_ok (screen_x (putc c s)) (screen_y (putc c s))"
  by (cases "screen_x s = NUM_COLS - 1") (auto simp: xy_ok_def putc_def Let_def)

lemma xy_ok_scroll_up [inv_intros]: "xy_ok (screen_x (scroll_up s)) (screen_y (scroll_up s))"
  by (simp add: xy_ok_def)

section \<open>Frames\<close>

text \<open>
  The console operations change the port trace, the frame buffer and the cursor only.
\<close>

definition con_only :: "'a console_scheme \<Rightarrow> 'a console_scheme \<Rightarrow> bool" where
  "con_only s t \<longleftrightarrow> master_mask t = master_mask s \<and> slave_mask t = slave_mask s
     \<and> int_flag t = int_flag s \<and> tick_counter t = tick_counter s \<and> console.more t = console.more s"

lemma con_only_refl: "con_only s s"
  by (simp add: con_only_def)

lemma con_only_step:
  assumes "con_only s t"
  shows "con_only s (t\<lparr>ports := p\<rparr>)" "con_only s (t\<lparr>vid := v\<rparr>)"
    "con_only s (t\<lparr>screen_x := x\<rparr>)" "con_only s (t\<lparr>screen_y := y\<rparr>)"
  using assms by (simp_all add: con_only_def)

lemma con_only_update_cursor: "con_only s t \<Longrightarrow> con_only s (update_cursor x y t)"
  by (simp add: update_cursor_def outb_def Let_def con_only_step)

lemma con_only_scroll_up: "con_only s t \<Longrightarrow> con_only s (scroll_up t)"
  by (simp add: scroll_up_def Let_def con_only_step con_only_update_cursor)

lemmas con_only_intros = con_only_refl con_only_step con_only_update_cursor con_only_scroll_up

lemma con_only_putc: "con_only s (putc c s)"
  by (simp add: putc_def Let_def con_only_intros)

lemma con_only_clear: "con_only s (clear s)"
  by (simp add: clear_def con_only_intros)

lemma con_only_fields:
  fixes s :: "'a terminal_scheme"
  assumes "con_only s t"
  shows "int_flag t = int_flag s"
    and "tick_counter t = tick_counter s"
    and "master_mask t = master_mask s"
    and "slave_mask t = slave_mask s"
    and "enter_pressed t = enter_pressed s"
    and "ctrl_on t = ctrl_on s"
    and "shift_on t = shift_on s"
    and "caps_lock_on t = caps_lock_on s"
    and "alt_on t = alt_on s"
    and "keyboard_buffer t = keyboard_buffer s"
    and "keyboard_buffer1 t = keyboard_buffer1 s"
    and "keyboard_buffer2 t = keyboard_buffer2 s"
    and "keyboard_buffer3 t = keyboard_buffer3 s"
    and "video_buffer1 t = video_buffer1 s"
    and "video_buffer2 t = video_buffer2 s"
    and "video_buffer3 t = video_buffer3 s"
    and "end_buf_idx t = end_buf_idx s"
    and "end_buf_idx1 t = end_buf_idx1 s"
    and "end_buf_idx2 t = end_buf_idx2 s"
    and "end_buf_idx3 t = end_buf_idx3 s"
    and "screen_x1 t = screen_x1 s"
    and "screen_y1 t = screen_y1 s"
    and "screen_x2 t = screen_x2 s"
    and "screen_y2 t = screen_y2 s"
    and "screen_x3 t = screen_x3 s"
    and "screen_y3 t = screen_y3 s"
    and "current_terminal t = current_terminal s"
    and "terminal_used t = terminal_used s"
    and "terminal.more t = terminal.more s"
  using assms by (cases s, cases t, simp add: con_only_def)+

lemmas update_cursor_frame [simp] = con_only_fields [OF con_only_update_cursor [OF con_only_refl]]
lemmas scroll_up_frame [simp] = con_only_fields [OF con_only_scroll_up [OF con_only_refl]]
lemmas putc_frame [simp] = con_only_fields [OF con_only_putc]
lemmas clear_frame [simp] = con_only_fields [OF con_only_clear]

section \<open>Editing a line\<close>

lemma line_inv_key_ctrl_l [inv_intros]: "line_inv s \<Longrightarrow> line_inv (key_ctrl_l s)"
  by (simp add: line_inv_def key_ctrl_l_def Let_def xy_ok_def)

lemma line_inv_key_enter [inv_intros]: "line_inv s \<Longrightarrow> line_inv (key_enter s)"
  by (auto simp: line_inv_def key_enter_def Let_def xy_ok_def)

lemma line_inv_key_backspace [inv_intros]: "line_inv s \<Longrightarrow> line_inv (key_backspace s)"
  by (cases "screen_x s = - 79") (auto simp: line_inv_def key_backspace_def Let_def xy_ok_def idx_ok_def)

lemma line_inv_putc [inv_intros]: "line_inv s \<Longrightarrow> line_inv (putc c s)"
  by (simp add: line_inv_def xy_ok_putc)

lemma line_inv_scroll_up [inv_intros]: "line_inv s \<Longrightarrow> line_inv (scroll_up s)"
  by (simp add: line_inv_def xy_ok_def)

lemma line_inv_update_cursor [simp]: "line_inv (update_cursor x y s) = line_inv s"
  by (simp add: line_inv_def)

lemma line_inv_store [inv_intros]:
  "line_inv s \<Longrightarrow> idx_ok e \<Longrightarrow> line_inv (s\<lparr>keyboard_buffer := (keyboard_buffer s)[i := c], end_buf_idx := e\<rparr>)"
  "line_inv s \<Longrightarrow> line_inv (s\<lparr>keyboard_buffer := (keyboard_buffer s)[i := c]\<rparr>)"
  by (simp_all add: line_inv_def)

text \<open>What a typed character does to the buffer, apart from its echo.\<close>

lemma key_char_in_fields:
  assumes "line_inv s"
  shows "keyboard_buffer (key_char_in c s) =
      (if end_buf_idx s < 126 then (keyboard_buffer s)[nat (end_buf_idx s) := c]
       else if end_buf_idx s = 126 then (keyboard_buffer s)[126 := c, 127 := 10] else keyboard_buffer s)"
    and "end_buf_idx (key_char_in c s) = min 127 (end_buf_idx s + 1)"
  using assms by (auto simp: key_char_in_def Let_def line_inv_def idx_ok_def)

lemma line_inv_key_char_in [inv_intros]:
  assumes "line_inv s"
  shows "line_inv (key_char_in c s)"
proof -
  have "xy_ok (screen_x s) (screen_y s)" using assms by (simp add: line_inv_def)
  then have "xy_ok (screen_x (key_char_in c s)) (screen_y (key_char_in c s))"
    by (auto simp: key_char_in_def Let_def intro!: xy_ok_putc xy_ok_scroll_up)
  moreover have "idx_ok (end_buf_idx (key_char_in c s))"
    "length (keyboard_buffer (key_char_in c s)) = KEYBOARD_BUFFER_SIZE"
    using assms by (auto simp: key_char_in_fields idx_ok_def line_inv_def)
  ultimately show ?thesis by (simp add: line_inv_def)
qed

lemma line_inv_key_edit [inv_intros]: "line_inv s \<Longrightarrow> line_inv (key_edit junk temp s)"
  by (simp add: key_edit_def inv_intros)

text \<open>The refinement: the buffer and its index implement a line editor of at most 127 characters.\<close>

lemma line_key_char_in:
  assumes "line_inv s"
  shows "line (key_char_in c s) = edit_char c (line s)"
proof -
  from assms consider "0 \<le> end_buf_idx s" "end_buf_idx s < 126" | "end_buf_idx s = 126" | "end_buf_idx s = 127"
    unfolding line_inv_def idx_ok_def by linarith
  then show ?thesis
  proof cases
    case 1
    with assms show ?thesis
      by (auto simp: line_def key_char_in_fields edit_char_def line_inv_def nat_add_distrib
          take_Suc_conv_app_nth min_def)
  next
    case 2
    have "take (Suc 126) ((keyboard_buffer s)[126 := c]) = take 126 (keyboard_buffer s) @ [c]"
      using assms by (subst take_Suc_conv_app_nth) (simp_all add: line_inv_def)
    with 2 assms show ?thesis
      by (simp add: line_def key_char_in_fields edit_char_def line_inv_def)
  next
    case 3
    with assms show ?thesis
      by (simp add: line_def key_char_in_fields edit_char_def line_inv_def)
  qed
qed

lemma line_key_backspace:
  assumes "line_inv s"
  shows "line (key_backspace s) = butlast (line s)"
  using assms
  by (auto simp: line_def key_backspace_def Let_def line_inv_def idx_ok_def butlast_take nat_diff_distrib)

lemma line_key_enter: "line (key_enter s) = line s"
  by (simp add: line_def key_enter_def Let_def)

lemma line_key_ctrl_l: "line (key_ctrl_l s) = line s"
  by (simp add: line_def key_ctrl_l_def Let_def)


section \<open>Reading the line\<close>

lemma length_line: "line_inv s \<Longrightarrow> int (length (line s)) = end_buf_idx s"
  by (auto simp: line_def line_inv_def idx_ok_def)

lemma line_clear_behind_key_char_in:
  assumes "line_inv s" "line_clear_behind s"
  shows "line_clear_behind (key_char_in c s)"
  using assms
  by (auto simp: line_clear_behind_def key_char_in_fields line_inv_def idx_ok_def nth_list_update)

lemma line_clear_behind_key_backspace:
  assumes "line_inv s" "line_clear_behind s"
  shows "line_clear_behind (key_backspace s)"
  using assms
  by (auto simp: line_clear_behind_def key_backspace_def Let_def line_inv_def idx_ok_def nth_list_update
      nat_le_iff)

lemma line_clear_behind_key_ctrl_l:
  "line_clear_behind s \<Longrightarrow> line_clear_behind (key_ctrl_l s)"
  by (simp add: line_clear_behind_def key_ctrl_l_def Let_def)

lemma cstr_key_enter:
  assumes "line_inv s" "line_clear_behind s" "0 \<notin> set (line s)" "length (line s) \<le> 125"
  shows "cstr (keyboard_buffer (key_enter s)) = line s @ [10]"
proof -
  define n where "n = nat (end_buf_idx s)"
  let ?kb = "keyboard_buffer s"
  have len: "length ?kb = 128" and l: "line s = take n ?kb" and n: "n \<le> 125"
    using assms(1,4) length_line [OF assms(1)] by (auto simp: line_inv_def line_def n_def)
  have z: "?kb ! Suc n = 0"
    using assms(2) n by (simp add: line_clear_behind_def n_def)
  have "keyboard_buffer (key_enter s) = ?kb[n := 10]"
    by (simp add: key_enter_def Let_def n_def)
  also have "\<dots> = take n ?kb @ 10 # drop (Suc n) ?kb"
    using len n by (simp add: upd_conv_take_nth_drop)
  also have "drop (Suc n) ?kb = 0 # drop (Suc (Suc n)) ?kb"
    using len n z by (simp add: Cons_nth_drop_Suc [symmetric])
  finally have "keyboard_buffer (key_enter s) = (line s @ [10]) @ 0 # drop (Suc (Suc n)) ?kb"
    by (simp add: l)
  moreover have "0 \<notin> set (line s @ [10])" using assms(3) by simp
  ultimately show ?thesis by (metis cstr_append_nul)
qed

text \<open>The line is read back with its line feed, and the driver is ready for the next one.\<close>

lemma terminal_read_ready:
  assumes "enter_pressed s \<noteq> 0"
    and "0 \<in> set (keyboard_buffer s) \<or> nat nbytes \<le> length (keyboard_buffer s)"
    and "min (nat nbytes) (length (cstr (keyboard_buffer s))) \<le> length buf"
  shows "terminal_read h es buf nbytes s =
    (let n = min (nat nbytes) (length (cstr (keyboard_buffer s))) in
     Some (int n, take n (cstr (keyboard_buffer s)) @ drop n buf,
       s\<lparr>enter_pressed := 0, keyboard_buffer := clear_keyboard_buffer (keyboard_buffer s),
         end_buf_idx := 0\<rparr>, es))"
  using assms by (simp add: terminal_read_def busy_wait_done read_line_from_eq Let_def)

lemma term_ready_after_read:
  assumes "line_inv s"
  defines "t \<equiv> s\<lparr>enter_pressed := 0, keyboard_buffer := clear_keyboard_buffer (keyboard_buffer s), end_buf_idx := 0\<rparr>"
  shows "line_inv t" "line t = []" "line_clear_behind t"
  using assms(1) by (simp_all add: t_def line_inv_def idx_ok_def line_def line_clear_behind_def loop_simps)


section \<open>Switching terminals\<close>

lemmas slot_simps = terminal_switch_def slots_inv_def line_inv_def term_inv_def
  live_view_def slot_view_def term_view_of_def

lemma terminal_switch_saves:
  assumes "term_inv s"
  shows "slot_view (current_terminal s) (terminal_switch s) = live_view s"
    and "m \<noteq> current_terminal s \<Longrightarrow> m \<in> {1, 2, 3} \<Longrightarrow> slot_view m (terminal_switch s) = slot_view m s"
  using assms by (auto simp: slot_simps loop_simps simp del: upt_rec_numeral)

lemma slots_inv_terminal_switch: "term_inv s \<Longrightarrow> slots_inv (terminal_switch s)"
  by (auto simp: slot_simps loop_simps simp del: upt_rec_numeral)


text \<open>
  The three switching functions differ in their slot only; the interface they share: the
  displayed terminal becomes \<open>n\<close>, and what each of the three terminals holds, on the
  screen or in its slot, is unchanged.
\<close>

locale terminal_slot =
  fixes switch_to :: "'a terminal_scheme \<Rightarrow> 'a terminal_scheme" and n :: int
  assumes switch_current: "term_inv s \<Longrightarrow> current_terminal (switch_to s) = n"
    and switch_inv: "term_inv s \<Longrightarrow> term_inv (switch_to s)"
    and switch_view: "term_inv s \<Longrightarrow> m \<in> {1, 2, 3} \<Longrightarrow> term_view_of m (switch_to s) = term_view_of m s"
begin

lemma switch_shows: "term_inv s \<Longrightarrow> n \<in> {1, 2, 3} \<Longrightarrow> live_view (switch_to s) = term_view_of n s"
  using switch_view [of s n] switch_current [of s] by (simp add: term_view_of_def)

end

locale terminal_pair = away: terminal_slot f n + home: terminal_slot g m
  for f g :: "'a terminal_scheme \<Rightarrow> 'a terminal_scheme" and n m :: int
begin

lemma round_trip:
  assumes "term_inv s" and "current_terminal s = m" and "m \<in> {1, 2, 3}"
  shows "live_view (g (f s)) = live_view s"
  using assms home.switch_shows [OF away.switch_inv [OF assms(1)]] away.switch_view [of s m]
  by (simp add: term_view_of_def)

end

text \<open>
  A state whose slots are the saved ones and which displays slot \<open>n\<close> satisfies the laws;
  each of the three functions produces such a state.
\<close>

definition shows_slot :: "int \<Rightarrow> 'a terminal_scheme \<Rightarrow> 'a terminal_scheme \<Rightarrow> bool" where
  "shows_slot n s t \<longleftrightarrow> current_terminal t = n \<and> term_inv t
     \<and> live_view t = slot_view n (terminal_switch s)
     \<and> slot_view 1 t = slot_view 1 (terminal_switch s) \<and> slot_view 2 t = slot_view 2 (terminal_switch s)
     \<and> slot_view 3 t = slot_view 3 (terminal_switch s)"

lemma shows_slot_view:
  "term_inv s \<Longrightarrow> shows_slot n s t \<Longrightarrow> m \<in> {1, 2, 3} \<Longrightarrow> term_view_of m t = term_view_of m s"
  using terminal_switch_saves [of s] by (auto simp: shows_slot_def term_view_of_def)

lemma terminal_switch_live [simp]:
  "keyboard_buffer (terminal_switch s) = keyboard_buffer s" "vid (terminal_switch s) = vid s"
  "enter_pressed (terminal_switch s) = enter_pressed s" "alt_on (terminal_switch s) = alt_on s"
  "terminal_used (terminal_switch s) = terminal_used s" "terminal.more (terminal_switch s) = terminal.more s"
  "int_flag (terminal_switch s) = int_flag s"
  by (simp_all add: terminal_switch_def)

lemmas switch_simps = Let_def slots_inv_def term_inv_def line_inv_def live_view_def slot_view_def
  shows_slot_def load_video_view copy_loop_eq

lemma switch_shows_slot:
  assumes "term_inv s"
  shows "shows_slot 1 s (terminalone s)" "shows_slot 2 s (terminaltwo s)" "shows_slot 3 s (terminalthree s)"
  using slots_inv_terminal_switch [OF assms] assms
  by (simp_all add: terminalone_def terminaltwo_def terminalthree_def switch_simps del: upt_rec_numeral)

lemma terminal_slotI:
  fixes f :: "'a terminal_scheme \<Rightarrow> 'a terminal_scheme"
  assumes "\<And>s. term_inv s \<Longrightarrow> shows_slot n s (f s)"
  shows "terminal_slot f n"
proof
  fix s :: "'a terminal_scheme" and m :: int
  assume inv: "term_inv s"
  note slot = assms [OF inv]
  then show "current_terminal (f s) = n" and "term_inv (f s)" by (simp_all add: shows_slot_def)
  assume "m \<in> {1, 2, 3}"
  with inv slot show "term_view_of m (f s) = term_view_of m s" by (rule shows_slot_view)
qed

interpretation t1: terminal_slot terminalone 1
  by (rule terminal_slotI) (rule switch_shows_slot)

interpretation t2: terminal_slot terminaltwo 2
  by (rule terminal_slotI) (rule switch_shows_slot)

interpretation t3: terminal_slot terminalthree 3
  by (rule terminal_slotI) (rule switch_shows_slot)

interpretation t12: terminal_pair terminaltwo terminalone 2 1 ..

interpretation t13: terminal_pair terminalthree terminalone 3 1 ..

section \<open>Properties\<close>

text \<open>The globals as the loader leaves them: zeroed, except the initialised interrupt masks.\<close>

definition bss_terminal :: terminal where
  "bss_terminal = \<lparr>ports = [], master_mask = 0xFF, slave_mask = 0xFF, int_flag = 0, tick_counter = 0,
     vid = (\<lambda>_. 0), screen_x = 0, screen_y = 0, enter_pressed = 0, caps_lock_on = 0, shift_on = 0,
     ctrl_on = 0, alt_on = 0, keyboard_buffer = replicate 128 0, keyboard_buffer1 = replicate 128 0,
     keyboard_buffer2 = replicate 128 0, keyboard_buffer3 = replicate 128 0,
     video_buffer1 = replicate 4096 0, video_buffer2 = replicate 4096 0, video_buffer3 = replicate 4096 0,
     end_buf_idx = 0, end_buf_idx1 = 0, end_buf_idx2 = 0, end_buf_idx3 = 0,
     screen_x1 = 0, screen_y1 = 0, screen_x2 = 0, screen_y2 = 0, screen_x3 = 0, screen_y3 = 0,
     current_terminal = 0, terminal_used = [0, 0, 0]\<rparr>"

lemma fold_zero: "length b = n \<Longrightarrow> fold (\<lambda>i b. b[i := 0 :: u8]) [0..<n] b = replicate n 0"
  by (simp add: fold_list_array map_replicate_const)

lemma bss_terminal_lengths [simp]:
  "length (keyboard_buffer bss_terminal) = 128" "length (keyboard_buffer1 bss_terminal) = 128"
  "length (keyboard_buffer2 bss_terminal) = 128" "length (keyboard_buffer3 bss_terminal) = 128"
  "length (video_buffer1 bss_terminal) = 4096" "length (video_buffer2 bss_terminal) = 4096"
  "length (video_buffer3 bss_terminal) = 4096"
  by (simp_all add: bss_terminal_def)

lemma term_init_bss:
  "terminal_init_state bss_terminal = bss_terminal\<lparr>current_terminal := 1, terminal_used := [1, 0, 0]\<rparr>"
  by (simp add: terminal_init_state_def fold_zero Let_def del: upt_rec_numeral) (simp add: bss_terminal_def)

lemma term_inv_init: "term_inv (terminal_init_state bss_terminal)"
  "line_clear_behind (terminal_init_state bss_terminal)" "line (terminal_init_state bss_terminal) = []"
  unfolding term_init_bss
  by (simp_all add: term_inv_def line_inv_def slots_inv_def idx_ok_def xy_ok_def line_clear_behind_def
      line_def bss_terminal_def)

text \<open>
  C17: the virtual terminals do not interfere. Switching to a terminal displays what that
  terminal held (frame buffer, cursor, input line and its length), leaves what all three terminals
  hold unchanged, keeps the driver's invariant, and switching away and back restores the display
  exactly.
\<close>

theorem terminal_switch_preserves_terminals:
  assumes "term_inv s" and "m \<in> {1, 2, 3}"
  shows "term_view_of m (terminalone s) = term_view_of m s \<and> live_view (terminalone s) = term_view_of 1 s
    \<and> term_view_of m (terminaltwo s) = term_view_of m s \<and> live_view (terminaltwo s) = term_view_of 2 s
    \<and> term_view_of m (terminalthree s) = term_view_of m s \<and> live_view (terminalthree s) = term_view_of 3 s
    \<and> term_inv (terminalone s) \<and> term_inv (terminaltwo s) \<and> term_inv (terminalthree s)
    \<and> (current_terminal s = 1 \<longrightarrow> live_view (terminalone (terminaltwo s)) = live_view s
         \<and> live_view (terminalone (terminalthree s)) = live_view s)"
  using assms t1.switch_view t2.switch_view t3.switch_view t1.switch_shows t2.switch_shows t3.switch_shows
    t1.switch_inv t2.switch_inv t3.switch_inv t12.round_trip t13.round_trip
  by (intro conjI impI) simp_all

theorem terminal_switch_preserves_terminals_witness:
  "let s = key_char_in 97 (terminal_init_state bss_terminal)
   in live_view (terminalone (terminaltwo s)) = live_view s"
proof -
  let ?s = "key_char_in 97 (terminal_init_state bss_terminal)"
  have "slots_inv ?s"
    using term_inv_init(1) by (simp add: term_inv_def slots_inv_def key_char_in_def Let_def)
  then have "term_inv ?s" using term_inv_init(1) by (simp add: term_inv_def line_inv_key_char_in)
  moreover have "current_terminal ?s = 1" by (simp add: key_char_in_def Let_def term_init_bss)
  ultimately show ?thesis
    using terminal_switch_preserves_terminals [of ?s 1] by (simp add: Let_def)
qed

text \<open>
  C11: the key handling of \<open>keyboard_interrupt\<close> refines a line editor: a printable key
  appends its character while the line has fewer than 127 characters, Backspace removes the last
  character, and every other key leaves the line; the index stays inside the buffer and the cursor
  in the range the screen arithmetic can handle.
\<close>

theorem key_edit_refines_line_editor:
  assumes "line_inv s"
  shows "line (key_edit junk temp s) =
      (if ctrl_on s = 1 \<and> temp = SCAN_L \<or> temp = SCAN_ENTER then line s
       else if temp = SCAN_BACKSPACE then butlast (line s)
       else if is_char_key temp then
         edit_char (case scan_code_to_char temp s of None \<Rightarrow> junk | Some c \<Rightarrow> c) (line s)
       else line s)
    \<and> line_inv (key_edit junk temp s) \<and> length (line (key_edit junk temp s)) \<le> 127"
proof -
  have inv: "line_inv (key_edit junk temp s)" using assms by (rule line_inv_key_edit)
  then have "length (line (key_edit junk temp s)) \<le> 127"
    using length_line by (fastforce simp: line_inv_def idx_ok_def)
  with inv assms show ?thesis
    by (simp add: key_edit_def line_key_ctrl_l line_key_enter line_key_backspace line_key_char_in)
qed

theorem key_edit_refines_line_editor_witness:
  "let s = key_char_in 98 (key_char_in 97 (terminal_init_state bss_terminal))
   in line s = [97, 98] \<and> line (key_edit 0 0x0E s) = [97]"
proof -
  let ?s = "key_char_in 98 (key_char_in 97 (terminal_init_state bss_terminal))"
  have inv: "line_inv (terminal_init_state bss_terminal)" using term_inv_init(1) by (simp add: term_inv_def)
  then have l: "line ?s = [97, 98]"
    by (simp add: line_key_char_in line_inv_key_char_in term_inv_init edit_char_def)
  have "line_inv ?s" using inv by (simp add: line_inv_key_char_in)
  from key_edit_refines_line_editor [OF this, of 0 "0x0E"] l show ?thesis by (simp add: Let_def)
qed

text \<open>
  A line typed and ended with Enter is what \<open>terminal_read\<close> returns: the characters
  in order with the line feed, cut at \<open>nbytes\<close>, with their number as the return value. The
  rest of the caller's buffer is untouched and the driver is ready for the next line. It holds for
  lines of up to 125 characters.
\<close>

lemma terminal_read_returns_line:
  assumes "line_inv s" and "line_clear_behind s" and "0 \<notin> set (line s)" and "length (line s) \<le> 125"
    and "min (nat nbytes) (length (line s) + 1) \<le> length buf"
  shows "\<exists>n t. n = min (nat nbytes) (length (line s) + 1)
    \<and> terminal_read h es buf nbytes (key_enter s) = Some (int n, take n (line s @ [10]) @ drop n buf, t, es)
    \<and> line t = [] \<and> line_clear_behind t \<and> line_inv t \<and> enter_pressed t = 0"
proof -
  let ?e = "key_enter s"
  define t where "t = ?e\<lparr>enter_pressed := 0, keyboard_buffer := clear_keyboard_buffer (keyboard_buffer ?e), end_buf_idx := 0\<rparr>"
  have inv: "line_inv ?e" using assms(1) by (rule line_inv_key_enter)
  note c = cstr_key_enter [OF assms(1-4)]
  have ep: "enter_pressed ?e \<noteq> 0" by (simp add: key_enter_def Let_def)
  have z: "0 \<in> set (keyboard_buffer ?e)"
  proof (rule ccontr)
    assume "0 \<notin> set (keyboard_buffer ?e)"
    then have "keyboard_buffer ?e = line s @ [10]" using cstr_no_nul c by metis
    with inv assms(4) show False by (simp add: line_inv_def)
  qed
  have "terminal_read h es buf nbytes ?e =
      (let n = min (nat nbytes) (length (line s) + 1) in
       Some (int n, take n (line s @ [10]) @ drop n buf, t, es))"
    using terminal_read_ready [OF ep, of nbytes buf h es] z c assms(5) by (simp add: t_def)
  moreover have "line t = []" "line_clear_behind t" "line_inv t"
    using term_ready_after_read [OF inv] by (simp_all add: t_def)
  moreover have "enter_pressed t = 0" by (simp add: t_def)
  ultimately show ?thesis by (simp add: Let_def)
qed

text \<open>
  C36: a full line is read out of bounds. With 127 characters typed (all but the last echoed),
  Enter fills the last byte of \<open>keyboard_buffer\<close>; there is no NUL, and a read that asks for
  more than 128 bytes, as the shell's does, runs past the end of the array.
\<close>

theorem terminal_read_full_line_overrun:
  assumes "line_inv s" and "length (line s) = 127" and "0 \<notin> set (line s)"
    and "128 < nbytes" and "128 \<le> length buf"
  shows "terminal_read h es buf nbytes (key_enter s) = None"
proof -
  let ?kb = "keyboard_buffer s"
  have e: "end_buf_idx s = 127" using length_line [OF assms(1)] assms(2) by simp
  have len: "length ?kb = Suc 127" using assms(1) by (simp add: line_inv_def)
  have "?kb[127 := 10] = take 127 ?kb @ [10]"
    using len by (simp add: upd_conv_take_nth_drop)
  then have "keyboard_buffer (key_enter s) = line s @ [10]"
    by (simp add: key_enter_def Let_def line_def e)
  moreover have "enter_pressed (key_enter s) \<noteq> 0" by (simp add: key_enter_def Let_def)
  ultimately show ?thesis
    using assms by (simp add: terminal_read_def busy_wait_done read_line_from_overrun)
qed

theorem terminal_read_full_line_overrun_witness:
  "let s = bss_terminal\<lparr>keyboard_buffer := replicate 127 97 @ [10], end_buf_idx := 127\<rparr>
   in terminal_read (\<lambda>_. Some) ([] :: unit list) (replicate 1024 0) 1023 (key_enter s) = None"
proof -
  let ?s = "bss_terminal\<lparr>keyboard_buffer := replicate 127 97 @ [10], end_buf_idx := 127\<rparr>"
  have "line_inv ?s" by (simp add: line_inv_def idx_ok_def xy_ok_def) (simp add: bss_terminal_def)
  moreover have "line ?s = replicate 127 97" by (simp add: line_def)
  ultimately show ?thesis
    using terminal_read_full_line_overrun [of ?s 1023 "replicate 1024 0" "\<lambda>_. Some" "[]"] by (simp add: Let_def)
qed

text \<open>
  C38: the store of Backspace can leave video memory. With at least one character typed,
  control-L homes the cursor without touching the line, so the next Backspace steps to column
  \<open>-1\<close> and writes the two bytes below the frame buffer.
\<close>

theorem backspace_below_video_memory:
  assumes "ctrl_on s = 1" and "0 < end_buf_idx s"
  shows "\<exists>t. t = key_edit junk SCAN_BACKSPACE (key_edit junk SCAN_L s)
    \<and> screen_x t = - 1 \<and> screen_y t = 0 \<and> vid t (- 2) = 0 \<and> vid t (- 1) = ATTRIB"
  using assms by (simp add: key_edit_def key_ctrl_l_def key_backspace_def Let_def cell_def clear_def)

theorem backspace_below_video_memory_witness:
  "let s = (key_char_in 97 (terminal_init_state bss_terminal))\<lparr>ctrl_on := 1\<rparr>
   in vid (key_edit 0 SCAN_BACKSPACE (key_edit 0 SCAN_L s)) (- 1) = ATTRIB"
proof -
  let ?s = "(key_char_in 97 (terminal_init_state bss_terminal))\<lparr>ctrl_on := 1\<rparr>"
  have "line_inv (terminal_init_state bss_terminal)" using term_inv_init(1) by (simp add: term_inv_def)
  then have "0 < end_buf_idx ?s" by (simp add: key_char_in_fields) (simp add: line_inv_def idx_ok_def)
  then show ?thesis using backspace_below_video_memory [of ?s 0] by (simp add: Let_def)
qed

text \<open>
  \<open>terminal_write\<close> prints the caller's bytes. Printable bytes that fit before the end
  of the screen appear in the cells from the cursor on, no other character changes, the cursor ends
  behind them, and the number of bytes is returned.
\<close>

lemma terminal_write_prints:
  assumes "con_inv s" and "list_all (\<lambda>c. c \<noteq> 10 \<and> c \<noteq> 13) buf"
    and "screen_pos s + int (length buf) < 2000"
  shows "\<exists>t. terminal_write buf (int (length buf)) s = Some (int (length buf), t)
    \<and> con_inv t \<and> screen_pos t = screen_pos s + int (length buf)
    \<and> (\<forall>k. vid t (2 * k) =
          (if screen_pos s \<le> k \<and> k < screen_pos s + int (length buf) then buf ! nat (k - screen_pos s)
           else vid s (2 * k)))"
  using con.print_text [OF assms] con.print_inv [OF assms(1)] by (simp add: terminal_write_def)

end
