(* ===== verification/Paging.thy ===== *)
theory Paging
  imports Terminal
begin

text \<open>
  Paging (\<^verbatim>\<open>src/student-distrib/paging.c\<close>, \<^verbatim>\<open>paging.h\<close>): the page directory,
  the kernel's page table and the table \<open>sys_vidmap\<close> uses, and \<open>page_fill\<close>. The physical
  addresses of the two tables are chosen by the linker, so they are parameters; both are aligned
  to 4096 bytes as their declarations ask for. \<open>translate\<close> is the specification: the x86
  two-level walk with 4 MB pages, for a kernel or a user access.
\<close>

record paging =
  page_dir :: "u32 list"
  page_table :: "u32 list"
  video_table :: "u32 list"

abbreviation enable_entry :: u32 where "enable_entry \<equiv> 3"
abbreviation enable_4megabyte_page :: u32 where "enable_4megabyte_page \<equiv> 0x80"

text \<open>
  \<open>memset\<close> with 0 over the 4096 bytes of a table clears its 1024 entries; the assembly that
  loads the control registers turns paging on and changes no table.
\<close>

definition page_fill :: "u32 \<Rightarrow> paging \<Rightarrow> paging" where
  "page_fill pt p =
     (let p = p\<lparr>page_dir := replicate 1024 0\<rparr>;
          p = p\<lparr>page_table := replicate 1024 0\<rparr>;
          p = p\<lparr>page_table := (page_table p)[184 := 0xB8000 OR enable_entry]\<rparr>;
          p = p\<lparr>page_table := (page_table p)[185 := 0xB9000 OR enable_entry]\<rparr>;
          p = p\<lparr>page_table := (page_table p)[186 := 0xBA000 OR enable_entry]\<rparr>;
          p = p\<lparr>page_table := (page_table p)[187 := 0xBB000 OR enable_entry]\<rparr>;
          p = p\<lparr>page_dir := (page_dir p)[0 := pt OR enable_entry]\<rparr>;
          p = p\<lparr>page_dir := (page_dir p)[1 := 0x400000 OR enable_4megabyte_page]\<rparr>
      in p\<lparr>page_dir := (page_dir p)[1 := page_dir p ! 1 OR enable_entry]\<rparr>)"

text \<open>
  The walk: bit 0 of an entry is present, bit 2 allows user accesses, bit 7 of a directory
  entry makes it a 4 MB page.
\<close>

definition entry_ok :: "bool \<Rightarrow> u32 \<Rightarrow> bool" where
  "entry_ok user e \<longleftrightarrow> bit e 0 \<and> (user \<longrightarrow> bit e 2)"

definition table_at :: "u32 \<Rightarrow> u32 \<Rightarrow> paging \<Rightarrow> u32 \<Rightarrow> u32 list option" where
  "table_at pt vt p a = (if a = pt then Some (page_table p) else if a = vt then Some (video_table p) else None)"

definition translate :: "u32 \<Rightarrow> u32 \<Rightarrow> paging \<Rightarrow> bool \<Rightarrow> u32 \<Rightarrow> u32 option" where
  "translate pt vt p user a =
     (let pde = page_dir p ! unat (a div 0x400000)
      in if \<not> entry_ok user pde then None
         else if bit pde 7 then Some ((pde AND 0xFFC00000) + a mod 0x400000)
         else do {
           tbl \<leftarrow> table_at pt vt p (pde AND 0xFFFFF000);
           let pte = tbl ! unat (a div 4096 mod 1024);
           if entry_ok user pte then Some ((pte AND 0xFFFFF000) + a mod 4096) else None
         })"

text \<open>The directory entry of a program page, as \<open>sys_execute\<close> and \<open>sys_halt\<close> write it.\<close>

definition program_entry :: "int \<Rightarrow> u32" where
  "program_entry process_id = word_of_int (process_id * 0x400000 + 0x800000) OR 0x87"

section \<open>Lemmas\<close>

lemma page_fill_dir: "page_dir (page_fill pt p) = (replicate 1024 0)[0 := pt OR 3, 1 := 0x400083]"
  by (simp add: page_fill_def Let_def)

lemma page_fill_table:
  "page_table (page_fill pt p) = (replicate 1024 0)[184 := 0xB8003, 185 := 0xB9003, 186 := 0xBA003, 187 := 0xBB003]"
  by (simp add: page_fill_def Let_def)

lemma unat_pde_index: "unat ((a :: u32) div 0x400000) < 1024"
  using unsigned_less [of a, where ?'a = nat] by (simp add: unat_div)

lemma unat_pte_index: "unat ((a :: u32) div 4096 mod 1024) < 1024"
  by (simp add: unat_mod)

lemma bits_0: "\<not> entry_ok user 0"
  by (simp add: entry_ok_def)

lemma u32_split: "(a :: u32) = a div n * n + a mod n"
  by (metis div_mult_mod_eq)

text \<open>An aligned table address with flag bits below bit 12.\<close>

lemma aligned_or:
  fixes pt k :: u32
  assumes "pt AND 0xFFF = 0" and "k AND 0xFFFFF000 = 0"
  shows "(pt OR k) AND 0xFFFFF000 = pt" and "n < 12 \<Longrightarrow> bit (pt OR k) n \<longleftrightarrow> bit k n"
proof -
  have m: "(0xFFF :: u32) = mask 12" by (simp add: mask_eq_exp_minus_1)
  have low: "\<not> bit pt n" if "n < 12" for n
  proof -
    have "take_bit 12 pt = 0" using assms(1) unfolding m by (simp add: take_bit_eq_mask)
    then have "\<not> bit (take_bit 12 pt) n" by simp
    with that show ?thesis by (simp add: bit_take_bit_iff)
  qed
  have hi: "(0xFFFFF000 :: u32) = NOT (mask 12)" by (simp add: mask_eq_exp_minus_1)
  have "pt AND NOT (mask 12) = pt"
    using low by (intro bit_word_eqI) (auto simp: bit_simps)
  then show "(pt OR k) AND 0xFFFFF000 = pt"
    using assms(2) unfolding hi by (simp only: bit.conj_disj_distrib2) simp
  show "n < 12 \<Longrightarrow> bit (pt OR k) n \<longleftrightarrow> bit k n" using low by (simp add: bit_or_iff)
qed

lemma aligned_or_3:
  fixes pt :: u32
  assumes "pt AND 0xFFF = 0"
  shows "(pt OR 3) AND 0xFFFFF000 = pt" "bit (pt OR 3) 0" "\<not> bit (pt OR 3) 2" "\<not> bit (pt OR 3) 7"
proof -
  have k: "(3 :: u32) AND 0xFFFFF000 = 0" "bit (3 :: u32) 0" "\<not> bit (3 :: u32) 2" "\<not> bit (3 :: u32) 7" by code_simp+
  then show "(pt OR 3) AND 0xFFFFF000 = pt" "bit (pt OR 3) 0" "\<not> bit (pt OR 3) 2" "\<not> bit (pt OR 3) 7"
    using aligned_or [OF assms k(1)] by simp_all
qed

lemma aligned_or_7:
  fixes pt :: u32
  assumes "pt AND 0xFFF = 0"
  shows "(pt OR 7) AND 0xFFFFF000 = pt" "bit (pt OR 7) 0" "bit (pt OR 7) 2" "\<not> bit (pt OR 7) 7"
proof -
  have k: "(7 :: u32) AND 0xFFFFF000 = 0" "bit (7 :: u32) 0" "bit (7 :: u32) 2" "\<not> bit (7 :: u32) 7" by code_simp+
  then show "(pt OR 7) AND 0xFFFFF000 = pt" "bit (pt OR 7) 0" "bit (pt OR 7) 2" "\<not> bit (pt OR 7) 7"
    using aligned_or [OF assms k(1)] by simp_all
qed

lemma const_entry_bits:
  "entry_ok user 0x400083 \<longleftrightarrow> \<not> user" "bit (0x400083 :: u32) 7"
  "entry_ok user 0xB8003 \<longleftrightarrow> \<not> user" "entry_ok user 0xB9003 \<longleftrightarrow> \<not> user"
  "entry_ok user 0xBA003 \<longleftrightarrow> \<not> user" "entry_ok user 0xBB003 \<longleftrightarrow> \<not> user"
  unfolding entry_ok_def by code_simp+

lemma unat_range:
  fixes a :: u32
  shows "numeral m \<le> a \<longleftrightarrow> unat (numeral m :: u32) \<le> unat a" "a < numeral m \<longleftrightarrow> unat a < unat (numeral m :: u32)"
  by (simp_all add: word_le_nat_alt word_less_nat_alt)

lemma frame_plus_offset:
  fixes a :: u32
  assumes "unat a div unat n = k" and "of_nat k * n = f"
  shows "f + a mod n = a"
proof -
  have "a div n = of_nat (unat (a div n))" by simp
  also have "\<dots> = of_nat k" using assms(1) by (simp only: unat_div)
  finally show ?thesis using u32_split [of a n] assms(2) by simp
qed

lemma translate_page_fill:
  assumes "pt AND 0xFFF = 0"
  shows "translate pt vt (page_fill pt p) False a =
    (if 0xB8000 \<le> a \<and> a < 0xBC000 \<or> 0x400000 \<le> a \<and> a < 0x800000 then Some a else None)"
proof -
  let ?A = "unat a"
  have d: "unat (a div 0x400000) = ?A div 0x400000" and t: "unat (a div 4096 mod 1024) = ?A div 4096 mod 1024"
    by (simp_all add: unat_div unat_mod)
  have dl: "?A div 0x400000 < 1024" using unat_pde_index [of a] by (simp add: d)
  consider "?A div 0x400000 = 0" | "?A div 0x400000 = 1" | "2 \<le> ?A div 0x400000" by linarith
  then show ?thesis
  proof cases
    case 1
    then have small: "?A < 0x400000" by (simp add: div_eq_0_iff)
    then have t': "?A div 4096 mod 1024 = ?A div 4096" by (simp add: mod_less div_less_iff_less_mult)
    have tl: "?A div 4096 < 1024" using small by (simp add: div_less_iff_less_mult)
    have "entry_ok False (pt OR 3)" using aligned_or_3 [OF assms] by (simp add: entry_ok_def)
    then have tr: "translate pt vt (page_fill pt p) False a =
        (let pte = page_table (page_fill pt p) ! (?A div 4096)
         in if entry_ok False pte then Some ((pte AND 0xFFFFF000) + a mod 4096) else None)"
      using 1 aligned_or_3 [OF assms]
      by (simp add: translate_def d t t' page_fill_dir table_at_def Let_def)
    have fr: "of_nat k * 4096 + a mod 4096 = a" if "?A div 4096 = k" for k
      using that by (intro frame_plus_offset [where k = k]) simp_all
    show ?thesis
    proof (cases "184 \<le> ?A div 4096 \<and> ?A div 4096 \<le> 187")
      case True
      then have r: "0xB8000 \<le> a" "a < 0xBC000" by ((simp only: unat_range; simp; linarith)+)
      from True consider "?A div 4096 = 184" | "?A div 4096 = 185" | "?A div 4096 = 186" | "?A div 4096 = 187"
        by linarith
      then have "translate pt vt (page_fill pt p) False a = Some a"
        using fr [of 184] fr [of 185] fr [of 186] fr [of 187]
        by cases (simp_all add: tr page_fill_table const_entry_bits Let_def)
      with r show ?thesis by simp
    next
      case False
      then have "page_table (page_fill pt p) ! (?A div 4096) = 0"
        using tl by (auto simp: page_fill_table nth_list_update)
      moreover have "\<not> (0xB8000 \<le> a \<and> a < 0xBC000)" "\<not> 0x400000 \<le> a"
        using False small by ((simp only: unat_range; simp; linarith)+)
      ultimately show ?thesis by (simp add: tr bits_0 Let_def)
    qed
  next
    case 2
    then have r: "0x400000 \<le> a" "a < 0x800000" by ((simp only: unat_range; simp; linarith)+)
    have "0x400000 + a mod 0x400000 = a" using 2 by (intro frame_plus_offset [where k = 1]) simp_all
    with 2 r show ?thesis
      by (simp add: translate_def d page_fill_dir const_entry_bits Let_def)
  next
    case 3
    then have "page_dir (page_fill pt p) ! (?A div 0x400000) = 0"
      using dl by (simp add: page_fill_dir nth_list_update)
    moreover have "\<not> a < 0xBC000" "\<not> a < 0x800000"
      using 3 by ((simp only: unat_range; simp; linarith)+)
    ultimately show ?thesis by (simp add: translate_def d bits_0 Let_def)
  qed
qed

lemma user_page_fill: "pt AND 0xFFF = 0 \<Longrightarrow> i < 1024 \<Longrightarrow> \<not> entry_ok True (page_dir (page_fill pt p) ! i)"
  using aligned_or_3 [of pt] by (auto simp: page_fill_dir nth_list_update const_entry_bits bits_0 entry_ok_def)

text \<open>The directory entry of a program page: present, user, 4 MB, with the program's frame.\<close>

definition program_frame :: "int \<Rightarrow> u32" where
  "program_frame pid = word_of_int (pid * 0x400000 + 0x800000)"

lemma program_entry_bits:
  assumes "0 \<le> pid" "pid < 6"
  shows "entry_ok user (program_entry pid)" "bit (program_entry pid) 7"
    "program_entry pid AND 0xFFC00000 = program_frame pid"
proof -
  have "pid \<in> {0, 1, 2, 3, 4, 5}" using assms by auto
  then have "entry_ok user (program_entry pid) \<and> bit (program_entry pid) 7 \<and>
      program_entry pid AND 0xFFC00000 = program_frame pid"
    unfolding entry_ok_def program_entry_def program_frame_def
    by (elim insertE emptyE; simp only:) (cases user; code_simp)+
  then show "entry_ok user (program_entry pid)" "bit (program_entry pid) 7"
    "program_entry pid AND 0xFFC00000 = program_frame pid" by simp_all
qed

abbreviation with_program :: "int \<Rightarrow> paging \<Rightarrow> paging" where
  "with_program pid p \<equiv> p\<lparr>page_dir := (page_dir p)[32 := program_entry pid]\<rparr>"

lemma translate_program:
  assumes "pt AND 0xFFF = 0" "0 \<le> pid" "pid < 6"
  shows "translate pt vt (with_program pid (page_fill pt p)) True a =
    (if 0x8000000 \<le> a \<and> a < 0x8400000 then Some (program_frame pid + (a - 0x8000000)) else None)"
proof -
  let ?A = "unat a" and ?q = "with_program pid (page_fill pt p)"
  have d: "unat (a div 0x400000) = ?A div 0x400000" by (simp add: unat_div)
  have dl: "?A div 0x400000 < 1024" using unat_pde_index [of a] by (simp add: d)
  have len: "length (page_dir (page_fill pt p)) = 1024" by (simp add: page_fill_dir)
  show ?thesis
  proof (cases "?A div 0x400000 = 32")
    case True
    then have r: "0x8000000 \<le> a" "a < 0x8400000" by ((simp only: unat_range; simp; linarith)+)
    have "0x8000000 + a mod 0x400000 = a" using True by (intro frame_plus_offset [where k = 32]) simp_all
    then have "a mod 0x400000 = a - 0x8000000" by (metis add_diff_cancel_left')
    with True r len program_entry_bits [OF assms(2,3)] show ?thesis
      by (simp add: translate_def d Let_def)
  next
    case False
    then have "page_dir ?q ! (?A div 0x400000) = page_dir (page_fill pt p) ! (?A div 0x400000)" by simp
    then have "\<not> entry_ok True (page_dir ?q ! (?A div 0x400000))"
      using user_page_fill [OF assms(1) dl] by simp
    moreover have "\<not> (0x8000000 \<le> a \<and> a < 0x8400000)"
      using False by (simp only: unat_range; simp; linarith)
    ultimately show ?thesis by (auto simp: translate_def d Let_def)
  qed
qed


section \<open>Properties\<close>

text \<open>
  After \<open>page_fill\<close> the kernel can reach exactly the four video pages from 0xB8000 on
  and its own 4 MB page, each at its physical address, and every other address faults; a user
  access faults everywhere.
\<close>

lemma page_fill_maps_kernel_only:
  assumes "pt AND 0xFFF = 0"
  shows "translate pt vt (page_fill pt p) False a =
      (if 0xB8000 \<le> a \<and> a < 0xBC000 \<or> 0x400000 \<le> a \<and> a < 0x800000 then Some a else None)
    \<and> translate pt vt (page_fill pt p) True a = None"
proof -
  have "\<not> entry_ok True (page_dir (page_fill pt p) ! unat (a div 0x400000))"
    using assms unat_pde_index by (intro user_page_fill)
  then have "translate pt vt (page_fill pt p) True a = None" by (simp add: translate_def Let_def)
  then show ?thesis using translate_page_fill [OF assms] by simp
qed

text \<open>
  Isolation of programs. With the directory entry that \<open>sys_execute\<close> writes for process
  \<open>pid\<close>, a user access reaches exactly the 4 MB at 128 MB, which lie in the process's own frame
  at \<open>8 MB + pid * 4 MB\<close>; two different processes never reach the same physical address.
\<close>

lemma program_pages_isolated:
  assumes "pt AND 0xFFF = 0" and "0 \<le> i" "i < 6" and "0 \<le> j" "j < 6" and "i \<noteq> j"
  shows "translate pt vt (with_program i (page_fill pt p)) True a =
      (if 0x8000000 \<le> a \<and> a < 0x8400000 then Some (word_of_int (i * 0x400000 + 0x800000) + (a - 0x8000000)) else None)
    \<and> (translate pt vt (with_program i (page_fill pt p)) True a = None
       \<or> translate pt vt (with_program i (page_fill pt p)) True a \<noteq> translate pt vt (with_program j (page_fill pt p)) True b)"
proof -
  note tr = translate_program [OF assms(1)]
  have ne: "program_frame i + (a - 0x8000000) \<noteq> program_frame j + (b - 0x8000000)"
    if "0x8000000 \<le> a" "a < 0x8400000" "0x8000000 \<le> b" "b < 0x8400000"
  proof
    assume eq: "program_frame i + (a - 0x8000000) = program_frame j + (b - 0x8000000)"
    have off: "uint (c - 0x8000000) = uint c - 0x8000000" "0x8000000 \<le> uint c" "uint c < 0x8400000"
      if "0x8000000 \<le> c" "c < 0x8400000" for c :: u32
      using that by (simp_all add: uint_sub_lem [THEN iffD1] word_le_def word_less_def)
    have fr: "uint (program_frame k) = k * 0x400000 + 0x800000" if "0 \<le> k" "k < 6" for k
      unfolding program_frame_def using that by (subst uint_word_of_int) simp
    have "uint (program_frame k + (c - 0x8000000)) = k * 0x400000 + 0x800000 + (uint c - 0x8000000)"
      if "0 \<le> k" "k < 6" "0x8000000 \<le> c" "c < 0x8400000" for k and c :: u32
      using off [OF that(3,4)] fr [OF that(1,2)] that
      by (subst uint_add_lem [THEN iffD1]) simp_all
    from this [OF assms(2,3) \<open>0x8000000 \<le> a\<close> \<open>a < 0x8400000\<close>]
      this [OF assms(4,5) \<open>0x8000000 \<le> b\<close> \<open>b < 0x8400000\<close>] eq
    have "i * 0x400000 + (uint a - 0x8000000) = j * 0x400000 + (uint b - 0x8000000)" by simp
    then show False
      using off(2,3) [OF \<open>0x8000000 \<le> a\<close> \<open>a < 0x8400000\<close>] off(2,3) [OF \<open>0x8000000 \<le> b\<close> \<open>b < 0x8400000\<close>]
        assms(6) by linarith
  qed
  show ?thesis
    using ne by (simp add: tr assms) (simp add: program_frame_def)
qed

end
