(* ===== verification/Filesystem.thy ===== *)
theory Filesystem
  imports Lib_String
begin

text \<open>
  The read-only file system (\<^verbatim>\<open>src/student-distrib/filesystem.c\<close>): \<open>fsystem_init\<close>,
  \<open>read_dentry_by_name\<close>, \<open>read_dentry_by_index\<close> and \<open>read_data\<close>. The operations on open files are
  with the system calls, since they work on the process control block.

  The image is raw memory that the code addresses through struct pointers, so the model computes
  the addresses: a boot block (three counts, then 64-byte directory entries from offset 64 on), one
  4096-byte inode block per inode (a length, then the block numbers), then the data blocks. Struct
  fields are little-endian words. \<open>int32_t\<close> fields compared with each other compare signed,
  compared with a \<open>uint32_t\<close> they compare unsigned, as in C.

  Specification: \<open>file_content\<close> is the file an inode denotes, \<open>wf_file\<close> says when an
  inode is well formed, and \<open>read_data\<close> is proved to be \<open>take\<close> and \<open>drop\<close> of the content.
\<close>

abbreviation BLOCK_SIZE :: u32 where "BLOCK_SIZE \<equiv> 4096"
abbreviation FILENAME_LEN :: nat where "FILENAME_LEN \<equiv> 32"

record dentry =
  filename :: "u8 list"
  filetype :: u32
  inode_num :: u32

record fsys =
  fs_mem :: memory
  boot_block :: u32
  inode_start :: u32
  data_block_first :: u32

section \<open>Field accesses\<close>

definition dir_count :: "fsys \<Rightarrow> u32" where
  "dir_count fs = read_u32 (fs_mem fs) (boot_block fs)"

definition boot_inode_count :: "fsys \<Rightarrow> u32" where
  "boot_inode_count fs = read_u32 (fs_mem fs) (boot_block fs + 4)"

definition data_count :: "fsys \<Rightarrow> u32" where
  "data_count fs = read_u32 (fs_mem fs) (boot_block fs + 8)"

definition direntry_addr :: "fsys \<Rightarrow> u32 \<Rightarrow> u32" where
  "direntry_addr fs i = boot_block fs + 64 + 64 * i"

text \<open>
  A directory entry as the 64-byte object it is; its name field is the first 32 bytes, and
  \<open>strncpy\<close> looks at the byte after a name of 32 characters.
\<close>

definition direntry_obj :: "fsys \<Rightarrow> u32 \<Rightarrow> u8 list" where
  "direntry_obj fs i = obj_at (fs_mem fs) (direntry_addr fs i) 64"

definition inode_length :: "fsys \<Rightarrow> u32 \<Rightarrow> u32" where
  "inode_length fs inode = read_u32 (fs_mem fs) (inode_start fs + BLOCK_SIZE * inode)"

definition data_block_num :: "fsys \<Rightarrow> u32 \<Rightarrow> u32 \<Rightarrow> u32" where
  "data_block_num fs inode k = read_u32 (fs_mem fs) (inode_start fs + BLOCK_SIZE * inode + 4 + 4 * k)"

section \<open>Operations\<close>

definition fsystem_init :: "memory \<Rightarrow> u32 \<Rightarrow> fsys" where
  "fsystem_init m file_start =
     \<lparr>fs_mem = m, boot_block = file_start, inode_start = file_start + BLOCK_SIZE,
      data_block_first = file_start + read_u32 m (file_start + 4) * BLOCK_SIZE + BLOCK_SIZE\<rparr>"

text \<open>The length loop of \<open>read_dentry_by_name\<close>: it stops at a NUL or at 32.\<close>

function dentry_name_len :: "u8 list \<Rightarrow> nat \<Rightarrow> nat" where
  "dentry_name_len s len =
     (if len < 32 \<and> s ! len \<noteq> 0 then
        (if Suc len = 32 then Suc len else dentry_name_len s (Suc len))
      else len)"
  by pat_completeness auto
termination
  by (relation "measure (\<lambda>(s, len). 32 - len)") auto

definition copy_dentry :: "fsys \<Rightarrow> u32 \<Rightarrow> dentry \<Rightarrow> dentry option" where
  "copy_dentry fs i dentry =
     do {
       name \<leftarrow> strncpy (filename dentry) (direntry_obj fs i) FILENAME_LEN;
       Some \<lparr>filename = name,
             filetype = read_u32 (fs_mem fs) (direntry_addr fs i + 32),
             inode_num = read_u32 (fs_mem fs) (direntry_addr fs i + 36)\<rparr>
     }"

text \<open>
  The directory scan. A \<open>NULL\<close> name is \<^const>\<open>None\<close>; the result pairs the return value
  with the entry the out-pointer designates, and \<^const>\<open>None\<close> is a read past the name.
\<close>

function scan_dentries :: "fsys \<Rightarrow> u8 list \<Rightarrow> dentry \<Rightarrow> nat \<Rightarrow> (int \<times> dentry) option" where
  "scan_dentries fs fname dentry i =
     (if i < unat (dir_count fs) then
        let len = dentry_name_len (direntry_obj fs (of_nat i)) 0;
            len = (if len > 32 then 32 else len)
        in do {
          n \<leftarrow> strlen fname;
          if n = len then
            do {
              r \<leftarrow> strncmp fname (direntry_obj fs (of_nat i)) len;
              if r = 0 then do { d \<leftarrow> copy_dentry fs (of_nat i) dentry; Some (0, d) }
              else scan_dentries fs fname dentry (Suc i)
            }
          else scan_dentries fs fname dentry (Suc i)
        }
      else Some (-1, dentry))"
  by pat_completeness auto
termination
  by (relation "measure (\<lambda>(fs, fname, dentry, i). unat (dir_count fs) - i)") auto

definition read_dentry_by_name :: "fsys \<Rightarrow> u8 list option \<Rightarrow> dentry \<Rightarrow> (int \<times> dentry) option" where
  "read_dentry_by_name fs fname dentry =
     (case fname of None \<Rightarrow> Some (-1, dentry) | Some fname \<Rightarrow> scan_dentries fs fname dentry 0)"

definition read_dentry_by_index :: "fsys \<Rightarrow> u32 \<Rightarrow> dentry \<Rightarrow> (int \<times> dentry) option" where
  "read_dentry_by_index fs index dentry =
     (if index \<ge> dir_count fs then Some (-1, dentry)
      else do { d \<leftarrow> copy_dentry fs index dentry; Some (0, d) })"

text \<open>
  The copying loop of \<open>read_data\<close>, with its counter, block index, index in the block and
  source pointer. \<open>buf\<close> is the destination object; \<^const>\<open>None\<close> is a store outside it.
\<close>

function read_data_loop ::
  "fsys \<Rightarrow> u32 \<Rightarrow> u32 \<Rightarrow> u32 \<Rightarrow> nat \<Rightarrow> u32 \<Rightarrow> u32 \<Rightarrow> u32 \<Rightarrow> u8 list \<Rightarrow> (int \<times> u8 list) option" where
  "read_data_loop fs inode offset len i dblock_begin dindex copy_pos_ptr buf =
     (if i < unat len then
        let next = dindex \<ge> BLOCK_SIZE;
            dindex = (if next then 0 else dindex);
            dblock_begin = (if next then dblock_begin + 1 else dblock_begin)
        in if next \<and> sint (data_block_num fs inode dblock_begin) \<ge> sint (data_count fs) then Some (-1, buf)
           else
             let copy_pos_ptr =
                   (if next then data_block_first fs + data_block_num fs inode dblock_begin * BLOCK_SIZE
                    else copy_pos_ptr)
             in if inode_length fs inode \<le> of_nat i + offset then Some (int i, buf)
                else do {
                  buf' \<leftarrow> wr buf i (fs_mem fs copy_pos_ptr);
                  read_data_loop fs inode offset len (Suc i) dblock_begin (dindex + 1) (copy_pos_ptr + 1) buf'
                }
      else Some (int i, buf))"
  by pat_completeness auto
termination
  by (relation "measure (\<lambda>(fs, inode, offset, len, i, b, d, p, buf). unat len - i)") auto

definition read_data :: "fsys \<Rightarrow> u32 \<Rightarrow> u32 \<Rightarrow> u8 list \<Rightarrow> u32 \<Rightarrow> (int \<times> u8 list) option" where
  "read_data fs inode offset buf len =
     (let dblock_begin = offset div BLOCK_SIZE;
          dindex = offset mod BLOCK_SIZE
      in if sint (data_block_num fs inode dblock_begin) \<ge> sint (data_count fs) then Some (-1, buf)
         else if inode \<ge> boot_inode_count fs then Some (-1, buf)
         else read_data_loop fs inode offset len 0 dblock_begin dindex
                (data_block_first fs + data_block_num fs inode dblock_begin * BLOCK_SIZE + dindex) buf)"

declare dentry_name_len.simps [simp del] scan_dentries.simps [simp del] read_data_loop.simps [simp del]

section \<open>Specification\<close>

text \<open>The name, type and inode of directory entry \<open>i\<close>.\<close>

definition dir_name :: "fsys \<Rightarrow> nat \<Rightarrow> u8 list" where
  "dir_name fs i = take FILENAME_LEN (cstr (direntry_obj fs (of_nat i)))"

definition dir_entry :: "fsys \<Rightarrow> nat \<Rightarrow> dentry" where
  "dir_entry fs i =
     \<lparr>filename = dir_name fs i @ replicate (FILENAME_LEN - length (dir_name fs i)) 0,
      filetype = read_u32 (fs_mem fs) (direntry_addr fs (of_nat i) + 32),
      inode_num = read_u32 (fs_mem fs) (direntry_addr fs (of_nat i) + 36)\<rparr>"

text \<open>The bytes of a file: byte \<open>k\<close> is in block \<open>k div 4096\<close> at offset \<open>k mod 4096\<close>.\<close>

definition file_byte :: "fsys \<Rightarrow> u32 \<Rightarrow> nat \<Rightarrow> u8" where
  "file_byte fs inode k =
     fs_mem fs (data_block_first fs + data_block_num fs inode (of_nat (k div 4096)) * BLOCK_SIZE + of_nat (k mod 4096))"

definition file_content :: "fsys \<Rightarrow> u32 \<Rightarrow> u8 list" where
  "file_content fs inode = map (file_byte fs inode) [0..<unat (inode_length fs inode)]"

definition wf_file :: "fsys \<Rightarrow> u32 \<Rightarrow> bool" where
  "wf_file fs inode \<longleftrightarrow> inode < boot_inode_count fs \<and>
     list_all (\<lambda>b. sint (data_block_num fs inode (of_nat b)) < sint (data_count fs))
       [0..<Suc (unat (inode_length fs inode) div 4096)]"

section \<open>Directory entries\<close>

lemma dentry_name_len_eq:
  "32 \<le> length s \<Longrightarrow> len \<le> min 32 (length (cstr s)) \<Longrightarrow> len < 32 \<Longrightarrow>
   dentry_name_len s len = min 32 (length (cstr s))"
proof (induction s len rule: dentry_name_len.induct)
  case (1 s len)
  have l: "len < length s" using "1.prems" by simp
  have nz: "s ! len = 0 \<longleftrightarrow> len = length (cstr s)"
    using nth_cstr_bounded [of s "length s" len] l "1.prems" nth_cstr_nonzero [of len s] by auto
  show ?case
  proof (cases "s ! len = 0")
    case True
    with nz "1.prems" show ?thesis by (subst dentry_name_len.simps) simp
  next
    case False
    then have "len < length (cstr s)" using nz "1.prems" by simp
    with False "1.prems" show ?thesis
      by (subst dentry_name_len.simps) (auto simp: "1.IH")
  qed
qed

lemma length_direntry_obj [simp]: "length (direntry_obj fs i) = 64"
  by (simp add: direntry_obj_def)

lemma dentry_name_len_dir: "dentry_name_len (direntry_obj fs (of_nat i)) 0 = length (dir_name fs i)"
  by (subst dentry_name_len_eq) (simp_all add: dir_name_def min.commute)

lemma copy_dentry_eq:
  "length (filename d) = FILENAME_LEN \<Longrightarrow> copy_dentry fs (of_nat i) d = Some (dir_entry fs i)"
  by (simp add: copy_dentry_def strncpy_eq dir_entry_def dir_name_def min_def)

text \<open>An entry matches a name exactly when its name is the string.\<close>

lemma strncmp_dir_name:
  assumes "0 \<in> set fname" and "length (cstr fname) = length (dir_name fs i)"
  obtains r where "strncmp fname (direntry_obj fs (of_nat i)) (length (dir_name fs i)) = Some r"
    and "r = 0 \<longleftrightarrow> dir_name fs i = cstr fname"
proof -
  let ?o = "direntry_obj fs (of_nat i)" and ?n = "length (dir_name fs i)"
  have n: "?n \<le> 32" by (simp add: dir_name_def)
  then have "0 \<in> set ?o \<or> ?n \<le> length ?o" by simp
  from strncmp_zero_iff [OF _ this] assms(1) obtain r where
    r: "strncmp fname ?o ?n = Some r" "r = 0 \<longleftrightarrow> take ?n (cstr fname) = take ?n (cstr ?o)" by blast
  have "take ?n (cstr ?o) = dir_name fs i" by (simp add: dir_name_def min_def)
  with r assms(2) that show ?thesis by (metis order_refl take_all)
qed

lemma scan_dentries_eq:
  assumes "0 \<in> set fname" and "length (filename d) = FILENAME_LEN"
  shows "scan_dentries fs fname d i =
    (case find (\<lambda>k. dir_name fs k = cstr fname) [i..<unat (dir_count fs)] of
       None \<Rightarrow> Some (-1, d) | Some k \<Rightarrow> Some (0, dir_entry fs k))"
proof (induction "unat (dir_count fs) - i" arbitrary: i)
  case 0
  then show ?case by (subst scan_dentries.simps) simp
next
  case (Suc n)
  then have less: "i < unat (dir_count fs)" by simp
  have IH: "scan_dentries fs fname d (Suc i) =
    (case find (\<lambda>k. dir_name fs k = cstr fname) [Suc i..<unat (dir_count fs)] of
       None \<Rightarrow> Some (-1, d) | Some k \<Rightarrow> Some (0, dir_entry fs k))"
    using Suc.hyps by simp
  have up: "[i..<unat (dir_count fs)] = i # [Suc i..<unat (dir_count fs)]"
    using less by (rule upt_conv_Cons)
  have step: "scan_dentries fs fname d i =
      (if length (cstr fname) = length (dir_name fs i) then
         do {
           r \<leftarrow> strncmp fname (direntry_obj fs (of_nat i)) (length (dir_name fs i));
           if r = 0 then Some (0, dir_entry fs i) else scan_dentries fs fname d (Suc i)
         }
       else scan_dentries fs fname d (Suc i))"
    using less assms
    by (subst scan_dentries.simps)
      (simp add: dentry_name_len_dir strlen_eq copy_dentry_eq Let_def cong: if_cong, simp add: dir_name_def)
  show ?case
  proof (cases "length (cstr fname) = length (dir_name fs i)")
    case True
    from strncmp_dir_name [OF assms(1) True] obtain r where
      r: "strncmp fname (direntry_obj fs (of_nat i)) (length (dir_name fs i)) = Some r"
      "r = 0 \<longleftrightarrow> dir_name fs i = cstr fname" .
    with True show ?thesis by (simp add: step up IH)
  next
    case False
    then have "dir_name fs i \<noteq> cstr fname" by metis
    with False show ?thesis by (simp add: step up IH)
  qed
qed


section \<open>Reading data\<close>

lemma unat_of_nat_u32: "n < 2 ^ 32 \<Longrightarrow> unat (of_nat n :: u32) = n"
  by (simp add: unat_of_nat)

lemma wf_file_block:
  "wf_file fs inode \<Longrightarrow> b \<le> unat (inode_length fs inode) div 4096 \<Longrightarrow>
   sint (data_block_num fs inode (of_nat b)) < sint (data_count fs)"
  by (auto simp: wf_file_def list_all_iff)

lemma length_file_content [simp]: "length (file_content fs inode) = unat (inode_length fs inode)"
  by (simp add: file_content_def)

text \<open>
  One round of the loop: position \<open>pos\<close> of the file is block \<open>b\<close>, index \<open>x\<close>,
  where \<open>x\<close> may be 4096 just before the loop moves to the next block.
\<close>

definition block_ptr :: "fsys \<Rightarrow> u32 \<Rightarrow> nat \<Rightarrow> nat \<Rightarrow> u32" where
  "block_ptr fs inode b x =
     data_block_first fs + data_block_num fs inode (of_nat b) * BLOCK_SIZE + of_nat x"

lemma read_data_loop_step:
  assumes wf: "wf_file fs inode" and i: "i < unat len" and ovf: "unat offset + unat len < 2 ^ 32"
    and pos: "pos = unat offset + i" "pos \<le> unat (inode_length fs inode)"
    and b: "b * 4096 + x = pos" "x \<le> 4096"
  shows "read_data_loop fs inode offset len i (of_nat b) (of_nat x) (block_ptr fs inode b x) buf =
    (if unat (inode_length fs inode) \<le> pos then Some (int i, buf)
     else do {
       buf' \<leftarrow> wr buf i (file_byte fs inode pos);
       read_data_loop fs inode offset len (Suc i) (of_nat (pos div 4096)) (of_nat (Suc (pos mod 4096)))
         (block_ptr fs inode (pos div 4096) (Suc (pos mod 4096))) buf'
     })"
proof -
  have word_pos: "of_nat i + offset = (of_nat pos :: u32)" using pos(1) by (simp add: add.commute)
  have upos: "unat (of_nat pos :: u32) = pos" using pos(1) i ovf by (intro unat_of_nat_u32) simp
  have eof: "inode_length fs inode \<le> of_nat i + offset \<longleftrightarrow> unat (inode_length fs inode) \<le> pos"
    "inode_length fs inode \<le> offset + of_nat i \<longleftrightarrow> unat (inode_length fs inode) \<le> pos"
    using word_pos by (simp_all add: word_le_nat_alt upos add.commute)
  have ok: "sint (data_block_num fs inode (of_nat (pos div 4096))) < sint (data_count fs)"
    using wf pos(2) by (intro wf_file_block) (simp_all add: div_le_mono)
  have ux: "unat (of_nat x :: u32) = x" using b(2) by (intro unat_of_nat_u32) simp
  then have nxt: "(of_nat x :: u32) \<ge> BLOCK_SIZE \<longleftrightarrow> x = 4096"
    using b(2) by (simp add: word_le_nat_alt)
  have fb: "file_byte fs inode pos = fs_mem fs (block_ptr fs inode (pos div 4096) (pos mod 4096))"
    by (simp add: file_byte_def block_ptr_def)
  have step: "read_data_loop fs inode offset len i (of_nat b) (of_nat x) (block_ptr fs inode b x) buf =
     (if unat (inode_length fs inode) \<le> pos then Some (int i, buf)
      else do {
        buf' \<leftarrow> wr buf i (fs_mem fs (block_ptr fs inode (pos div 4096) (pos mod 4096)));
        read_data_loop fs inode offset len (Suc i) (of_nat (pos div 4096)) (of_nat (pos mod 4096) + 1)
          (block_ptr fs inode (pos div 4096) (pos mod 4096) + 1) buf'
      })"
  proof (cases "x = 4096")
    case True
    with b have "pos = Suc b * 4096" by simp
    then have d: "pos div 4096 = Suc b" "pos mod 4096 = 0" by simp_all
    show ?thesis
      using True i ok d(1)
      by (subst read_data_loop.simps) (simp add: nxt eof Let_def block_ptr_def d add.commute)
  next
    case False
    with b have d: "pos div 4096 = b" "pos mod 4096 = x" by auto
    show ?thesis
      using False i by (subst read_data_loop.simps) (simp add: nxt eof Let_def d)
  qed
  have sc: "block_ptr fs inode b (Suc y) = block_ptr fs inode b y + 1" "(of_nat (Suc y) :: u32) = of_nat y + 1" for b y
    by (simp_all add: block_ptr_def)
  show ?thesis by (simp only: step fb sc)
qed

lemma read_data_loop_eq:
  assumes wf: "wf_file fs inode" and off: "unat offset \<le> unat (inode_length fs inode)"
    and ovf: "unat offset + unat len < 2 ^ 32"
    and n: "n = min (unat len) (unat (inode_length fs inode) - unat offset)"
    and "n \<le> length buf" and "i \<le> n" and "b * 4096 + x = unat offset + i" and "x \<le> 4096"
  shows "read_data_loop fs inode offset len i (of_nat b) (of_nat x) (block_ptr fs inode b x) buf =
    Some (int n, take i buf @ take (n - i) (drop (unat offset + i) (file_content fs inode)) @ drop n buf)"
  using assms(5-)
proof (induction "n - i" arbitrary: i b x buf)
  case 0
  then have i: "i = n" by simp
  show ?case
  proof (cases "i < unat len")
    case True
    with 0 i n off show ?thesis
      by (subst read_data_loop_step [OF wf True ovf refl]) auto
  next
    case False
    with i show ?thesis by (subst read_data_loop.simps) simp
  qed
next
  case (Suc k)
  let ?pos = "unat offset + i" and ?F = "file_content fs inode"
  from Suc have less: "i < n" by simp
  with n have i: "i < unat len" and lt: "?pos < unat (inode_length fs inode)" by auto
  let ?c = "file_byte fs inode ?pos"
  have "read_data_loop fs inode offset len i (of_nat b) (of_nat x) (block_ptr fs inode b x) buf =
    read_data_loop fs inode offset len (Suc i) (of_nat (?pos div 4096)) (of_nat (Suc (?pos mod 4096)))
      (block_ptr fs inode (?pos div 4096) (Suc (?pos mod 4096))) (buf[i := ?c])"
    using lt less Suc.prems by (subst read_data_loop_step [OF wf i ovf refl]) simp_all
  also have "\<dots> = Some (int n, take (Suc i) (buf[i := ?c]) @
      take (n - Suc i) (drop (unat offset + Suc i) ?F) @ drop n (buf[i := ?c]))"
    using Suc.hyps(2) Suc.prems less by (intro Suc.hyps(1)) (auto simp: Suc_le_eq)
  finally have "read_data_loop fs inode offset len i (of_nat b) (of_nat x) (block_ptr fs inode b x) buf =
    Some (int n, take (Suc i) (buf[i := ?c]) @
      take (n - Suc i) (drop (unat offset + Suc i) ?F) @ drop n (buf[i := ?c]))" .
  moreover have "take (Suc i) (buf[i := ?c]) = take i buf @ [?c]"
    using less Suc.prems by (simp add: take_Suc_conv_app_nth)
  moreover have "drop ?pos ?F = ?c # drop (Suc ?pos) ?F"
    using lt by (subst Cons_nth_drop_Suc [symmetric]) (simp_all add: file_content_def)
  moreover have "n - i = Suc (n - Suc i)" using less by simp
  ultimately show ?case using less by simp
qed


lemma read_data_eq:
  assumes "wf_file fs inode" and "unat offset \<le> length (file_content fs inode)"
    and "unat offset + unat len < 2 ^ 32"
    and "min (unat len) (length (file_content fs inode) - unat offset) \<le> length buf"
  shows "read_data fs inode offset buf len =
    (let n = min (unat len) (length (file_content fs inode) - unat offset) in
     Some (int n, take n (drop (unat offset) (file_content fs inode)) @ drop n buf))"
proof -
  let ?b = "unat offset div 4096" and ?x = "unat offset mod 4096"
  have b: "offset div BLOCK_SIZE = of_nat ?b" and x: "offset mod BLOCK_SIZE = of_nat ?x"
    using unsigned_less [of offset, where ?'a = nat]
    by (simp_all add: word_unat_eq_iff unat_div unat_mod unat_of_nat_u32 le_less_trans [OF div_le_dividend])
  have "sint (data_block_num fs inode (of_nat ?b)) < sint (data_count fs)"
    using assms(1,2) by (intro wf_file_block) (simp_all add: div_le_mono)
  then have "\<not> sint (data_count fs) \<le> sint (data_block_num fs inode (of_nat ?b))" by simp
  moreover have "\<not> boot_inode_count fs \<le> inode" using assms(1) by (simp add: wf_file_def not_le)
  ultimately have "read_data fs inode offset buf len =
      read_data_loop fs inode offset len 0 (of_nat ?b) (of_nat ?x) (block_ptr fs inode ?b ?x) buf"
    unfolding read_data_def Let_def b x block_ptr_def by (simp only: if_False)
  also have "\<dots> = (let n = min (unat len) (length (file_content fs inode) - unat offset) in
     Some (int n, take n (drop (unat offset) (file_content fs inode)) @ drop n buf))"
    using assms by (subst read_data_loop_eq [OF assms(1) _ assms(3) refl]) (simp_all add: Let_def)
  finally show ?thesis .
qed

section \<open>Files as sources of bytes\<close>

text \<open>
  What clients rely on when they read a file in pieces: a fetch at an offset inside the file
  delivers the bytes from there on, as many as asked for and as there are.
\<close>

locale file_source =
  fixes fetch :: "'f \<Rightarrow> u32 \<Rightarrow> u8 list \<Rightarrow> u32 \<Rightarrow> (int \<times> u8 list) option"
    and ok :: "'f \<Rightarrow> bool"
    and content :: "'f \<Rightarrow> u8 list"
  assumes fetch_eq: "ok f \<Longrightarrow> unat offset \<le> length (content f) \<Longrightarrow> unat offset + unat len < 2 ^ 32 \<Longrightarrow>
    min (unat len) (length (content f) - unat offset) \<le> length buf \<Longrightarrow>
    fetch f offset buf len =
      (let n = min (unat len) (length (content f) - unat offset) in
       Some (int n, take n (drop (unat offset) (content f)) @ drop n buf))"
begin

lemma fetch_eof:
  "ok f \<Longrightarrow> unat offset = length (content f) \<Longrightarrow> unat offset + unat len < 2 ^ 32 \<Longrightarrow>
   fetch f offset buf len = Some (0, buf)"
  by (simp add: fetch_eq)

text \<open>Two fetches in a row deliver consecutive pieces.\<close>

lemma fetch_fetch:
  assumes "ok f" and "unat offset + unat len \<le> length (content f)"
    and "unat offset + 2 * unat len < 2 ^ 32" and "unat len \<le> length buf" "unat len \<le> length buf'"
  obtains a b where "fetch f offset buf len = Some (int (unat len), a)"
    and "fetch f (offset + len) buf' len = Some (int (min (unat len) (length (content f) - unat (offset + len))), b)"
    and "take (unat len) a @ take (min (unat len) (length (content f) - unat (offset + len))) b =
         take (2 * unat len) (drop (unat offset) (content f))"
proof -
  have u: "unat (offset + len) = unat offset + unat len"
    using assms(3) by (subst unat_add_lem [THEN iffD1]) simp_all
  have l: "unat len \<le> length (content f) - unat offset" using assms(2) by simp
  have 1: "fetch f offset buf len = Some (int (unat len), take (unat len) (drop (unat offset) (content f)) @ drop (unat len) buf)"
    using assms l by (subst fetch_eq) (simp_all add: Let_def min_absorb1)
  let ?m = "min (unat len) (length (content f) - unat (offset + len))"
  have 2: "fetch f (offset + len) buf' len = Some (int ?m, take ?m (drop (unat (offset + len)) (content f)) @ drop ?m buf')"
    using assms u by (subst fetch_eq) (simp_all add: Let_def)
  have 3: "take (unat len) (drop (unat offset) (content f)) @ take ?m (drop (unat (offset + len)) (content f)) =
      take (2 * unat len) (drop (unat offset) (content f))"
    unfolding u mult_2 take_add using assms(2) by (simp add: min_def add.commute)
  have prefix: "k = length xs \<Longrightarrow> take k (xs @ ys) = xs" for k and xs ys :: "u8 list" by simp
  have 4: "take (unat len) (take (unat len) (drop (unat offset) (content f)) @ drop (unat len) buf) =
      take (unat len) (drop (unat offset) (content f))"
    using l by (intro prefix) simp
  have 5: "take ?m (take ?m (drop (unat (offset + len)) (content f)) @ drop ?m buf') =
      take ?m (drop (unat (offset + len)) (content f))"
    by (intro prefix) simp
  show ?thesis by (rule that [OF 1 2]) (simp only: 3 4 5)
qed

end

interpretation fs_file: file_source "\<lambda>(fs, inode). read_data fs inode" "\<lambda>(fs, inode). wf_file fs inode"
    "\<lambda>(fs, inode). file_content fs inode"
  by unfold_locales (auto simp: read_data_eq)

lemma read_dentry_by_index_eq:
  "i < unat (dir_count fs) \<Longrightarrow> length (filename d) = FILENAME_LEN \<Longrightarrow>
   read_dentry_by_index fs (of_nat i) d = Some (0, dir_entry fs i)"
proof -
  assume i: "i < unat (dir_count fs)" and d: "length (filename d) = FILENAME_LEN"
  then have "i < 2 ^ 32" using unsigned_less [of "dir_count fs", where ?'a = nat] by simp
  then have "\<not> dir_count fs \<le> of_nat i" using i by (simp add: word_le_nat_alt unat_of_nat_u32)
  with d show ?thesis by (simp add: read_dentry_by_index_def copy_dentry_eq)
qed

section \<open>Properties\<close>

text \<open>
  C12: \<open>read_data\<close> on a well-formed file, from an offset inside the file on, copies exactly
  the bytes of the file from there on, as many as were asked for and as the file has, across block
  boundaries; it returns their number, leaves the rest of the buffer alone and stores nothing
  outside it.
\<close>

theorem read_data_delivers_content:
  assumes "wf_file fs inode" and "unat offset \<le> length (file_content fs inode)"
    and "unat offset + unat len < 2 ^ 32"
    and "min (unat len) (length (file_content fs inode) - unat offset) \<le> length buf"
  shows "\<exists>n. n = min (unat len) (length (file_content fs inode) - unat offset)
    \<and> read_data fs inode offset buf len =
        Some (int n, take n (drop (unat offset) (file_content fs inode)) @ drop n buf)"
  using read_data_eq [OF assms] by (simp add: Let_def)

text \<open>A small image: one entry \<open>a\<close>, one inode, one data block holding \<open>hey\<close>.\<close>

definition sample_mem :: memory where
  "sample_mem = (\<lambda>_. 0)(0 := 1, 4 := 1, 8 := 1, 64 := 97, 96 := 2, 4096 := 3,
     8192 := 104, 8193 := 101, 8194 := 121)"

definition sample_fs :: fsys where
  "sample_fs = fsystem_init sample_mem 0"

lemma sample_fs_fields:
  "dir_count sample_fs = 1" "boot_inode_count sample_fs = 1" "data_count sample_fs = 1"
  "inode_length sample_fs 0 = 3" "data_block_num sample_fs 0 0 = 0"
  "data_block_first sample_fs = 8192" "fs_mem sample_fs = sample_mem"
  by (simp_all add: sample_fs_def fsystem_init_def dir_count_def boot_inode_count_def data_count_def
      inode_length_def data_block_num_def read_u32_def sample_mem_def)

lemma wf_sample: "wf_file sample_fs 0"
  by (simp add: wf_file_def sample_fs_fields)

lemma sample_content: "file_content sample_fs 0 = bytes ''hey''"
proof -
  have "file_byte sample_fs 0 0 = 104" "file_byte sample_fs 0 1 = 101" "file_byte sample_fs 0 2 = 121"
    by (simp_all add: file_byte_def sample_fs_fields sample_mem_def)
  moreover have "[0..<3] = [0, 1, 2 :: nat]" by code_simp
  ultimately show ?thesis by (simp add: file_content_def sample_fs_fields bytes_def)
qed

theorem read_data_delivers_content_witness:
  "read_data sample_fs 0 1 [0, 0, 0, 0] 4 = Some (2, bytes ''ey'' @ [0, 0])"
  using read_data_delivers_content [OF wf_sample, of 1 4 "[0, 0, 0, 0]"]
  by (simp add: sample_content bytes_def)

text \<open>
  \<open>read_dentry_by_name\<close> finds the first directory entry whose name is the given string,
  fills the caller's entry with its name, type and inode and returns 0, and returns -1 without
  touching the caller's entry when there is none. Names of exactly 32 characters, which have no NUL
  in the image, are found too; a string of more than 32 characters never matches. Looking the found
  index up with \<open>read_dentry_by_index\<close> gives the same entry.
\<close>

lemma read_dentry_by_name_first_match:
  assumes "0 \<in> set fname" and "length (filename d) = FILENAME_LEN"
  shows "case find (\<lambda>k. dir_name fs k = cstr fname) [0..<unat (dir_count fs)] of
      None \<Rightarrow> read_dentry_by_name fs (Some fname) d = Some (-1, d)
    | Some k \<Rightarrow> read_dentry_by_name fs (Some fname) d = Some (0, dir_entry fs k)
        \<and> read_dentry_by_index fs (of_nat k) d = Some (0, dir_entry fs k)"
proof (cases "find (\<lambda>k. dir_name fs k = cstr fname) [0..<unat (dir_count fs)]")
  case None
  then show ?thesis using scan_dentries_eq [OF assms, of fs 0] by (simp add: read_dentry_by_name_def)
next
  case (Some k)
  then have "k < unat (dir_count fs)" by (auto simp: find_Some_iff)
  with Some show ?thesis
    using scan_dentries_eq [OF assms, of fs 0] assms(2)
    by (simp add: read_dentry_by_name_def read_dentry_by_index_eq)
qed

lemma sample_dir_name: "dir_name sample_fs 0 = [97]"
proof -
  let ?o = "direntry_obj sample_fs 0"
  have "?o ! 0 = 97" "?o ! 1 = 0"
    by (simp_all add: direntry_obj_def direntry_addr_def sample_fs_def fsystem_init_def sample_mem_def)
  then have "?o = [97] @ 0 # drop 2 ?o"
    using Cons_nth_drop_Suc [of 0 ?o] Cons_nth_drop_Suc [of 1 ?o] by (simp add: numeral_2_eq_2)
  then have "cstr ?o = [97]"
    using cstr_append_nul [of "[97]" "drop 2 ?o"] by simp
  then show ?thesis by (simp add: dir_name_def)
qed

end
