(* ===== verification/System_Call.thy ===== *)
theory System_Call
  imports Paging Filesystem
begin

text \<open>
  Processes and system calls (\<^verbatim>\<open>src/student-distrib/system_call.c\<close>) and the operations on
  open files and directories (\<open>file_read\<close> to \<open>dir_close\<close> of \<^verbatim>\<open>filesystem.c\<close>). Their properties are
  in \<open>Processes\<close>, \<open>Descriptors\<close> and \<open>Call_Properties\<close>.

  The kernel's state extends the terminal's with the mounted file system, the paging structures,
  the process table, the process control blocks (addressed as the code addresses them, by the bottom of
  their 8 KB kernel stacks), the contents of the program frames, the task state segment's stack
  fields and the stack pointer the kernel runs on. Function pointers are the names of the
  drivers' functions. User buffers are passed as byte objects and returned with their new
  contents; a \<open>NULL\<close> pointer is \<^const>\<open>None\<close>.

  An error value \<open>Inl\<close> says that the C code does not return in the normal way:
  it dereferences \<open>NULL\<close>, leaves an object, or never stops waiting.
\<close>

datatype fault = Null_pointer | No_return | Page_fault

datatype driver = Null_fn | Terminal_fn | Dir_fn | File_fn | Rtc_fn

record file_ops =
  read_function :: driver
  write_function :: driver
  open_function :: driver
  close_function :: driver

datatype file_ops_ptr = NULL_ops | std_operations | dir_operations | file_operations | rtc_operations

record fd_entry =
  flags :: int
  inode :: u32
  file_position :: u32
  fd_operations :: file_ops_ptr

record pcb =
  fd_arr :: "fd_entry list"
  argument :: "u8 list"
  proc_num :: int
  parent_proc_num :: int
  ebp :: u32
  esp :: u32
  terminal_num :: int

record kernel = terminal +
  fs :: fsys
  holder :: dentry
  inode_count :: u32
  paging :: paging
  processes :: "int list"
  pcb_at :: "u32 \<Rightarrow> pcb"
  frame_at :: "u32 \<Rightarrow> u8 list"
  ops_table :: "file_ops_ptr \<Rightarrow> file_ops"
  tss_esp0 :: u32
  tss_ss0 :: u32
  kernel_esp :: u32
  kernel_ebp :: u32
  new_pcb :: pcb

abbreviation PCB_LENGTH :: nat where "PCB_LENGTH \<equiv> 8"
abbreviation EIGHTMB :: u32 where "EIGHTMB \<equiv> 0x800000"
abbreviation EIGHTKB :: u32 where "EIGHTKB \<equiv> 0x2000"
abbreviation ONETWOEIGHTMB :: u32 where "ONETWOEIGHTMB \<equiv> 0x8000000"
abbreviation KERNEL_DS :: u32 where "KERNEL_DS \<equiv> 0x18"

section \<open>Process control blocks\<close>

definition get_pcb :: "'a kernel_scheme \<Rightarrow> u32" where
  "get_pcb s = kernel_esp s AND 0x007FE000"

definition pcb_addr :: "int \<Rightarrow> u32" where
  "pcb_addr process_id = EIGHTMB - EIGHTKB * word_of_int (process_id + 1)"

abbreviation cur_pcb :: "'a kernel_scheme \<Rightarrow> pcb" where
  "cur_pcb s \<equiv> pcb_at s (get_pcb s)"

definition upd_pcb :: "u32 \<Rightarrow> (pcb \<Rightarrow> pcb) \<Rightarrow> 'a kernel_scheme \<Rightarrow> 'a kernel_scheme" where
  "upd_pcb p f s = s\<lparr>pcb_at := (pcb_at s)(p := f (pcb_at s p))\<rparr>"

definition upd_fd :: "int \<Rightarrow> (fd_entry \<Rightarrow> fd_entry) \<Rightarrow> pcb \<Rightarrow> pcb" where
  "upd_fd fd f p = p\<lparr>fd_arr := (fd_arr p)[nat fd := f (fd_arr p ! nat fd)]\<rparr>"

definition sys_init :: "'a kernel_scheme \<Rightarrow> 'a kernel_scheme" where
  "sys_init s = s\<lparr>new_pcb := (new_pcb s)\<lparr>proc_num := 0\<rparr>, ops_table := (ops_table s)(
     std_operations := \<lparr>read_function = Terminal_fn, write_function = Terminal_fn,
       open_function = Terminal_fn, close_function = Terminal_fn\<rparr>,
     dir_operations := \<lparr>read_function = Dir_fn, write_function = Dir_fn,
       open_function = Dir_fn, close_function = Dir_fn\<rparr>,
     file_operations := \<lparr>read_function = File_fn, write_function = File_fn,
       open_function = File_fn, close_function = File_fn\<rparr>,
     rtc_operations := \<lparr>read_function = Rtc_fn, write_function = Rtc_fn,
       open_function = Rtc_fn, close_function = Rtc_fn\<rparr>)\<rparr>"

section \<open>Files and directories\<close>

text \<open>
  \<open>file_read\<close>: the position advances by what \<open>read_data\<close> returned, also when that is -1.
\<close>

definition file_read :: "int \<Rightarrow> u8 list \<Rightarrow> int \<Rightarrow> 'a kernel_scheme \<Rightarrow> (int \<times> u8 list \<times> 'a kernel_scheme) option" where
  "file_read fd buf nbytes s =
     (let pcb = get_pcb s; e = fd_arr (pcb_at s pcb) ! nat fd
      in if flags e = 0 then Some (-1, buf, s)
         else do {
           (position, buf') \<leftarrow> read_data (fs s) (inode e) (file_position e) buf (word_of_int nbytes);
           let s' = upd_pcb pcb (upd_fd fd (\<lambda>e. e\<lparr>file_position := file_position e + word_of_int position\<rparr>)) s;
           Some (if position < 0 then 0 else position, buf', s')
         })"

definition file_write :: "int \<Rightarrow> u8 list \<Rightarrow> int \<Rightarrow> int" where
  "file_write fd buf nbytes = -1"

text \<open>
  \<open>file_open\<close> and \<open>dir_open\<close> look the name up into the global \<open>holder\<close>; they are
  entries of the operations tables, but \<open>sys_open\<close> does not call them.
\<close>

definition file_open :: "u8 list option \<Rightarrow> 'a kernel_scheme \<Rightarrow> (int \<times> 'a kernel_scheme) option" where
  "file_open fname s =
     (if fname = None then Some (-1, s)
      else do {
        (r, d) \<leftarrow> read_dentry_by_name (fs s) fname (holder s);
        let s = s\<lparr>holder := d\<rparr>;
        if r = -1 then Some (-1, s) else Some (0, s\<lparr>inode_count := inode_num (holder s)\<rparr>)
      })"

definition dir_open :: "u8 list option \<Rightarrow> 'a kernel_scheme \<Rightarrow> (int \<times> 'a kernel_scheme) option" where
  "dir_open fname s =
     (if fname = None then Some (-1, s)
      else do {
        (r, d) \<leftarrow> read_dentry_by_name (fs s) fname (holder s);
        let s = s\<lparr>holder := d\<rparr>;
        if r = -1 then Some (-1, s) else Some (0, s)
      })"

definition file_close :: "int \<Rightarrow> int" where
  "file_close fd = 0"

text \<open>The length loop of \<open>dir_read\<close>; at index 32 it looks at the byte after the name field.\<close>

function dir_name_length :: "u8 list \<Rightarrow> nat \<Rightarrow> nat option" where
  "dir_name_length name len =
     (if len \<le> 32 then
        do {
          c \<leftarrow> rd name len;
          if c \<noteq> 0 \<and> len < 32 then dir_name_length name (Suc len) else Some len
        }
      else None)"
  by pat_completeness auto
termination
  by (relation "measure (\<lambda>(name, len). 33 - len)") auto

declare dir_name_length.simps [simp del]

text \<open>
  \<open>dir_read\<close>; the local entry is first copied from the directory, then filled by
  \<open>read_dentry_by_index\<close>. The object behind \<open>d_entry.filename\<close> continues with the file type.
\<close>

definition dir_read :: "int \<Rightarrow> u8 list option \<Rightarrow> int \<Rightarrow> 'a kernel_scheme \<Rightarrow> (int \<times> u8 list option \<times> 'a kernel_scheme) option" where
  "dir_read fd buf nbytes s =
     (case buf of
        None \<Rightarrow> Some (-1, buf, s)
      | Some b \<Rightarrow>
        if nbytes < 0 \<or> fd < 0 \<or> fd > 7 then Some (-1, buf, s)
        else
          let pcb = get_pcb s;
              idx = file_position (fd_arr (pcb_at s pcb) ! nat fd);
              s = upd_pcb pcb (upd_fd fd (\<lambda>e. e\<lparr>file_position := file_position e + 1\<rparr>)) s;
              addr = direntry_addr (fs s) idx;
              d_entry = \<lparr>filename = obj_at (fs_mem (fs s)) addr 32,
                         filetype = read_u32 (fs_mem (fs s)) (addr + 32),
                         inode_num = read_u32 (fs_mem (fs s)) (addr + 36)\<rparr>
          in do {
            (r, d_entry) \<leftarrow> read_dentry_by_index (fs s) idx d_entry;
            if r = -1 then Some (0, buf, s)
            else do {
              let name = filename d_entry @ [ucast (filetype d_entry)];
              n \<leftarrow> dir_name_length name 0;
              b' \<leftarrow> strncpy b name 32;
              Some (int n, Some b', s)
            }
          })"

definition dir_write :: "int \<Rightarrow> u8 list \<Rightarrow> int \<Rightarrow> int" where
  "dir_write fd buf nbytes = -1"

definition dir_close :: "int \<Rightarrow> int" where
  "dir_close fd = 0"

section \<open>Reading, writing, opening and closing\<close>

definition of_option :: "'r option \<Rightarrow> fault + 'r" where
  "of_option r = (case r of None \<Rightarrow> Inl No_return | Some x \<Rightarrow> Inr x)"

text \<open>
  \<open>sys_read\<close>: \<open>h\<close> is the interrupt dispatch and \<open>es\<close> the interrupts that arrive while a
  driver waits; what is left of them is returned.
\<close>

definition sys_read ::
  "('e \<Rightarrow> 'a kernel_scheme \<Rightarrow> 'a kernel_scheme option) \<Rightarrow> 'e list \<Rightarrow> int \<Rightarrow> u8 list option \<Rightarrow> int \<Rightarrow> 'a kernel_scheme
   \<Rightarrow> fault + (int \<times> u8 list option \<times> 'a kernel_scheme \<times> 'e list)" where
  "sys_read h es fd buf nbytes s =
     (case buf of
        None \<Rightarrow> Inr (-1, buf, s, es)
      | Some b \<Rightarrow>
        if fd < 0 \<or> nbytes < 0 \<or> fd > int PCB_LENGTH - 1 \<or> fd = 1 then Inr (-1, buf, s, es)
        else
          let a = fd_arr (cur_pcb s) ! nat fd
          in if fd_operations a = NULL_ops then Inl Null_pointer
             else
               let c = read_function (ops_table s (fd_operations a))
               in if (c = File_fn \<or> c = Dir_fn) \<and> flags a = 0 then Inr (-1, buf, s, es)
                  else
                    (case c of
                       Null_fn \<Rightarrow> Inl Null_pointer
                     | Terminal_fn \<Rightarrow>
                         of_option (map_option (\<lambda>(r, b', s', es'). (r, Some b', s', es')) (terminal_read h es b nbytes s))
                     | Dir_fn \<Rightarrow>
                         of_option (map_option (\<lambda>(r, b', s'). (r, b', s', es)) (dir_read fd buf nbytes s))
                     | File_fn \<Rightarrow>
                         of_option (map_option (\<lambda>(r, b', s'). (r, Some b', s', es)) (file_read fd b nbytes s))
                     | Rtc_fn \<Rightarrow>
                         of_option (map_option (\<lambda>(r, s', es'). (r, buf, s', es')) (rtc_read h es s))))"

definition sys_write :: "device \<Rightarrow> int \<Rightarrow> u8 list option \<Rightarrow> int \<Rightarrow> 'a kernel_scheme \<Rightarrow> fault + (int \<times> 'a kernel_scheme)" where
  "sys_write dev fd buf nbytes s =
     (case buf of
        None \<Rightarrow> Inr (-1, s)
      | Some b \<Rightarrow>
        if fd < 1 \<or> nbytes < 0 \<or> fd > int PCB_LENGTH - 1 then Inr (-1, s)
        else
          let a = fd_arr (cur_pcb s) ! nat fd
          in if fd_operations a = NULL_ops then Inl Null_pointer
             else
               (case write_function (ops_table s (fd_operations a)) of
                  Null_fn \<Rightarrow> Inl Null_pointer
                | Terminal_fn \<Rightarrow> of_option (terminal_write b nbytes s)
                | Dir_fn \<Rightarrow> Inr (dir_write fd b nbytes, s)
                | File_fn \<Rightarrow> Inr (file_write fd b nbytes, s)
                | Rtc_fn \<Rightarrow>
                    of_option (do {
                      lo \<leftarrow> rd b 0;
                      hi \<leftarrow> rd b 1;
                      Some (rtc_write dev (ucast lo OR push_bit 8 (ucast hi)) s)
                    })))"

text \<open>The free descriptor search: the first index from 2 on whose entry is not in use, or 8.\<close>

function free_fd :: "fd_entry list \<Rightarrow> nat \<Rightarrow> nat" where
  "free_fd fds i = (if i < PCB_LENGTH \<and> flags (fds ! i) \<noteq> 0 then free_fd fds (Suc i) else i)"
  by pat_completeness auto
termination
  by (relation "measure (\<lambda>(fds, i). PCB_LENGTH - i)") auto

declare free_fd.simps [simp del]

definition blank_dentry :: dentry where
  "blank_dentry = \<lparr>filename = replicate 32 0, filetype = 0, inode_num = 0\<rparr>"

definition sys_open :: "u8 list option \<Rightarrow> 'a kernel_scheme \<Rightarrow> fault + (int \<times> 'a kernel_scheme)" where
  "sys_open fname s =
     (case fname of
        None \<Rightarrow> Inr (-1, s)
      | Some name \<Rightarrow>
        let pcb = get_pcb s;
            i = free_fd (fd_arr (pcb_at s pcb)) 2
        in if i = PCB_LENGTH then Inr (-1, s)
           else if flags (fd_arr (pcb_at s pcb) ! i) = 1 then Inr (-1, s)
           else
             of_option (do {
               (r, dir_ent) \<leftarrow> read_dentry_by_name (fs s) fname blank_dentry;
               if r = -1 then Some (-1, s)
               else
                 let ops = (\<lambda>e. if filetype dir_ent = 0 then e\<lparr>fd_operations := rtc_operations\<rparr>
                            else if filetype dir_ent = 1 then e\<lparr>fd_operations := dir_operations\<rparr>
                            else if filetype dir_ent = 2 then e\<lparr>fd_operations := file_operations\<rparr>
                            else e);
                     upd = (\<lambda>e. (ops e)\<lparr>inode := inode_num dir_ent, file_position := 0, flags := 1\<rparr>)
                 in Some (int i, upd_pcb pcb (upd_fd (int i) upd) s)
             }))"

definition sys_close :: "int \<Rightarrow> 'a kernel_scheme \<Rightarrow> fault + (int \<times> 'a kernel_scheme)" where
  "sys_close fd s =
     (if fd < 2 \<or> fd > int PCB_LENGTH - 1 then Inr (-1, s)
      else
        let pcb = get_pcb s;
            s = upd_pcb pcb (upd_fd fd (\<lambda>e. e\<lparr>fd_operations := dir_operations\<rparr>)) s
        in if flags (fd_arr (pcb_at s pcb) ! nat fd) = 0 then Inr (-1, s)
           else
             let s = upd_pcb pcb (upd_fd fd (\<lambda>e. e\<lparr>flags := 0\<rparr>)) s;
                 a = fd_arr (pcb_at s pcb) ! nat fd
             in (case close_function (ops_table s (fd_operations a)) of
                   Null_fn \<Rightarrow> Inl Null_pointer
                 | Terminal_fn \<Rightarrow> Inr (terminal_close fd, s)
                 | Dir_fn \<Rightarrow> Inr (dir_close fd, s)
                 | File_fn \<Rightarrow> Inr (file_close fd, s)
                 | Rtc_fn \<Rightarrow> Inr (rtc_close fd, s)))"

section \<open>Starting and ending processes\<close>

text \<open>The search for a free process slot: its index, or 6.\<close>

function free_slot :: "int list \<Rightarrow> nat \<Rightarrow> nat" where
  "free_slot ps i = (if i < 6 \<and> ps ! i \<noteq> 0 then free_slot ps (Suc i) else i)"
  by pat_completeness auto
termination
  by (relation "measure (\<lambda>(ps, i). 6 - i)") auto

text \<open>
  The first loop of \<open>sys_execute\<close> copies the command word; it returns the buffer, the index at
  which it stopped and whether it stopped at a space. The second copies the rest of the line into
  the new process's argument buffer. A store outside either buffer is \<^const>\<open>None\<close>.
\<close>

function copy_command :: "u8 list \<Rightarrow> nat \<Rightarrow> u8 list \<Rightarrow> nat \<Rightarrow> (u8 list \<times> nat \<times> bool) option" where
  "copy_command command n arg_buffer i =
     (if i < n then
        do {
          c \<leftarrow> rd command i;
          if c \<noteq> of_char CHR '' '' then
            do { ab \<leftarrow> wr arg_buffer i c; copy_command command n ab (Suc i) }
          else do { ab \<leftarrow> wr arg_buffer i 0; Some (ab, i, True) }
        }
      else Some (arg_buffer, i, False))"
  by pat_completeness auto
termination
  by (relation "measure (\<lambda>(command, n, ab, i). n - i)") auto

function copy_arguments :: "u8 list \<Rightarrow> nat \<Rightarrow> nat \<Rightarrow> u8 list \<Rightarrow> nat \<Rightarrow> u8 list option" where
  "copy_arguments command n i arg j =
     (if j < n - i then
        do { c \<leftarrow> rd command (j + i); arg' \<leftarrow> wr arg j c; copy_arguments command n i arg' (Suc j) }
      else wr arg j 0)"
  by pat_completeness auto
termination
  by (relation "measure (\<lambda>(command, n, i, arg, j). n - i - j)") auto

declare free_slot.simps [simp del] copy_command.simps [simp del] copy_arguments.simps [simp del]

definition parse_command :: "u8 list \<Rightarrow> u8 list \<Rightarrow> (u8 list \<times> u8 list) option" where
  "parse_command command arg =
     do {
       n \<leftarrow> strlen command;
       (arg_buffer, i, null_check) \<leftarrow> copy_command command n (replicate 1000 0) 0;
       arg_buffer \<leftarrow> (if \<not> null_check then wr arg_buffer i 0 else Some arg_buffer);
       arg \<leftarrow> (if null_check then copy_arguments command n (i + 1) arg 0 else Some arg);
       Some (arg_buffer, arg)
     }"

text \<open>
  The loading loop of \<open>sys_execute\<close>: 100 bytes at a time to \<open>VIRTUAL_ADDR + l\<close>, which is
  offset \<open>0x48000 + l\<close> of the program's frame, until a read returned 0. It need not end, so
  not ending is \<^const>\<open>None\<close>.
\<close>

partial_function (option) load_loop ::
  "(u32 \<Rightarrow> u8 list \<Rightarrow> u32 \<Rightarrow> (int \<times> u8 list) option) \<Rightarrow> int \<Rightarrow> int \<Rightarrow> int \<Rightarrow> u8 list \<Rightarrow> u8 list option" where
  "load_loop fetch k l done_flag page =
     (if k \<noteq> 0 \<or> done_flag \<noteq> 1 then
        do {
          (k, seg) \<leftarrow> fetch (word_of_int l) (drop (nat (0x48000 + l)) page) 100;
          load_loop fetch k (l + k) (if k \<noteq> 100 then 1 else done_flag) (take (nat (0x48000 + l)) page @ seg)
        }
      else Some page)"

definition load_program :: "(u32 \<Rightarrow> u8 list \<Rightarrow> u32 \<Rightarrow> (int \<times> u8 list) option) \<Rightarrow> u8 list \<Rightarrow> u8 list option" where
  "load_program fetch page =
     do {
       (k, seg) \<leftarrow> fetch 0 (drop 0x48000 page) 100;
       load_loop fetch k k 0 (take 0x48000 page @ seg)
     }"

definition le_word :: "u8 list \<Rightarrow> u32" where
  "le_word b = ucast (b ! 0) OR push_bit 8 (ucast (b ! 1)) OR push_bit 16 (ucast (b ! 2)) OR push_bit 24 (ucast (b ! 3))"

text \<open>
  \<open>sys_execute\<close> either returns a value or enters user mode at an entry point. \<open>header_buf\<close>
  and \<open>entry_buf\<close> are the uninitialised contents of the two local buffers, which are only
  visible when \<open>read_data\<close> fails.
\<close>

datatype exec_result = Exec_ret int | Exec_enter u32

definition exec_prepare :: "u8 list \<Rightarrow> nat \<Rightarrow> 'a kernel_scheme \<Rightarrow> (u8 list \<times> 'a kernel_scheme) option" where
  "exec_prepare command process_id s =
     do {
       let proc_block = pcb_addr (int process_id);
       (arg_buffer, arg) \<leftarrow> parse_command command (argument (pcb_at s proc_block));
       Some (arg_buffer, upd_pcb proc_block (\<lambda>p. p\<lparr>argument := arg\<rparr>) s)
     }"

definition exec_header :: "u8 list \<Rightarrow> u8 list \<Rightarrow> u32 \<Rightarrow> fsys \<Rightarrow> u32 option option" where
  "exec_header header_buf entry_buf ino fsy =
     do {
       (_, hdr) \<leftarrow> read_data fsy ino 0 header_buf 40;
       if hdr ! 0 = 0x7F \<and> hdr ! 1 = 0x45 \<and> hdr ! 2 = 0x4C \<and> hdr ! 3 = 0x46 then
         do {
           (_, ep) \<leftarrow> read_data fsy ino 24 entry_buf 4;
           Some (Some (le_word ep))
         }
       else Some None
     }"

definition set_program_page :: "int \<Rightarrow> 'a kernel_scheme \<Rightarrow> 'a kernel_scheme" where
  "set_program_page process_id s =
     s\<lparr>paging := (paging s)\<lparr>page_dir := (page_dir (paging s))[32 := program_entry process_id]\<rparr>\<rparr>"

definition exec_load :: "u32 \<Rightarrow> nat \<Rightarrow> 'a kernel_scheme \<Rightarrow> 'a kernel_scheme option" where
  "exec_load ino process_id s =
     do {
       let s = set_program_page (int process_id) s;
       let frame = page_dir (paging s) ! 32 AND 0xFFC00000;
       page \<leftarrow> load_program (read_data (fs s) ino) (frame_at s frame);
       Some (s\<lparr>frame_at := (frame_at s)(frame := page)\<rparr>)
     }"

definition exec_pcb :: "nat \<Rightarrow> 'a kernel_scheme \<Rightarrow> 'a kernel_scheme" where
  "exec_pcb process_id s =
     (let proc_block = pcb_addr (int process_id);
          s = upd_pcb proc_block (\<lambda>p. p\<lparr>terminal_num := current_terminal s, proc_num := int process_id\<rparr>) s;
          s = (if process_id = 0 then s
               else upd_pcb proc_block (\<lambda>p. p\<lparr>parent_proc_num := proc_num (cur_pcb s)\<rparr>) s);
          s = upd_pcb proc_block (upd_fd 0 (\<lambda>e. e\<lparr>fd_operations := std_operations\<rparr>)) s;
          s = upd_pcb proc_block (upd_fd 1 (\<lambda>e. e\<lparr>fd_operations := std_operations\<rparr>)) s;
          s = upd_pcb proc_block (\<lambda>p. p\<lparr>esp := kernel_esp s, ebp := kernel_ebp s\<rparr>) s
      in s\<lparr>tss_esp0 := EIGHTMB - EIGHTKB * of_nat process_id - 4\<rparr>)"

definition sys_execute ::
  "u8 list \<Rightarrow> u8 list \<Rightarrow> u8 list option \<Rightarrow> 'a kernel_scheme \<Rightarrow> fault + (exec_result \<times> 'a kernel_scheme)" where
  "sys_execute header_buf entry_buf command s =
     (case command of
        None \<Rightarrow> Inr (Exec_ret (-1), s)
      | Some command \<Rightarrow>
        let process_id = free_slot (processes s) 0
        in if process_id = 6 then Inr (Exec_ret (-1), s)
           else
             of_option (do {
               let s = s\<lparr>processes := (processes s)[process_id := 1]\<rparr>;
               (arg_buffer, s) \<leftarrow> exec_prepare command process_id s;
               (r, holder_dentry) \<leftarrow> read_dentry_by_name (fs s) (Some arg_buffer) blank_dentry;
               if r \<noteq> 0 then Some (Exec_ret (-1), s)
               else do {
                 entry_pt \<leftarrow> exec_header header_buf entry_buf (inode_num holder_dentry) (fs s);
                 case entry_pt of
                   None \<Rightarrow> Some (Exec_ret (-1), s)
                 | Some entry_pt \<Rightarrow>
                   do {
                     s \<leftarrow> exec_load (inode_num holder_dentry) process_id s;
                     Some (Exec_enter entry_pt, exec_pcb process_id s)
                   }
               }
             }))"

text \<open>
  \<open>sys_halt\<close>: the process's descriptors are cleared and its slot is freed; the base shell is
  started again; otherwise the parent's page, stack and registers are restored, and the parent's
  \<open>sys_execute\<close> returns the status.
\<close>

datatype halt_result = Halt_ret int | Halt_enter u32 | Halt_resume int

definition clear_fd :: fd_entry where
  "clear_fd = \<lparr>flags = 0, inode = -1, file_position = 0, fd_operations = NULL_ops\<rparr>"

definition halt_close :: "'a kernel_scheme \<Rightarrow> 'a kernel_scheme" where
  "halt_close s =
     (let pcb = get_pcb s;
          s = upd_pcb pcb (\<lambda>p. p\<lparr>fd_arr := fold (\<lambda>i fds. fds[i := clear_fd]) [0..<PCB_LENGTH] (fd_arr p)\<rparr>) s
      in s\<lparr>processes := (processes s)[nat (proc_num (pcb_at s pcb)) := 0]\<rparr>)"

definition halt_restore :: "u8 \<Rightarrow> u32 \<Rightarrow> 'a kernel_scheme \<Rightarrow> halt_result \<times> 'a kernel_scheme" where
  "halt_restore status pcb s =
     (let p = pcb_at s pcb;
          s = set_program_page (parent_proc_num p) s;
          s = s\<lparr>tss_esp0 := EIGHTMB - EIGHTKB * word_of_int (parent_proc_num p) - 4\<rparr>;
          s = s\<lparr>tss_ss0 := KERNEL_DS\<rparr>;
          s = s\<lparr>kernel_esp := esp p, kernel_ebp := ebp p\<rparr>
      in (Halt_resume (uint (status AND 0xFF)), s))"

definition sys_halt ::
  "u8 list \<Rightarrow> u8 list \<Rightarrow> u8 \<Rightarrow> 'a kernel_scheme \<Rightarrow> fault + (halt_result \<times> 'a kernel_scheme)" where
  "sys_halt header_buf entry_buf status s =
     (let pcb = get_pcb s
      in if pcb = 0 then Inr (Halt_ret (-1), s)
         else
           let s = halt_close s
           in if proc_num (pcb_at s pcb) = 0 then
                (case sys_execute header_buf entry_buf (Some (bytes ''shell'' @ [0])) s of
                   Inl e \<Rightarrow> Inl e
                 | Inr (Exec_enter entry_pt, s) \<Rightarrow> Inr (Halt_enter entry_pt, s)
                 | Inr (Exec_ret _, s) \<Rightarrow> Inr (halt_restore status pcb s))
              else Inr (halt_restore status pcb s))"

section \<open>The remaining calls\<close>

definition sys_getargs :: "u8 list option \<Rightarrow> int \<Rightarrow> 'a kernel_scheme \<Rightarrow> fault + (int \<times> u8 list option)" where
  "sys_getargs buf nbytes s =
     (case buf of
        None \<Rightarrow> Inr (-1, buf)
      | Some b \<Rightarrow>
        if nbytes < 0 then Inr (-1, buf)
        else if argument (cur_pcb s) ! 0 = 0 then Inr (-1, buf)
        else of_option (do {
          b' \<leftarrow> (if 128 \<le> length b
                 then Some (fold (\<lambda>i b. b[i := argument (cur_pcb s) ! i]) [0..<128] b) else None);
          Some (0, Some b')
        }))"

text \<open>
  \<open>sys_vidmap\<close>; \<open>pt\<close> and \<open>vt\<close> are the addresses of \<open>page_table\<close> and \<open>video_table\<close>. The store through \<open>screen_start\<close> comes after
  the directory was changed, so it goes where the new tables lead: to the text screen, four bytes of which it overwrites, or into a page fault.
\<close>

definition vid_store32 :: "int \<Rightarrow> u32 \<Rightarrow> (int \<Rightarrow> u8) \<Rightarrow> (int \<Rightarrow> u8)" where
  "vid_store32 a w v =
     v(a := ucast w, a + 1 := ucast (drop_bit 8 w), a + 2 := ucast (drop_bit 16 w), a + 3 := ucast (drop_bit 24 w))"

definition sys_vidmap :: "u32 \<Rightarrow> u32 \<Rightarrow> u32 \<Rightarrow> 'a kernel_scheme \<Rightarrow> fault + (int \<times> 'a kernel_scheme)" where
  "sys_vidmap pt vt screen_start s =
     (if screen_start = 0 then Inr (-1, s)
      else if screen_start < ONETWOEIGHTMB \<or> screen_start > ONETWOEIGHTMB + EIGHTMB div 2 then Inr (-1, s)
      else
        let p = paging s;
            p = p\<lparr>video_table := fold (\<lambda>i t. t[i := (of_nat i * (EIGHTKB div 2)) OR 6]) [0..<1024] (video_table p)\<rparr>;
            p = p\<lparr>video_table := (video_table p)[0 := 0xB8000 OR 7]\<rparr>;
            p = p\<lparr>page_dir := (page_dir p)[32 := vt OR 7]\<rparr>;
            s = s\<lparr>paging := p\<rparr>
        in case (translate pt vt p False screen_start, translate pt vt p False (screen_start + 3)) of
             (Some a, Some _) \<Rightarrow>
               Inr (sint (ONETWOEIGHTMB + EIGHTMB div 2),
                 s\<lparr>vid := vid_store32 (uint a - 0xB8000) (ONETWOEIGHTMB + EIGHTMB div 2) (vid s)\<rparr>)
           | _ \<Rightarrow> Inl Page_fault)"

definition sys_set_handler :: "int \<Rightarrow> u32 \<Rightarrow> int" where
  "sys_set_handler signum handler_address = 0"

definition sys_sigreturn :: int where
  "sys_sigreturn = 0"

definition dummy_call :: int where
  "dummy_call = -1"

end
