(* ===== verification/Processes.thy ===== *)
theory Processes
  imports System_Call
begin

text \<open>
  Properties of starting and ending processes: the program loader, the kernel stacks and control
  blocks, the parsing of the command line, \<open>sys_execute\<close> and \<open>sys_halt\<close>.
\<close>

section \<open>Loading a program\<close>

definition with_image :: "u8 list \<Rightarrow> u8 list \<Rightarrow> nat \<Rightarrow> u8 list" where
  "with_image page content l = take 0x48000 page @ take l content @ drop (0x48000 + l) page"

lemma with_image_step:
  assumes "0x48000 + length content \<le> length page" and "l + n \<le> length content"
  shows "take (0x48000 + l) (with_image page content l) @ take n (drop l content) @
      drop n (drop (0x48000 + l) (with_image page content l)) = with_image page content (l + n)"
proof -
  let ?xs = "take 0x48000 page @ take l content"
  have len: "0x48000 + l = length ?xs" using assms by simp
  have w: "with_image page content l = ?xs @ drop (0x48000 + l) page" by (simp add: with_image_def)
  have t: "take (0x48000 + l) (with_image page content l) = ?xs"
    and d: "drop (0x48000 + l) (with_image page content l) = drop (0x48000 + l) page"
    unfolding w by (metis append_eq_conv_conj len)+
  show ?thesis unfolding t d
    by (simp add: with_image_def take_add ac_simps)
qed

context file_source
begin

lemma load_loop_eq:
  assumes "ok f" and "0x48000 + length (content f) \<le> length page" and "length (content f) + 100 < 2 ^ 32"
    and "l \<le> length (content f)" and "k \<noteq> 0 \<or> d \<noteq> 1 \<or> l = length (content f)"
  shows "load_loop (fetch f) k (int l) d (with_image page (content f) l) =
    Some (with_image page (content f) (length (content f)))"
  using assms(4,5)
proof (induction "length (content f) - l" arbitrary: l k d rule: less_induct)
  case less
  let ?F = "content f" and ?img = "with_image page (content f)"
  show ?case
  proof (cases "k = 0 \<and> d = 1")
    case True
    with less.prems show ?thesis by (subst load_loop.simps) simp
  next
    case False
    define n where "n = min 100 (length ?F - l)"
    have u: "unat (word_of_int (int l) :: u32) = l"
      using less.prems(1) assms(3) by (simp add: unat_of_nat_u32)
    have lenimg: "length (?img l) = length page"
      using assms(2) less.prems(1) by (simp add: with_image_def)
    have x: "nat (0x48000 + int l) = 0x48000 + l" by simp
    have fetch: "fetch f (word_of_int (int l)) (drop (0x48000 + l) (?img l)) 100 =
        Some (int n, take n (drop l ?F) @ drop n (drop (0x48000 + l) (?img l)))"
      using less.prems(1) assms lenimg u
      by (subst fetch_eq) (auto simp: n_def Let_def)
    have "load_loop (fetch f) k (int l) d (?img l) =
        load_loop (fetch f) (int n) (int (l + n)) (if n \<noteq> 100 then 1 else d) (?img (l + n))"
      using False fetch with_image_step [of ?F page l n] assms(2) less.prems(1)
      by (subst load_loop.simps) (simp add: x n_def)
    also have "\<dots> = Some (?img (length ?F))"
    proof (cases "n = 0")
      case True
      then have "l = length ?F" using less.prems(1) by (simp add: n_def min_def split: if_splits)
      with True show ?thesis by (subst load_loop.simps) simp
    next
      case False
      with less.prems(1) show ?thesis by (intro less.hyps) (auto simp: n_def)
    qed
    finally show ?thesis .
  qed
qed

lemma load_program_eq:
  assumes "ok f" and "0x48000 + length (content f) \<le> length page" and "length (content f) + 100 < 2 ^ 32"
  shows "load_program (fetch f) page = Some (take 0x48000 page @ content f @ drop (0x48000 + length (content f)) page)"
proof -
  let ?F = "content f" and ?n = "min 100 (length (content f))"
  have "fetch f 0 (drop 0x48000 page) 100 = Some (int ?n, take ?n ?F @ drop ?n (drop 0x48000 page))"
    using assms by (subst fetch_eq) (simp_all add: Let_def)
  moreover have "take 0x48000 page @ take ?n ?F @ drop ?n (drop 0x48000 page) = with_image page ?F ?n"
    by (simp add: with_image_def add.commute)
  ultimately have "load_program (fetch f) page = load_loop (fetch f) (int ?n) (int ?n) 0 (with_image page ?F ?n)"
    by (simp add: load_program_def)
  also have "\<dots> = Some (with_image page ?F (length ?F))"
    using assms by (intro load_loop_eq) auto
  finally show ?thesis by (simp add: with_image_def)
qed

end

section \<open>The kernel stacks\<close>

lemma pcb_addr_uint: "0 \<le> pid \<Longrightarrow> pid < 6 \<Longrightarrow> uint (pcb_addr pid) = 0x800000 - 0x2000 * (pid + 1)"
proof -
  assume pid: "0 \<le> pid" "pid < 6"
  have "pcb_addr pid = word_of_int (0x800000 - 0x2000 * (pid + 1))"
    unfolding pcb_addr_def by (simp only: of_int_diff of_int_mult of_int_numeral)
  then have "uint (pcb_addr pid) = (0x800000 - 0x2000 * (pid + 1)) mod 2 ^ 32"
    by (simp only: uint_word_of_int) simp
  also have "\<dots> = 0x800000 - 0x2000 * (pid + 1)" using pid by (intro mod_pos_pos_trivial) auto
  finally show ?thesis .
qed

lemma pcb_addr_inj:
  assumes "0 \<le> i" "i < 6" "0 \<le> j" "j < 6"
  shows "pcb_addr i = pcb_addr j \<longleftrightarrow> i = j"
proof
  assume "pcb_addr i = pcb_addr j"
  then have "0x800000 - 0x2000 * (i + 1) = 0x800000 - 0x2000 * (j + 1)"
    using pcb_addr_uint [OF assms(1,2)] pcb_addr_uint [OF assms(3,4)] by (simp only:)
  then show "i = j" by simp
qed simp

lemma and_stack_mask: "uint (x :: u32) < 0x800000 \<Longrightarrow> uint (x AND 0x007FE000) = uint x div 0x2000 * 0x2000"
proof -
  assume x: "uint x < 0x800000"
  have m: "(0x007FE000 :: int) = mask 23 AND NOT (mask 13)" by (simp add: mask_eq_exp_minus_1)
  have "uint (x AND 0x007FE000) = uint x AND 0x007FE000" by (simp add: uint_and)
  also have "\<dots> = take_bit 23 (uint x) AND NOT (mask 13)" by (simp add: m take_bit_eq_mask and.assoc)
  also have "take_bit 23 (uint x) = uint x" using x by (simp add: take_bit_eq_mod)
  also have "uint x AND NOT (mask 13) = push_bit 13 (drop_bit 13 (uint x))"
    by (intro bit_eqI) (auto simp: bit_simps)
  finally show ?thesis by (simp add: push_bit_eq_mult drop_bit_eq_div)
qed

text \<open>Every stack pointer inside a process's 8 KB kernel stack leads to its control block.\<close>

lemma get_pcb_on_stack:
  assumes "0 \<le> pid" "pid < 6"
    and "uint (pcb_addr pid) \<le> uint (kernel_esp s)" "uint (kernel_esp s) < uint (pcb_addr pid) + 0x2000"
  shows "get_pcb s = pcb_addr pid"
proof -
  have r: "0x800000 - 0x2000 * (pid + 1) \<le> uint (kernel_esp s)" "uint (kernel_esp s) < 0x800000 - 0x2000 * pid"
    using assms pcb_addr_uint [OF assms(1,2)] by auto
  then have "uint (get_pcb s) = uint (kernel_esp s) div 0x2000 * 0x2000"
    using assms(1) unfolding get_pcb_def by (intro and_stack_mask) simp
  also have "uint (kernel_esp s) div 0x2000 = 1023 - pid"
    using r by (intro int_div_pos_eq [of _ _ _ "uint (kernel_esp s) - (1023 - pid) * 0x2000"]) auto
  finally have "uint (get_pcb s) = uint (pcb_addr pid)" using pcb_addr_uint [OF assms(1,2)] by simp
  then show ?thesis by (simp only: word_uint_eq_iff)
qed

section \<open>Frames of the process operations\<close>

lemma upd_pcb_simps [simp]:
  "pcb_at (upd_pcb p f s) = (pcb_at s)(p := f (pcb_at s p))" "get_pcb (upd_pcb p f s) = get_pcb s"
  "fs (upd_pcb p f s) = fs s" "paging (upd_pcb p f s) = paging s" "processes (upd_pcb p f s) = processes s"
  "frame_at (upd_pcb p f s) = frame_at s" "ops_table (upd_pcb p f s) = ops_table s"
  "tss_esp0 (upd_pcb p f s) = tss_esp0 s" "tss_ss0 (upd_pcb p f s) = tss_ss0 s"
  "kernel_esp (upd_pcb p f s) = kernel_esp s" "kernel_ebp (upd_pcb p f s) = kernel_ebp s"
  "current_terminal (upd_pcb p f s) = current_terminal s"
  by (simp_all add: upd_pcb_def get_pcb_def)

lemma upd_fd_simps [simp]:
  "fd_arr (upd_fd fd f p) = (fd_arr p)[nat fd := f (fd_arr p ! nat fd)]"
  "argument (upd_fd fd f p) = argument p" "proc_num (upd_fd fd f p) = proc_num p"
  "parent_proc_num (upd_fd fd f p) = parent_proc_num p" "esp (upd_fd fd f p) = esp p" "ebp (upd_fd fd f p) = ebp p"
  "terminal_num (upd_fd fd f p) = terminal_num p"
  by (simp_all add: upd_fd_def)

lemma set_program_page_simps [simp]:
  "pcb_at (set_program_page i s) = pcb_at s" "fs (set_program_page i s) = fs s"
  "processes (set_program_page i s) = processes s" "frame_at (set_program_page i s) = frame_at s"
  "kernel_esp (set_program_page i s) = kernel_esp s" "kernel_ebp (set_program_page i s) = kernel_ebp s"
  "get_pcb (set_program_page i s) = get_pcb s" "tss_esp0 (set_program_page i s) = tss_esp0 s"
  "current_terminal (set_program_page i s) = current_terminal s"
  "page_dir (paging (set_program_page i s)) = (page_dir (paging s))[32 := program_entry i]"
  by (simp_all add: set_program_page_def get_pcb_def)

text \<open>The terminal's invariant does not look at the process part of the state.\<close>

lemma term_inv_kernel [simp]:
  "term_inv (s\<lparr>processes := a\<rparr>) = term_inv s" "term_inv (s\<lparr>pcb_at := b\<rparr>) = term_inv s"
  "term_inv (s\<lparr>paging := c\<rparr>) = term_inv s" "term_inv (s\<lparr>frame_at := d\<rparr>) = term_inv s"
  "term_inv (s\<lparr>tss_esp0 := e\<rparr>) = term_inv s" "term_inv (s\<lparr>tss_ss0 := e\<rparr>) = term_inv s"
  "term_inv (s\<lparr>kernel_esp := e\<rparr>) = term_inv s" "term_inv (s\<lparr>kernel_ebp := e\<rparr>) = term_inv s"
  "term_inv (upd_pcb p f s) = term_inv s" "term_inv (set_program_page i s) = term_inv s"
  "term_inv (s\<lparr>int_flag := g\<rparr>) = term_inv s"
  by (simp_all add: term_inv_def line_inv_def slots_inv_def upd_pcb_def set_program_page_def)

lemma int_flag_kernel [simp]:
  "int_flag (upd_pcb p f s) = int_flag s" "int_flag (set_program_page i s) = int_flag s"
  by (simp_all add: upd_pcb_def set_program_page_def)

lemma int_flag_exec_pcb [simp]: "int_flag (exec_pcb i s) = int_flag s"
  by (simp add: exec_pcb_def Let_def)

lemma term_inv_exec_pcb [simp]: "term_inv (exec_pcb i s) = term_inv s"
  by (simp add: exec_pcb_def Let_def)

lemma of_option_Inr [simp]: "of_option r = Inr x \<longleftrightarrow> r = Some x"
  by (simp add: of_option_def split: option.split)

lemma free_slot_props:
  "i \<le> 6 \<Longrightarrow> i \<le> free_slot ps i \<and> free_slot ps i \<le> 6 \<and> (free_slot ps i < 6 \<longrightarrow> ps ! free_slot ps i = 0)
     \<and> (\<forall>j. i \<le> j \<and> j < free_slot ps i \<longrightarrow> ps ! j \<noteq> 0)"
proof (induction ps i rule: free_slot.induct)
  case (1 ps i)
  show ?case
  proof (cases "i < 6 \<and> ps ! i \<noteq> 0")
    case True
    then have "free_slot ps i = free_slot ps (Suc i)" by (subst free_slot.simps) simp
    moreover have "Suc i \<le> free_slot ps (Suc i) \<and> free_slot ps (Suc i) \<le> 6 \<and>
        (free_slot ps (Suc i) < 6 \<longrightarrow> ps ! free_slot ps (Suc i) = 0) \<and>
        (\<forall>j. Suc i \<le> j \<and> j < free_slot ps (Suc i) \<longrightarrow> ps ! j \<noteq> 0)"
      using "1.IH" True by simp
    moreover have "i \<le> j \<Longrightarrow> j = i \<or> Suc i \<le> j" for j by linarith
    ultimately show ?thesis using True by (metis Suc_leD)
  next
    case False
    then have "free_slot ps i = i" by (subst free_slot.simps) (simp only: if_False)
    with False 1 show ?thesis by auto
  qed
qed

lemma pcb_at_exec_pcb:
  "pcb_at (exec_pcb i s) = (pcb_at s)(pcb_addr (int i) := pcb_at (exec_pcb i s) (pcb_addr (int i)))"
  by (auto simp: exec_pcb_def Let_def)

lemma exec_pcb_fields [simp]:
  "processes (exec_pcb i s) = processes s" "paging (exec_pcb i s) = paging s" "fs (exec_pcb i s) = fs s"
  "frame_at (exec_pcb i s) = frame_at s" "kernel_esp (exec_pcb i s) = kernel_esp s"
  "tss_esp0 (exec_pcb i s) = EIGHTMB - EIGHTKB * of_nat i - 4"
  by (auto simp: exec_pcb_def Let_def)

lemma exec_pcb_new:
  defines "p s i \<equiv> pcb_at (exec_pcb i s) (pcb_addr (int i))"
  shows "proc_num (p s i) = int i" "esp (p s i) = kernel_esp s" "ebp (p s i) = kernel_ebp s"
    "terminal_num (p s i) = current_terminal s" "argument (p s i) = argument (pcb_at s (pcb_addr (int i)))"
    "i \<noteq> 0 \<Longrightarrow> get_pcb s \<noteq> pcb_addr (int i) \<Longrightarrow> parent_proc_num (p s i) = proc_num (cur_pcb s)"
    "length (fd_arr (pcb_at s (pcb_addr (int i)))) = 8 \<Longrightarrow> fd_operations (fd_arr (p s i) ! 0) = std_operations"
    "length (fd_arr (pcb_at s (pcb_addr (int i)))) = 8 \<Longrightarrow> fd_operations (fd_arr (p s i) ! 1) = std_operations"
  unfolding p_def by (cases "i = 0"; simp add: exec_pcb_def Let_def nth_list_update)+

text \<open>What a successful \<open>sys_execute\<close> has done.\<close>

lemma sys_execute_enter:
  assumes "sys_execute hb eb (Some command) s = Inr (Exec_enter e, t)"
  obtains i s1 where "i = free_slot (processes s) 0" and "i < 6"
    and "t = exec_pcb i s1"
    and "processes s1 = (processes s)[i := 1]" and "kernel_esp s1 = kernel_esp s" and "kernel_ebp s1 = kernel_ebp s"
    and "page_dir (paging s1) = (page_dir (paging s))[32 := program_entry (int i)]"
    and "\<And>a. a \<noteq> pcb_addr (int i) \<Longrightarrow> pcb_at s1 a = pcb_at s a"
    and "\<And>a. a \<noteq> page_dir (paging s1) ! 32 AND 0xFFC00000 \<Longrightarrow> frame_at s1 a = frame_at s a"
    and "fd_arr (pcb_at s1 (pcb_addr (int i))) = fd_arr (pcb_at s (pcb_addr (int i)))"
    and "current_terminal s1 = current_terminal s"
    and "paging s1 = with_program (int i) (paging s)" and "term_inv s1 = term_inv s"
    and "int_flag s1 = int_flag s" and "master_mask s1 = master_mask s" and "slave_mask s1 = slave_mask s"
proof -
  let ?i = "free_slot (processes s) 0"
  have i: "?i < 6" using assms free_slot_props [of 0 "processes s"]
    by (auto simp: sys_execute_def Let_def split: if_splits)
  with assms obtain ab s0 s1 and d :: dentry where
    prep: "exec_prepare command ?i (s\<lparr>processes := (processes s)[?i := 1]\<rparr>) = Some (ab, s0)"
    and load: "exec_load (inode_num d) ?i s0 = Some s1" and t: "t = exec_pcb ?i s1"
    by (auto simp: sys_execute_def Let_def bind_eq_Some_conv split: if_splits option.splits)
  from prep obtain arg where s0: "s0 = upd_pcb (pcb_addr (int ?i)) (\<lambda>p. p\<lparr>argument := arg\<rparr>) (s\<lparr>processes := (processes s)[?i := 1]\<rparr>)"
    by (auto simp: exec_prepare_def Let_def bind_eq_Some_conv)
  from load obtain page where
    s1: "s1 = (set_program_page (int ?i) s0)\<lparr>frame_at := (frame_at s0)(page_dir (paging (set_program_page (int ?i) s0)) ! 32 AND 0xFFC00000 := page)\<rparr>"
    by (auto simp: exec_load_def Let_def bind_eq_Some_conv)
  show ?thesis
    by (rule that [OF refl i t]) (simp_all add: s1 s0, simp_all add: set_program_page_def upd_pcb_def)
qed

section \<open>Parsing the command line\<close>

text \<open>The command word and the argument of a command line.\<close>

definition command_word :: "u8 list \<Rightarrow> u8 list" where
  "command_word c = takeWhile (\<lambda>b. b \<noteq> 32) c"

definition command_args :: "u8 list \<Rightarrow> u8 list" where
  "command_args c = drop (Suc (length (command_word c))) c"

lemma length_command_word: "length (command_word c) \<le> length c"
  by (simp add: command_word_def length_takeWhile_le)

lemma nth_command_word:
  "i < length (command_word c) \<Longrightarrow> c ! i = command_word c ! i \<and> c ! i \<noteq> 32"
  by (metis (mono_tags, lifting) command_word_def nth_mem set_takeWhileD takeWhile_nth)

lemma nth_command_space: "length (command_word c) < length c \<Longrightarrow> c ! length (command_word c) = 32"
  unfolding command_word_def using nth_length_takeWhile [of "\<lambda>b. b \<noteq> 32" c] by simp

lemma copy_command_eq:
  fixes command :: "u8 list"
  defines "c \<equiv> cstr command"
  assumes "0 \<in> set command" and "length c < length ab" and "i \<le> length (command_word c)"
  shows "copy_command command (length c) ab i =
    (if length (command_word c) < length c
     then Some (take i ab @ drop i (command_word c) @ 0 # drop (Suc (length (command_word c))) ab,
                length (command_word c), True)
     else Some (take i ab @ drop i c @ drop (length c) ab, length c, False))"
  using assms(3,4)
proof (induction "length (command_word c) - i" arbitrary: i ab)
  case 0
  then have i: "i = length (command_word c)" by simp
  have ic: "i \<le> length c" using i length_command_word by simp
  show ?case
  proof (cases "i < length c")
    case True
    then have "rd command i = Some 32"
      using i nth_command_space [of c] length_cstr_less [OF assms(2)] nth_cstr [of i command]
      by (simp add: c_def)
    with True i 0 show ?thesis
      by (subst copy_command.simps) (simp add: upd_conv_take_nth_drop)
  next
    case False
    with i ic 0 show ?thesis by (subst copy_command.simps) simp
  qed
next
  case (Suc k)
  then have l: "i < length (command_word c)" by simp
  then have ic: "i < length c" using length_command_word less_le_trans by blast
  have rdc: "rd command i = Some (command_word c ! i)" and ns: "command_word c ! i \<noteq> 32"
    using ic l nth_command_word [of i c] length_cstr_less [OF assms(2)] nth_cstr [of i command]
    by (auto simp: c_def)
  let ?ab = "ab[i := command_word c ! i]"
  have "copy_command command (length c) ab i = copy_command command (length c) ?ab (Suc i)"
    using ic rdc ns Suc.prems by (subst copy_command.simps) simp
  also have "\<dots> = (if length (command_word c) < length c
     then Some (take (Suc i) ?ab @ drop (Suc i) (command_word c) @ 0 # drop (Suc (length (command_word c))) ?ab,
                length (command_word c), True)
     else Some (take (Suc i) ?ab @ drop (Suc i) c @ drop (length c) ?ab, length c, False))"
    using l Suc.prems Suc.hyps(2) by (intro Suc.hyps(1)) auto
  finally have step: "copy_command command (length c) ab i = \<dots>" .
  have t: "take (Suc i) ?ab = take i ab @ [command_word c ! i]"
    using ic Suc.prems by (simp add: take_Suc_conv_app_nth)
  have "drop i (command_word c) = command_word c ! i # drop (Suc i) (command_word c)"
    using l by (simp add: Cons_nth_drop_Suc)
  moreover have "drop i c = command_word c ! i # drop (Suc i) c"
    using ic l nth_command_word [of i c] by (metis Cons_nth_drop_Suc)
  ultimately show ?case using l ic by (simp add: step t)
qed

lemma copy_arguments_eq:
  fixes command :: "u8 list"
  defines "c \<equiv> cstr command"
  assumes "0 \<in> set command" and "length c - i < length arg" and "j \<le> length c - i"
  shows "copy_arguments command (length c) i arg j =
    Some (take j arg @ drop (i + j) c @ 0 # drop (Suc (length c - i)) arg)"
  using assms(3,4)
proof (induction "length c - i - j" arbitrary: j arg)
  case 0
  then have j: "j = length c - i" by simp
  then have "drop (i + j) c = []" by simp
  with j 0(2) show ?case by (subst copy_arguments.simps) (simp add: upd_conv_take_nth_drop)
next
  case (Suc k)
  then have l: "j < length c - i" by simp
  then have rdc: "rd command (j + i) = Some (c ! (i + j))"
    using length_cstr_less [OF assms(2)] nth_cstr [of "i + j" command] by (simp add: c_def add.commute)
  let ?arg = "arg[j := c ! (i + j)]"
  have "copy_arguments command (length c) i arg j = copy_arguments command (length c) i ?arg (Suc j)"
    using l rdc Suc.prems by (subst copy_arguments.simps) simp
  also have "\<dots> = Some (take (Suc j) ?arg @ drop (i + Suc j) c @ 0 # drop (Suc (length c - i)) ?arg)"
    using l Suc.prems Suc.hyps(2) by (intro Suc.hyps(1)) auto
  finally have step: "copy_arguments command (length c) i arg j = \<dots>" .
  have "take (Suc j) ?arg = take j arg @ [c ! (i + j)]"
    using l Suc.prems by (simp add: take_Suc_conv_app_nth)
  moreover have "drop (i + j) c = c ! (i + j) # drop (i + Suc j) c"
    using l by (simp add: Cons_nth_drop_Suc)
  ultimately show ?case using l by (simp add: step)
qed

lemma parse_command_eq:
  fixes command :: "u8 list"
  defines "c \<equiv> cstr command"
  assumes "0 \<in> set command" and "length c < 1000" and "length (command_args c) < length arg"
  shows "\<exists>rest. parse_command command arg =
    Some (command_word c @ 0 # rest,
          if length (command_word c) < length c then command_args c @ 0 # drop (Suc (length (command_args c))) arg else arg)"
proof (cases "length (command_word c) < length c")
  case True
  have s: "strlen command = Some (length c)" using assms(2) by (simp add: strlen_eq c_def)
  have cc: "copy_command command (length c) (replicate 1000 0) 0 =
      Some (command_word c @ 0 # drop (Suc (length (command_word c))) (replicate 1000 0), length (command_word c), True)"
    using copy_command_eq [OF assms(2), of "replicate 1000 0" 0] assms(3) True
    by (simp add: c_def del: drop_replicate)
  have ca: "copy_arguments command (length c) (Suc (length (command_word c))) arg 0 =
      Some (command_args c @ 0 # drop (Suc (length (command_args c))) arg)"
    using copy_arguments_eq [OF assms(2), of "Suc (length (command_word c))" arg 0] assms(4)
    by (simp add: c_def command_args_def)
  show ?thesis using True by (simp add: parse_command_def s cc ca)
next
  case False
  then have w: "command_word c = c"
    by (metis command_word_def length_command_word nat_less_le takeWhile_eq_take take_all)
  have s: "strlen command = Some (length c)" using assms(2) by (simp add: strlen_eq c_def)
  have cc: "copy_command command (length c) (replicate 1000 0) 0 =
      Some (c @ drop (length c) (replicate 1000 0), length c, False)"
    using copy_command_eq [OF assms(2), of "replicate 1000 0" 0] assms(3) False
    by (simp add: c_def del: drop_replicate)
  have "wr (c @ drop (length c) (replicate 1000 0)) (length c) 0 = Some (c @ 0 # drop (Suc (length c)) (replicate 1000 0))"
    using assms(3) by (simp add: list_update_append Cons_nth_drop_Suc [symmetric] del: drop_replicate)
  then show ?thesis using False by (simp add: parse_command_def s cc w)
qed

section \<open>Executing and halting\<close>

text \<open>The process table entry, control block and stack of a running process.\<close>

definition runs :: "int \<Rightarrow> 'a kernel_scheme \<Rightarrow> bool" where
  "runs pid s \<longleftrightarrow> 0 \<le> pid \<and> pid < 6 \<and> get_pcb s = pcb_addr pid \<and> proc_num (cur_pcb s) = pid
     \<and> processes s ! nat pid \<noteq> 0 \<and> length (processes s) = 6"

lemma esp0_uint: "i < 6 \<Longrightarrow> uint (EIGHTMB - EIGHTKB * of_nat i - 4 :: u32) = 0x800000 - 0x2000 * int i - 4"
proof -
  assume i: "i < 6"
  have "EIGHTMB - EIGHTKB * of_nat i - 4 = (word_of_int (0x800000 - 0x2000 * int i - 4) :: u32)"
    by (simp only: of_int_diff of_int_mult of_int_numeral of_int_of_nat_eq)
  then have "uint (EIGHTMB - EIGHTKB * of_nat i - 4) = (0x800000 - 0x2000 * int i - 4) mod 2 ^ 32"
    by (simp only: uint_word_of_int) simp
  also have "\<dots> = 0x800000 - 0x2000 * int i - 4" using i by (intro mod_pos_pos_trivial) auto
  finally show ?thesis .
qed

lemma get_pcb_esp0:
  assumes "i < 6"
  shows "get_pcb (s\<lparr>kernel_esp := EIGHTMB - EIGHTKB * of_nat i - 4\<rparr>) = pcb_addr (int i)"
proof (rule get_pcb_on_stack)
  have sel: "kernel_esp (s\<lparr>kernel_esp := x\<rparr>) = x" for x by simp
  have u: "uint (kernel_esp (s\<lparr>kernel_esp := EIGHTMB - EIGHTKB * of_nat i - 4\<rparr>)) = 0x800000 - 0x2000 * int i - 4"
    unfolding sel using assms by (rule esp0_uint)
  show "0 \<le> int i" "int i < 6" using assms by simp_all
  then show "uint (pcb_addr (int i)) \<le> uint (kernel_esp (s\<lparr>kernel_esp := EIGHTMB - EIGHTKB * of_nat i - 4\<rparr>))"
    "uint (kernel_esp (s\<lparr>kernel_esp := EIGHTMB - EIGHTKB * of_nat i - 4\<rparr>)) < uint (pcb_addr (int i)) + 0x2000"
    unfolding u by (simp_all only: pcb_addr_uint) simp_all
qed

lemma pcb_addr_nonzero: "0 \<le> pid \<Longrightarrow> pid < 6 \<Longrightarrow> pcb_addr pid \<noteq> 0"
proof
  assume "0 \<le> pid" "pid < 6" and z: "pcb_addr pid = 0"
  then have "0x800000 - 0x2000 * (pid + 1) = 0" using pcb_addr_uint [of pid] by (simp only: unsigned_0)
  with \<open>pid < 6\<close> show False by simp
qed

lemma halt_close_fields:
  fixes u :: "'a kernel_scheme"
  shows "processes (halt_close u) = (processes u)[nat (proc_num (cur_pcb u)) := 0]"
    and "paging (halt_close u) = paging u"
    and "proc_num (pcb_at (halt_close u) a) = proc_num (pcb_at u a)"
    and "parent_proc_num (pcb_at (halt_close u) a) = parent_proc_num (pcb_at u a)"
    and "esp (pcb_at (halt_close u) a) = esp (pcb_at u a)" and "ebp (pcb_at (halt_close u) a) = ebp (pcb_at u a)"
    and "a \<noteq> get_pcb u \<Longrightarrow> pcb_at (halt_close u) a = pcb_at u a"
    and "frame_at (halt_close u) = frame_at u"
  by (simp_all add: halt_close_def Let_def)

text \<open>Halting any process but the base shell resumes its parent.\<close>

lemma sys_halt_child:
  assumes "get_pcb u \<noteq> 0" and "proc_num (cur_pcb u) \<noteq> 0"
  shows "sys_halt hb eb status u = Inr (halt_restore status (get_pcb u) (halt_close u))"
  using assms by (simp add: sys_halt_def Let_def halt_close_fields)

section \<open>A program that can be started\<close>

text \<open>
  The conditions under which \<open>sys_execute\<close> starts the program: a terminated command line that
  fits the two buffers, a free slot, and a directory entry for the command word that leads to a
  well-formed ELF file that fits into the program's page.
\<close>

definition startable :: "u8 list \<Rightarrow> nat \<Rightarrow> nat \<Rightarrow> u32 \<Rightarrow> 'a kernel_scheme \<Rightarrow> bool" where
  "startable command i k ino s \<longleftrightarrow>
     0 \<in> set command \<and> length (cstr command) < 1000 \<and> length (command_args (cstr command)) < 128
     \<and> i = free_slot (processes s) 0 \<and> i < 6 \<and> length (processes s) = 6
     \<and> length (argument (pcb_at s (pcb_addr (int i)))) = 128 \<and> length (fd_arr (pcb_at s (pcb_addr (int i)))) = 8
     \<and> find (\<lambda>k. dir_name (fs s) k = command_word (cstr command)) [0..<unat (dir_count (fs s))] = Some k
     \<and> ino = inode_num (dir_entry (fs s) k) \<and> wf_file (fs s) ino
     \<and> 40 \<le> length (file_content (fs s) ino) \<and> take 4 (file_content (fs s) ino) = [0x7F, 0x45, 0x4C, 0x46]
     \<and> length (file_content (fs s) ino) \<le> 0x400000 - 0x48000
     \<and> length (frame_at s (program_frame (int i))) = 0x400000 \<and> length (page_dir (paging s)) = 1024"

lemma nul_notin_command_word: "0 \<notin> set (command_word (cstr c))"
  unfolding command_word_def using nul_notin_cstr by (metis set_takeWhileD)

lemma exec_prepare_eq:
  assumes "0 \<in> set command" and "length (cstr command) < 1000"
    and "length (command_args (cstr command)) < length (argument (pcb_at s (pcb_addr (int i))))"
  obtains rest arg where "exec_prepare command i s =
      Some (command_word (cstr command) @ 0 # rest, upd_pcb (pcb_addr (int i)) (\<lambda>p. p\<lparr>argument := arg\<rparr>) s)"
    and "arg = (if length (command_word (cstr command)) < length (cstr command)
       then command_args (cstr command) @ 0 # drop (Suc (length (command_args (cstr command)))) (argument (pcb_at s (pcb_addr (int i))))
       else argument (pcb_at s (pcb_addr (int i))))"
proof -
  from parse_command_eq [OF assms] obtain rest where
    p: "parse_command command (argument (pcb_at s (pcb_addr (int i)))) =
      Some (command_word (cstr command) @ 0 # rest,
        if length (command_word (cstr command)) < length (cstr command)
        then command_args (cstr command) @ 0 # drop (Suc (length (command_args (cstr command)))) (argument (pcb_at s (pcb_addr (int i))))
        else argument (pcb_at s (pcb_addr (int i))))" ..
  show ?thesis by (rule that [OF _ refl]) (simp only: exec_prepare_def Let_def p bind.simps split_conv)
qed

lemma lookup_command:
  assumes "find (\<lambda>k. dir_name fsy k = w) [0..<unat (dir_count fsy)] = Some k" and "0 \<notin> set w"
  shows "read_dentry_by_name fsy (Some (w @ 0 # rest)) blank_dentry = Some (0, dir_entry fsy k)"
  using scan_dentries_eq [of "w @ 0 # rest" blank_dentry fsy 0] assms
  by (simp add: read_dentry_by_name_def blank_dentry_def)

lemma exec_header_elf:
  assumes wf: "wf_file fsy ino" and len: "40 \<le> length (file_content fsy ino)"
    and elf: "take 4 (file_content fsy ino) = [0x7F, 0x45, 0x4C, 0x46]"
    and bufs: "length hb = 40" "length eb = 4"
  shows "exec_header hb eb ino fsy = Some (Some (le_word (take 4 (drop 24 (file_content fsy ino)))))"
proof -
  let ?F = "file_content fsy ino"
  have h: "read_data fsy ino 0 hb 40 = Some (40, take 40 ?F)"
    using len bufs read_data_eq [OF wf, of 0 40 hb] by (simp add: Let_def)
  have e: "read_data fsy ino 24 eb 4 = Some (4, take 4 (drop 24 ?F))"
    using len bufs read_data_eq [OF wf, of 24 4 eb] by (simp add: Let_def)
  have n: "?F ! j = [0x7F, 0x45, 0x4C, 0x46] ! j" if "j < 4" for j using that elf by (metis nth_take)
  have "?F ! 0 = 0x7F" "?F ! 1 = 0x45" "?F ! 2 = 0x4C" "?F ! 3 = 0x46"
    using n [of 0] n [of 1] n [of 2] n [of 3] by simp_all
  with h e show ?thesis by (simp add: exec_header_def)
qed

lemma exec_load_eq:
  assumes wf: "wf_file (fs s) ino" and i: "i < 6" and pd: "length (page_dir (paging s)) = 1024"
    and page: "0x48000 + length (file_content (fs s) ino) \<le> length (frame_at s (program_frame (int i)))"
    and small: "length (file_content (fs s) ino) + 100 < 2 ^ 32"
  shows "exec_load ino i s = Some ((set_program_page (int i) s)\<lparr>frame_at := (frame_at s)(program_frame (int i) :=
    take 0x48000 (frame_at s (program_frame (int i))) @ file_content (fs s) ino @
    drop (0x48000 + length (file_content (fs s) ino)) (frame_at s (program_frame (int i))))\<rparr>)"
proof -
  have fr: "page_dir (paging (set_program_page (int i) s)) ! 32 AND 0xFFC00000 = program_frame (int i)"
    using pd i program_entry_bits(3) [of "int i"] by simp
  show ?thesis
    using fs_file.load_program_eq [of "(fs s, ino)"] wf page small fr
    by (simp add: exec_load_def Let_def)
qed

section \<open>Properties\<close>

text \<open>
  \<open>get_pcb\<close> finds the control block of the running process: whatever the depth of the
  kernel stack, any stack pointer inside the 8 KB stack of process \<open>pid\<close> is masked to the bottom
  of that stack, where \<open>sys_execute\<close> put the control block; the stack pointer \<open>sys_execute\<close>
  stores in the task state segment is such a pointer.
\<close>

lemma get_pcb_finds_process:
  assumes "0 \<le> pid" "pid < 6"
    and "0x800000 - 0x2000 * (pid + 1) \<le> uint (kernel_esp s)" "uint (kernel_esp s) < 0x800000 - 0x2000 * pid"
  shows "get_pcb s = pcb_addr pid
    \<and> get_pcb (t\<lparr>kernel_esp := EIGHTMB - EIGHTKB * of_nat (nat pid) - 4\<rparr>) = pcb_addr pid"
proof -
  have "get_pcb s = pcb_addr pid"
    using assms pcb_addr_uint [OF assms(1,2)] by (intro get_pcb_on_stack) auto
  moreover have "get_pcb (t\<lparr>kernel_esp := EIGHTMB - EIGHTKB * of_nat (nat pid) - 4\<rparr>) = pcb_addr pid"
    using get_pcb_esp0 [of "nat pid" t] assms(1,2) by simp
  ultimately show ?thesis by simp
qed

text \<open>
  C7: \<open>sys_execute\<close> and \<open>sys_halt\<close> are a call and its return. If process \<open>pid\<close> executes a
  program and the child, running on the kernel stack it was given, later halts with a status, then
  the parent resumes on its own stack and base pointer, with its own page mapped at 128 MB, its
  own kernel stack in the task state segment and its control block untouched; the child's process slot
  is free again, no other slot changed, and \<open>sys_execute\<close> returns the child's status.
\<close>

theorem execute_halt_round_trip:
  assumes exec: "sys_execute hb eb (Some command) s = Inr (Exec_enter e, t)"
    and parent: "runs pid s" "processes s ! 0 \<noteq> 0"
    and child: "get_pcb u = get_pcb (t\<lparr>kernel_esp := tss_esp0 t\<rparr>)" "processes u = processes t"
      "proc_num (cur_pcb u) = proc_num (pcb_at t (get_pcb u))"
      "parent_proc_num (cur_pcb u) = parent_proc_num (pcb_at t (get_pcb u))"
      "esp (cur_pcb u) = esp (pcb_at t (get_pcb u))" "ebp (cur_pcb u) = ebp (pcb_at t (get_pcb u))"
      "length (page_dir (paging u)) = 1024"
  shows "\<exists>v. sys_halt hb' eb' status u = Inr (Halt_resume (uint status), v)
    \<and> kernel_esp v = kernel_esp s \<and> kernel_ebp v = kernel_ebp s
    \<and> page_dir (paging v) ! 32 = program_entry pid
    \<and> tss_esp0 v = EIGHTMB - EIGHTKB * word_of_int pid - 4
    \<and> pcb_at v (pcb_addr pid) = pcb_at u (pcb_addr pid) \<and> processes v = processes s"
proof -
  from sys_execute_enter [OF exec] obtain i s1 where i: "i = free_slot (processes s) 0" "i < 6"
    and t: "t = exec_pcb i s1" and s1: "processes s1 = (processes s)[i := 1]" "kernel_esp s1 = kernel_esp s"
      "kernel_ebp s1 = kernel_ebp s" and pcbs: "\<And>a. a \<noteq> pcb_addr (int i) \<Longrightarrow> pcb_at s1 a = pcb_at s a"
    by metis
  have free: "processes s ! i = 0" using free_slot_props [of 0 "processes s"] i by simp
  have pid: "0 \<le> pid" "pid < 6" "get_pcb s = pcb_addr pid" "proc_num (cur_pcb s) = pid" "length (processes s) = 6"
    using parent(1) unfolding runs_def by blast+
  have i0: "i \<noteq> 0" using free parent(2) by metis
  have "int i \<noteq> pid" using free parent(1) unfolding runs_def by (metis nat_int)
  then have ne: "pcb_addr (int i) \<noteq> pcb_addr pid" using pcb_addr_inj [of "int i" pid] pid i(2) by simp
  have g1: "get_pcb s1 = pcb_addr pid" using s1(2) pid(3) by (simp add: get_pcb_def)
  have gu: "get_pcb u = pcb_addr (int i)" using child(1) get_pcb_esp0 [OF i(2), of t] by (simp add: t)
  have par: "parent_proc_num (pcb_at t (get_pcb u)) = pid"
    using exec_pcb_new(6) [OF i0, of s1] g1 ne pcbs [of "pcb_addr pid"] pid(3,4) by (simp add: t gu)
  have pn: "proc_num (cur_pcb u) = int i" using child(3) exec_pcb_new(1) [of i s1] by (simp add: t gu)
  have "esp (cur_pcb u) = kernel_esp s" "ebp (cur_pcb u) = kernel_ebp s"
    using child(5,6) exec_pcb_new(2,3) [of i s1] s1 by (simp_all add: t gu)
  moreover have "(processes u)[i := 0] = processes s"
    using child(2) s1(1) free pid(5) i(2) by (simp add: t) (metis list_update_id)
  moreover have "uint (status AND 0xFF) = uint status"
  proof -
    have "(0xFF :: u8) = mask 8" by (simp add: mask_eq_exp_minus_1)
    then have "status AND 0xFF = take_bit 8 status" by (simp add: take_bit_eq_mask)
    also have "\<dots> = status" by (rule take_bit_word_eq_self) simp
    finally show ?thesis by (rule arg_cong)
  qed
  moreover have "sys_halt hb' eb' status u = Inr (halt_restore status (get_pcb u) (halt_close u))"
    using pn i0 i(2) pcb_addr_nonzero [of "int i"] by (intro sys_halt_child) (simp_all add: gu)
  ultimately show ?thesis
    using par child(4,7) pn ne by (simp add: halt_restore_def Let_def halt_close_fields gu)
qed

lemma sys_execute_startable:
  assumes "startable command i k ino s" and "length hb = 40" "length eb = 4"
  defines "F \<equiv> file_content (fs s) ino" and "c \<equiv> cstr command" and "pa \<equiv> pcb_addr (int i)"
  obtains s1 where "sys_execute hb eb (Some command) s = Inr (Exec_enter (le_word (take 4 (drop 24 F))), exec_pcb i s1)"
    and "frame_at s1 = (frame_at s)(program_frame (int i) :=
      take 0x48000 (frame_at s (program_frame (int i))) @ F @ drop (0x48000 + length F) (frame_at s (program_frame (int i))))"
    and "page_dir (paging s1) = (page_dir (paging s))[32 := program_entry (int i)]"
    and "processes s1 = (processes s)[i := 1]"
    and "pcb_at s1 = (pcb_at s)(pa := (pcb_at s pa)\<lparr>argument :=
      if length (command_word c) < length c then command_args c @ 0 # drop (Suc (length (command_args c))) (argument (pcb_at s pa))
      else argument (pcb_at s pa)\<rparr>)"
    and "kernel_esp s1 = kernel_esp s" and "fs s1 = fs s"
proof -
  let ?s0 = "s\<lparr>processes := (processes s)[i := 1]\<rparr>"
  have st: "0 \<in> set command" "length (cstr command) < 1000" "length (command_args (cstr command)) < 128"
    "i = free_slot (processes s) 0" "i < 6" "length (argument (pcb_at s (pcb_addr (int i)))) = 128"
    "find (\<lambda>k. dir_name (fs s) k = command_word (cstr command)) [0..<unat (dir_count (fs s))] = Some k"
    "ino = inode_num (dir_entry (fs s) k)" "wf_file (fs s) ino" "40 \<le> length F"
    "take 4 F = [0x7F, 0x45, 0x4C, 0x46]" "length F \<le> 0x400000 - 0x48000"
    "length (frame_at s (program_frame (int i))) = 0x400000" "length (page_dir (paging s)) = 1024"
    using assms(1) unfolding startable_def F_def by blast+
  have "length (command_args (cstr command)) < length (argument (pcb_at ?s0 (pcb_addr (int i))))"
    using st by simp
  from exec_prepare_eq [OF st(1,2) this] obtain rest arg where
    prep: "exec_prepare command i ?s0 = Some (command_word c @ 0 # rest, upd_pcb pa (\<lambda>p. p\<lparr>argument := arg\<rparr>) ?s0)"
    and arg: "arg = (if length (command_word c) < length c
       then command_args c @ 0 # drop (Suc (length (command_args c))) (argument (pcb_at ?s0 pa)) else argument (pcb_at ?s0 pa))"
    unfolding c_def pa_def by metis
  define s0 where "s0 = upd_pcb pa (\<lambda>p. p\<lparr>argument := arg\<rparr>) ?s0"
  have s0: "fs s0 = fs s" "frame_at s0 = frame_at s" "paging s0 = paging s" "kernel_esp s0 = kernel_esp s"
    by (simp_all add: s0_def)
  have look: "read_dentry_by_name (fs s0) (Some (command_word c @ 0 # rest)) blank_dentry = Some (0, dir_entry (fs s) k)"
    using lookup_command [OF st(7) nul_notin_command_word] by (simp add: s0 c_def)
  have hdr: "exec_header hb eb (inode_num (dir_entry (fs s) k)) (fs s0) = Some (Some (le_word (take 4 (drop 24 F))))"
    using exec_header_elf [OF st(9)] st(10,11) assms(2,3) st(8) by (simp add: s0 F_def)
  define s1 where "s1 = (set_program_page (int i) s0)\<lparr>frame_at := (frame_at s0)(program_frame (int i) :=
      take 0x48000 (frame_at s0 (program_frame (int i))) @ F @ drop (0x48000 + length F) (frame_at s0 (program_frame (int i))))\<rparr>"
  have load: "exec_load (inode_num (dir_entry (fs s) k)) i s0 = Some s1"
    using exec_load_eq [of s0 ino i] st(5,8,9,12,13,14) by (simp add: s0 s1_def F_def)
  have "sys_execute hb eb (Some command) s = Inr (Exec_enter (le_word (take 4 (drop 24 F))), exec_pcb i s1)"
    using st(4,5) prep look hdr load by (simp add: sys_execute_def Let_def s0_def)
  then show ?thesis
    by (rule that) (simp_all add: s1_def s0 s0_def arg)
qed

text \<open>
  C9: \<open>sys_execute\<close> of a startable program takes the first free process slot, copies the
  whole file to 0x08048000 in that process's own frame and maps that frame at 128 MB, stores the rest of
  the command line as the argument, connects descriptors 0 and 1 to the terminal, and enters user
  mode at the entry point in bytes 24 to 27 of the file. Frames, slots and control blocks of other
  processes are not touched.
\<close>

theorem sys_execute_loads_program:
  fixes s :: "'a kernel_scheme"
  assumes "startable command i k ino s" and "length hb = 40" "length eb = 4"
  shows "\<exists>F fr t. F = file_content (fs s) ino \<and> fr = frame_at s (program_frame (int i))
    \<and> sys_execute hb eb (Some command) s = Inr (Exec_enter (le_word (take 4 (drop 24 F))), t)
    \<and> frame_at t = (frame_at s)(program_frame (int i) := take 0x48000 fr @ F @ drop (0x48000 + length F) fr)
    \<and> page_dir (paging t) = (page_dir (paging s))[32 := program_entry (int i)]
    \<and> processes t = (processes s)[i := 1]
    \<and> (a = pcb_addr (int i) \<or> pcb_at t a = pcb_at s a)
    \<and> fd_operations (fd_arr (pcb_at t (pcb_addr (int i))) ! 0) = std_operations
    \<and> fd_operations (fd_arr (pcb_at t (pcb_addr (int i))) ! 1) = std_operations
    \<and> proc_num (pcb_at t (pcb_addr (int i))) = int i
    \<and> (length (command_word (cstr command)) < length (cstr command) \<longrightarrow>
        cstr (argument (pcb_at t (pcb_addr (int i)))) = command_args (cstr command))"
proof -
  let ?F = "file_content (fs s) ino" and ?c = "cstr command" and ?pa = "pcb_addr (int i)"
  from sys_execute_startable [OF assms] obtain s1 where
    ex: "sys_execute hb eb (Some command) s = Inr (Exec_enter (le_word (take 4 (drop 24 ?F))), exec_pcb i s1)"
    and s1: "frame_at s1 = (frame_at s)(program_frame (int i) :=
        take 0x48000 (frame_at s (program_frame (int i))) @ ?F @ drop (0x48000 + length ?F) (frame_at s (program_frame (int i))))"
      "page_dir (paging s1) = (page_dir (paging s))[32 := program_entry (int i)]"
      "processes s1 = (processes s)[i := 1]"
    and pcb: "pcb_at s1 = (pcb_at s)(?pa := (pcb_at s ?pa)\<lparr>argument :=
      if length (command_word ?c) < length ?c then command_args ?c @ 0 # drop (Suc (length (command_args ?c))) (argument (pcb_at s ?pa))
      else argument (pcb_at s ?pa)\<rparr>)"
    by metis
  have "length (fd_arr (pcb_at s ?pa)) = 8" using assms(1) unfolding startable_def by blast
  then have fd: "length (fd_arr (pcb_at s1 ?pa)) = 8" by (simp add: pcb)
  have "set (command_args ?c) \<subseteq> set ?c" by (simp add: command_args_def set_drop_subset)
  then have "0 \<notin> set (command_args ?c)" using nul_notin_cstr by blast
  then have "length (command_word ?c) < length ?c \<longrightarrow> cstr (argument (pcb_at (exec_pcb i s1) ?pa)) = command_args ?c"
    by (simp add: exec_pcb_new pcb)
  moreover have "a = ?pa \<or> pcb_at (exec_pcb i s1) a = pcb_at s a"
    by (subst pcb_at_exec_pcb) (simp add: pcb)
  ultimately show ?thesis
    using ex s1 exec_pcb_new(7,8) [OF fd] by (auto simp: exec_pcb_new)
qed

text \<open>A concrete machine: process 0 runs and the file system holds one ELF file under the
  names \<open>ls\<close> and \<open>shell\<close>, in an image at 5 MB; at 0x10000 is the boot information, whose one module, described at
  0x10100, is the file system.\<close>

definition demo_mem :: memory where
  "demo_mem = (\<lambda>_. 0)(0x500000 := 2, 0x500004 := 1, 0x500008 := 1, 0x500040 := 108, 0x500041 := 115, 0x500060 := 2,
     0x500080 := 115, 0x500081 := 104, 0x500082 := 101, 0x500083 := 108, 0x500084 := 108, 0x5000A0 := 2, 0x501000 := 40,
     0x502000 := 0x7F, 0x502001 := 0x45, 0x502002 := 0x4C, 0x502003 := 0x46, 0x502018 := 0x20, 0x502019 := 0x80, 0x50201A := 0x04, 0x50201B := 0x08,
     0x10000 := 8, 0x10014 := 1, 0x10019 := 1, 0x1001A := 1, 0x10102 := 0x50)"

definition demo_fs :: fsys where
  "demo_fs = fsystem_init demo_mem 0x500000"

definition demo_pcb :: pcb where
  "demo_pcb = \<lparr>fd_arr = replicate 8 clear_fd, argument = replicate 128 0, proc_num = 0, parent_proc_num = 0,
     ebp = 0, esp = 0, terminal_num = 1\<rparr>"

definition demo_kernel :: kernel where
  "demo_kernel = terminal.extend bss_terminal
     (kernel.fields demo_fs blank_dentry 0 \<lparr>page_dir = replicate 1024 0, page_table = [], video_table = replicate 1024 0\<rparr>
       [1, 0, 0, 0, 0, 0] (\<lambda>_. demo_pcb) (\<lambda>_. replicate 0x400000 0)
       (\<lambda>_. \<lparr>read_function = Null_fn, write_function = Null_fn, open_function = Null_fn, close_function = Null_fn\<rparr>)
       0x7FFFFC 0x18 0x7FFF00 0x7FFF40 demo_pcb)"

lemma demo_kernel_fields [simp]:
  "fs demo_kernel = demo_fs" "processes demo_kernel = [1, 0, 0, 0, 0, 0]" "pcb_at demo_kernel = (\<lambda>_. demo_pcb)"
  "frame_at demo_kernel = (\<lambda>_. replicate 0x400000 0)" "kernel_esp demo_kernel = 0x7FFF00"
  "length (page_dir (paging demo_kernel)) = 1024" "length (video_table (paging demo_kernel)) = 1024"
  "get_pcb demo_kernel = 0x7FE000"
  by (simp_all add: demo_kernel_def terminal.defs kernel.defs get_pcb_def)

lemma demo_fs_fields:
  "dir_count demo_fs = 2" "boot_inode_count demo_fs = 1" "data_count demo_fs = 1"
  "inode_length demo_fs 0 = 40" "data_block_num demo_fs 0 0 = 0"
  "data_block_first demo_fs = 0x502000" "fs_mem demo_fs = demo_mem"
  "inode_num (dir_entry demo_fs 0) = 0" "filetype (dir_entry demo_fs 0) = 2"
  "inode_num (dir_entry demo_fs 1) = 0" "filetype (dir_entry demo_fs 1) = 2"
  by (simp_all add: demo_fs_def fsystem_init_def dir_count_def boot_inode_count_def data_count_def
      inode_length_def data_block_num_def read_u32_def demo_mem_def dir_entry_def direntry_addr_def)

lemma demo_dir_name: "dir_name demo_fs 0 = bytes ''ls''" "dir_name demo_fs 1 = bytes ''shell''"
proof -
  let ?o = "direntry_obj demo_fs 0" and ?p = "direntry_obj demo_fs 1"
  have take_o: "take 3 ?o = [108, 115, 0]" and take_p: "take 6 ?p = [115, 104, 101, 108, 108, 0]"
    by (simp_all add: direntry_obj_def obj_at_def take_map upt_conv_Cons direntry_addr_def demo_fs_def fsystem_init_def demo_mem_def)
  have "?o = [108, 115] @ 0 # drop 3 ?o" using append_take_drop_id [of 3 ?o] by (simp add: take_o)
  then have "cstr ?o = [108, 115]" using cstr_append_nul [of "[108, 115]" "drop 3 ?o"] by simp
  then show "dir_name demo_fs 0 = bytes ''ls''" by (simp add: dir_name_def bytes_def)
  have "?p = [115, 104, 101, 108, 108] @ 0 # drop 6 ?p" using append_take_drop_id [of 6 ?p] by (simp add: take_p)
  then have "cstr ?p = [115, 104, 101, 108, 108]" using cstr_append_nul [of "[115, 104, 101, 108, 108]" "drop 6 ?p"] by simp
  then show "dir_name demo_fs 1 = bytes ''shell''" by (simp add: dir_name_def bytes_def)
qed

lemma demo_elf: "take 4 (file_content demo_fs 0) = [0x7F, 0x45, 0x4C, 0x46]"
proof -
  have fb: "file_byte demo_fs 0 j = demo_mem (0x502000 + of_nat j)" if "j < 4096" for j
    using that by (simp add: file_byte_def demo_fs_fields)
  have "take 4 (file_content demo_fs 0) = map (file_byte demo_fs 0) [0..<4]"
    by (simp add: file_content_def demo_fs_fields take_map)
  also have "[0..<4] = [0, 1, 2, 3 :: nat]" by code_simp
  also have "map (file_byte demo_fs 0) [0, 1, 2, 3] = [0x7F, 0x45, 0x4C, 0x46]"
    by (simp add: fb) (simp add: demo_mem_def)
  finally show ?thesis .
qed

lemma demo_wf: "wf_file demo_fs 0"
  by (simp add: wf_file_def demo_fs_fields)

lemma demo_pcb_fields [simp]:
  "fd_arr demo_pcb = replicate 8 clear_fd" "argument demo_pcb = replicate 128 0" "proc_num demo_pcb = 0"
  by (simp_all add: demo_pcb_def)

lemma find_demo:
  "find (\<lambda>k. dir_name demo_fs k = bytes ''ls'') [0..<unat (dir_count demo_fs)] = Some 0"
  "find (\<lambda>k. dir_name demo_fs k = bytes ''shell'') [0..<unat (dir_count demo_fs)] = Some 1"
  using demo_dir_name by (simp_all add: demo_fs_fields upt_conv_Cons) (simp_all add: bytes_def)

text \<open>Any state with this file system and enough room can start either name.\<close>

lemma demo_startableI:
  assumes "fs s = demo_fs" and "pcb_at s = (\<lambda>_. demo_pcb)" and "frame_at s = (\<lambda>_. replicate 0x400000 0)"
    and "length (page_dir (paging s)) = 1024" and "length (processes s) = 6" and "free_slot (processes s) 0 = i" and "i < 6"
  shows "startable (bytes ''ls -l'' @ [0]) i 0 0 s" "startable (bytes ''shell'' @ [0]) i 1 0 s"
proof -
  have c: "cstr (bytes ''ls -l'' @ [0]) = bytes ''ls -l''" "cstr (bytes ''shell'' @ [0]) = bytes ''shell''"
    by (rule cstr_append_nul, simp add: bytes_def)+
  have w: "command_word (bytes ''ls -l'') = bytes ''ls''" "command_args (bytes ''ls -l'') = bytes ''-l''"
    "command_word (bytes ''shell'') = bytes ''shell''" "command_args (bytes ''shell'') = []"
    by (simp_all add: command_word_def command_args_def bytes_def)
  have len: "length (bytes ''ls -l'') = 5" "length (bytes ''-l'') = 2" "length (bytes ''shell'') = 5" by (simp_all add: bytes_def)
  have "length (file_content demo_fs 0) = 40" by (simp add: file_content_def demo_fs_fields)
  then show "startable (bytes ''ls -l'' @ [0]) i 0 0 s" "startable (bytes ''shell'' @ [0]) i 1 0 s"
    using assms demo_elf demo_wf find_demo demo_fs_fields(8-11)
    by (simp_all add: startable_def c w len)
qed

lemma demo_startable: "startable (bytes ''ls -l'' @ [0]) 1 0 0 demo_kernel"
  by (rule demo_startableI) (simp_all add: free_slot.simps)

theorem sys_execute_loads_program_witness:
  "\<exists>e t. sys_execute (replicate 40 0) (replicate 4 0) (Some (bytes ''ls -l'' @ [0])) demo_kernel = Inr (Exec_enter e, t)
     \<and> processes t = [1, 1, 0, 0, 0, 0]"
  using sys_execute_loads_program [OF demo_startable, of "replicate 40 0" "replicate 4 0" 0] by auto

theorem execute_halt_round_trip_witness:
  "\<exists>e t v. sys_execute (replicate 40 0) (replicate 4 0) (Some (bytes ''ls -l'' @ [0])) demo_kernel = Inr (Exec_enter e, t)
     \<and> sys_halt [] [] 3 (t\<lparr>kernel_esp := tss_esp0 t\<rparr>) = Inr (Halt_resume 3, v)
     \<and> kernel_esp v = 0x7FFF00 \<and> processes v = [1, 0, 0, 0, 0, 0]"
proof -
  from sys_execute_startable [OF demo_startable, of "replicate 40 0" "replicate 4 0"] obtain e s1 where
    ex: "sys_execute (replicate 40 0) (replicate 4 0) (Some (bytes ''ls -l'' @ [0])) demo_kernel = Inr (Exec_enter e, exec_pcb 1 s1)"
    and pd: "page_dir (paging s1) = (page_dir (paging demo_kernel))[32 := program_entry (int 1)]"
    by (metis length_replicate)
  let ?t = "exec_pcb 1 s1"
  let ?u = "?t\<lparr>kernel_esp := tss_esp0 ?t\<rparr>"
  have a: "pcb_addr 0 = 0x7FE000" by (simp add: pcb_addr_def)
  have r: "runs 0 demo_kernel" by (simp add: runs_def a demo_pcb_def)
  have "\<exists>v. sys_halt [] [] 3 ?u = Inr (Halt_resume (uint (3 :: u8)), v)
    \<and> kernel_esp v = kernel_esp demo_kernel \<and> kernel_ebp v = kernel_ebp demo_kernel
    \<and> page_dir (paging v) ! 32 = program_entry 0
    \<and> tss_esp0 v = EIGHTMB - EIGHTKB * word_of_int 0 - 4
    \<and> pcb_at v (pcb_addr 0) = pcb_at ?u (pcb_addr 0) \<and> processes v = processes demo_kernel"
    by (rule execute_halt_round_trip [OF ex r]) (simp_all add: pd)
  then obtain v where "sys_halt [] [] 3 ?u = Inr (Halt_resume 3, v)" "kernel_esp v = 0x7FFF00"
    "processes v = [1, 0, 0, 0, 0, 0]" by auto
  with ex show ?thesis by blast
qed

end
