(* ===== verification/Descriptors.thy ===== *)
theory Descriptors
  imports Processes
begin

text \<open>
  The descriptors of a process: the search for a free one, opening by name, and reading an open
  file.
\<close>

section \<open>Descriptors\<close>

lemma free_fd_props:
  "i \<le> 8 \<Longrightarrow> i \<le> free_fd fds i \<and> free_fd fds i \<le> 8 \<and> (free_fd fds i < 8 \<longrightarrow> flags (fds ! free_fd fds i) = 0)
     \<and> (\<forall>j. i \<le> j \<and> j < free_fd fds i \<longrightarrow> flags (fds ! j) \<noteq> 0)"
proof (induction fds i rule: free_fd.induct)
  case (1 fds i)
  show ?case
  proof (cases "i < PCB_LENGTH \<and> flags (fds ! i) \<noteq> 0")
    case True
    then have "free_fd fds i = free_fd fds (Suc i)" by (subst free_fd.simps) simp
    moreover have "Suc i \<le> free_fd fds (Suc i) \<and> free_fd fds (Suc i) \<le> 8 \<and>
        (free_fd fds (Suc i) < 8 \<longrightarrow> flags (fds ! free_fd fds (Suc i)) = 0) \<and>
        (\<forall>j. Suc i \<le> j \<and> j < free_fd fds (Suc i) \<longrightarrow> flags (fds ! j) \<noteq> 0)"
      using "1.IH" True by simp
    moreover have "i \<le> j \<Longrightarrow> j = i \<or> Suc i \<le> j" for j by linarith
    ultimately show ?thesis using True by (metis Suc_leD)
  next
    case False
    then have "free_fd fds i = i" by (subst free_fd.simps) (simp only: if_False)
    with False 1 show ?thesis by auto
  qed
qed

text \<open>The descriptor of an open file at a position, and what reading it does.\<close>

definition open_file :: "int \<Rightarrow> u32 \<Rightarrow> nat \<Rightarrow> 'a kernel_scheme \<Rightarrow> bool" where
  "open_file fd ino pos s \<longleftrightarrow> 2 \<le> fd \<and> fd < 8 \<and> length (fd_arr (cur_pcb s)) = 8
     \<and> fd_operations (fd_arr (cur_pcb s) ! nat fd) = file_operations \<and> flags (fd_arr (cur_pcb s) ! nat fd) = 1
     \<and> inode (fd_arr (cur_pcb s) ! nat fd) = ino \<and> file_position (fd_arr (cur_pcb s) ! nat fd) = of_nat pos
     \<and> read_function (ops_table s file_operations) = File_fn"

lemma sys_read_open_file_eq:
  fixes s :: "'a kernel_scheme"
  assumes "open_file fd ino pos s" and "wf_file (fs s) ino" and "pos \<le> length (file_content (fs s) ino)"
    and "0 \<le> nbytes" and "pos + nat nbytes < 2 ^ 32" and "nat nbytes \<le> length buf"
  defines "n \<equiv> min (nat nbytes) (length (file_content (fs s) ino) - pos)"
  defines "t \<equiv> upd_pcb (get_pcb s) (upd_fd fd (\<lambda>e. e\<lparr>file_position := file_position e + word_of_int (int n)\<rparr>)) s"
  shows "open_file fd ino (pos + n) t" and "sys_read h es fd (Some buf) nbytes s =
      Inr (int n, Some (take n (drop pos (file_content (fs s) ino)) @ drop n buf), t, es)"
proof -
  let ?e = "fd_arr (cur_pcb s) ! nat fd"
  have fd: "2 \<le> fd" "fd < 8" "length (fd_arr (cur_pcb s)) = 8" "fd_operations ?e = file_operations"
    "flags ?e = 1" "inode ?e = ino" "file_position ?e = of_nat pos" "read_function (ops_table s file_operations) = File_fn"
    using assms(1) unfolding open_file_def by blast+
  have nb: "unat (word_of_int nbytes :: u32) = nat nbytes"
    using assms(4,5) by (metis add_lessD1 add.commute int_nat_eq of_int_of_nat_eq unat_of_nat_u32)
  have up: "unat (of_nat pos :: u32) = pos" using assms(5) by (intro unat_of_nat_u32) simp
  have rdd: "read_data (fs s) ino (of_nat pos) buf (word_of_int nbytes) =
      Some (int n, take n (drop pos (file_content (fs s) ino)) @ drop n buf)"
    using read_data_eq [OF assms(2), of "of_nat pos" "word_of_int nbytes" buf] assms(3,5,6)
    by (simp add: nb up n_def Let_def)
  have "file_read fd buf nbytes s = Some (int n, take n (drop pos (file_content (fs s) ino)) @ drop n buf, t)"
    using fd(5,6,7) rdd by (simp add: file_read_def Let_def t_def)
  then show "sys_read h es fd (Some buf) nbytes s =
      Inr (int n, Some (take n (drop pos (file_content (fs s) ino)) @ drop n buf), t, es)"
    using fd assms(4) by (simp add: sys_read_def Let_def of_option_def)
  show "open_file fd ino (pos + n) t"
    using fd by (simp add: open_file_def t_def)
qed

lemma sys_read_open_file:
  fixes s :: "'a kernel_scheme"
  assumes "open_file fd ino pos s" and "wf_file (fs s) ino" and "pos \<le> length (file_content (fs s) ino)"
    and "0 \<le> nbytes" and "pos + nat nbytes < 2 ^ 32" and "nat nbytes \<le> length buf"
  defines "n \<equiv> min (nat nbytes) (length (file_content (fs s) ino) - pos)"
  obtains t where "sys_read h es fd (Some buf) nbytes s =
      Inr (int n, Some (take n (drop pos (file_content (fs s) ino)) @ drop n buf), t, es)"
    and "open_file fd ino (pos + n) t" and "fs t = fs s" and "processes t = processes s"
    and "\<And>j. j \<noteq> nat fd \<Longrightarrow> fd_arr (cur_pcb t) ! j = fd_arr (cur_pcb s) ! j"
  using that [OF sys_read_open_file_eq(2) [OF assms(1-6), where h = h and es = es, folded n_def]
      sys_read_open_file_eq(1) [OF assms(1-6), folded n_def]] by simp

text \<open>Opening a name: no free descriptor, no such entry, or the entry's descriptor.\<close>

definition opened_fd :: "dentry \<Rightarrow> fd_entry \<Rightarrow> fd_entry" where
  "opened_fd d e =
     (if filetype d = 0 then e\<lparr>fd_operations := rtc_operations\<rparr>
      else if filetype d = 1 then e\<lparr>fd_operations := dir_operations\<rparr>
      else if filetype d = 2 then e\<lparr>fd_operations := file_operations\<rparr>
      else e)\<lparr>inode := inode_num d, file_position := 0, flags := 1\<rparr>"

lemma opened_fd_fields [simp]:
  "inode (opened_fd d e) = inode_num d" "file_position (opened_fd d e) = 0" "flags (opened_fd d e) = 1"
  "filetype d = 0 \<Longrightarrow> fd_operations (opened_fd d e) = rtc_operations"
  "filetype d = 1 \<Longrightarrow> fd_operations (opened_fd d e) = dir_operations"
  "filetype d = 2 \<Longrightarrow> fd_operations (opened_fd d e) = file_operations"
  by (simp_all add: opened_fd_def)

lemma sys_open_eq:
  fixes s :: "'a kernel_scheme"
  assumes "0 \<in> set name"
  defines "i \<equiv> free_fd (fd_arr (cur_pcb s)) 2"
  shows "sys_open (Some name) s =
    (if i = 8 then Inr (-1, s)
     else case find (\<lambda>k. dir_name (fs s) k = cstr name) [0..<unat (dir_count (fs s))] of
       None \<Rightarrow> Inr (-1, s)
     | Some k \<Rightarrow> Inr (int i, upd_pcb (get_pcb s) (upd_fd (int i) (opened_fd (dir_entry (fs s) k))) s))"
proof (cases "i = 8")
  case True
  then show ?thesis by (simp add: sys_open_def Let_def i_def)
next
  case False
  then have i: "flags (fd_arr (cur_pcb s) ! i) = 0"
    using free_fd_props [of 2 "fd_arr (cur_pcb s)"] by (simp add: i_def)
  have look: "read_dentry_by_name (fs s) (Some name) blank_dentry =
      (case find (\<lambda>k. dir_name (fs s) k = cstr name) [0..<unat (dir_count (fs s))] of
         None \<Rightarrow> Some (-1, blank_dentry) | Some k \<Rightarrow> Some (0, dir_entry (fs s) k))"
    using scan_dentries_eq [OF assms(1), of blank_dentry "fs s" 0]
    by (simp add: read_dentry_by_name_def blank_dentry_def split: option.splits)
  have ops: "(\<lambda>e. (if filetype d = 0 then e\<lparr>fd_operations := rtc_operations\<rparr>
      else if filetype d = 1 then e\<lparr>fd_operations := dir_operations\<rparr>
      else if filetype d = 2 then e\<lparr>fd_operations := file_operations\<rparr> else e)
      \<lparr>inode := inode_num d, file_position := 0, flags := 1\<rparr>) = opened_fd d" for d :: dentry
    by (rule ext) (simp add: opened_fd_def)
  show ?thesis
    using False i look unfolding sys_open_def i_def [symmetric]
    by (simp add: Let_def ops i_def [symmetric] of_option_def split: option.splits)
qed

text \<open>Opening a regular file.\<close>

lemma sys_open_regular:
  fixes s :: "'a kernel_scheme"
  assumes "0 \<in> set name" and "find (\<lambda>k. dir_name (fs s) k = cstr name) [0..<unat (dir_count (fs s))] = Some k"
    and "filetype (dir_entry (fs s) k) = 2" and "length (fd_arr (cur_pcb s)) = 8"
    and "free_fd (fd_arr (cur_pcb s)) 2 < 8" and "read_function (ops_table s file_operations) = File_fn"
  defines "i \<equiv> free_fd (fd_arr (cur_pcb s)) 2"
  obtains t where "sys_open (Some name) s = Inr (int i, t)"
    and "open_file (int i) (inode_num (dir_entry (fs s) k)) 0 t" and "fs t = fs s" and "processes t = processes s"
    and "\<And>j. j \<noteq> i \<Longrightarrow> fd_arr (cur_pcb t) ! j = fd_arr (cur_pcb s) ! j"
proof -
  have i: "2 \<le> i" "i < 8" using free_fd_props [of 2 "fd_arr (cur_pcb s)"] assms(5) by (simp_all add: i_def)
  define t where "t = upd_pcb (get_pcb s) (upd_fd (int i) (opened_fd (dir_entry (fs s) k))) s"
  have "sys_open (Some name) s = Inr (int i, t)"
    using i assms(2) by (simp add: sys_open_eq [OF assms(1)] i_def [symmetric] t_def)
  moreover have "open_file (int i) (inode_num (dir_entry (fs s) k)) 0 t"
    using i assms(3,4,6) by (simp add: open_file_def t_def)
  ultimately show ?thesis by (rule that) (simp_all add: t_def)
qed

end
