(* ===== verification/Interrupts.thy ===== *)
theory Interrupts
  imports Descriptors
begin

text \<open>
  The interrupt handlers of the kernel: \<open>keyboard_interrupt\<close> (\<^verbatim>\<open>keyboard.c\<close>) with the
  terminal switching keys, and the dispatch of the two device interrupts that
  \<^verbatim>\<open>interrupt_handler.S\<close> links to \<open>rtc_interrupt\<close> and \<open>keyboard_interrupt\<close>.

  The first switch to terminal two or three starts a shell from inside the handler. The handler
  then does not return until that shell halts; \<open>Key_enter\<close> is this outcome.
\<close>

section \<open>The keyboard handler\<close>

datatype key_result = Key_return | Key_enter u32

text \<open>
  The body of the two branches that open a terminal: mark it as used and start a shell, unless
  it is in use.
\<close>

definition open_shell :: "u8 list \<Rightarrow> u8 list \<Rightarrow> nat \<Rightarrow> 'a kernel_scheme \<Rightarrow> fault + (key_result \<times> 'a kernel_scheme)" where
  "open_shell header_buf entry_buf n s =
     (if terminal_used s ! n = 0 then
        let s = s\<lparr>terminal_used := (terminal_used s)[n := 1]\<rparr>
        in (case sys_execute header_buf entry_buf (Some (bytes ''shell'' @ [0])) s of
              Inl e \<Rightarrow> Inl e
            | Inr (Exec_enter entry_pt, s) \<Rightarrow> Inr (Key_enter entry_pt, s)
            | Inr (Exec_ret r, s) \<Rightarrow> Inr (Key_return, s))
      else Inr (Key_return, s))"

text \<open>
  \<open>keyboard_interrupt\<close>. \<open>dev\<close> answers the read of the data port; \<open>junk\<close> is the
  uninitialised character of \<open>scan_code_to_char\<close>. Each test of the source for a switching
  key is made in turn; a shell that was entered suspends the rest of the handler.
\<close>

definition keyboard_interrupt ::
  "device \<Rightarrow> u8 list \<Rightarrow> u8 list \<Rightarrow> u8 \<Rightarrow> 'a kernel_scheme \<Rightarrow> fault + (key_result \<times> 'a kernel_scheme)" where
  "keyboard_interrupt dev header_buf entry_buf junk s =
     (let s = send_eoi KEYBOARD_IRQ s;
          (temp, s) = inb dev PS2_DATA_PORT s;
          s = set_keyboard_flags temp s;
          s = (if alt_on s = 1 \<and> temp = SCAN_FONE then terminalone s else s)
      in case (if alt_on s = 1 \<and> temp = SCAN_FTWO then open_shell header_buf entry_buf 1 (terminaltwo s)
               else Inr (Key_return, s)) of
           Inl e \<Rightarrow> Inl e
         | Inr (Key_enter entry_pt, s) \<Rightarrow> Inr (Key_enter entry_pt, s)
         | Inr (Key_return, s) \<Rightarrow>
             (case (if alt_on s = 1 \<and> temp = SCAN_FTHREE then open_shell header_buf entry_buf 2 (terminalthree s)
                    else Inr (Key_return, s)) of
                Inl e \<Rightarrow> Inl e
              | Inr (Key_enter entry_pt, s) \<Rightarrow> Inr (Key_enter entry_pt, s)
              | Inr (Key_return, s) \<Rightarrow> Inr (Key_return, key_edit junk temp s)))"

section \<open>Frames\<close>

text \<open>
  The device handlers leave the process part of the state: the fields below the terminal's.
\<close>

definition dev_only :: "'a kernel_scheme \<Rightarrow> 'a kernel_scheme \<Rightarrow> bool" where
  "dev_only s t \<longleftrightarrow> terminal.more t = terminal.more s"

lemma dev_only_fields:
  fixes s t :: "'a kernel_scheme"
  assumes "dev_only s t"
  shows "fs t = fs s" "paging t = paging s" "processes t = processes s" "pcb_at t = pcb_at s"
    "frame_at t = frame_at s" "ops_table t = ops_table s" "tss_esp0 t = tss_esp0 s" "tss_ss0 t = tss_ss0 s"
    "kernel_esp t = kernel_esp s" "kernel_ebp t = kernel_ebp s" "get_pcb t = get_pcb s"
  using assms by (cases s, cases t, simp add: dev_only_def get_pcb_def)+

lemma dev_only_refl [simp]: "dev_only s s"
  by (simp add: dev_only_def)

lemma dev_only_trans: "dev_only s t \<Longrightarrow> dev_only t u \<Longrightarrow> dev_only s u"
  by (simp add: dev_only_def)

lemma more_send_eoi [simp]: "terminal.more (send_eoi irq s) = terminal.more s"
  by (simp add: send_eoi_def outb_def)

lemma more_inb [simp]: "terminal.more (snd (inb dev p s)) = terminal.more s"
  by (simp add: inb_def)

lemma more_set_keyboard_flags [simp]: "terminal.more (set_keyboard_flags scan s) = terminal.more s"
  by (simp add: set_keyboard_flags_def)

lemma more_switch [simp]:
  "terminal.more (terminalone s) = terminal.more s" "terminal.more (terminaltwo s) = terminal.more s"
  "terminal.more (terminalthree s) = terminal.more s"
  by (simp_all add: terminalone_def terminaltwo_def terminalthree_def Let_def)

lemma more_key_edit [simp]: "terminal.more (key_edit junk temp s) = terminal.more s"
  by (simp add: key_edit_def key_ctrl_l_def key_enter_def key_backspace_def key_char_in_def Let_def)

lemma more_rtc_interrupt [simp]: "terminal.more (rtc_interrupt dev s) = terminal.more s"
  by (simp add: rtc_interrupt_def send_eoi_def outb_def inw_def Let_def)

text \<open>The operations of the handler keep the invariant of the terminal.\<close>

lemma term_inv_send_eoi [simp]: "term_inv (send_eoi irq s) = term_inv s"
  by (simp add: send_eoi_def outb_def term_inv_def line_inv_def slots_inv_def)

lemma term_inv_inb [simp]: "term_inv (snd (inb dev p s)) = term_inv s"
  by (simp add: inb_def term_inv_def line_inv_def slots_inv_def)

lemma term_inv_set_keyboard_flags [simp]: "term_inv (set_keyboard_flags scan s) = term_inv s"
  by (simp add: set_keyboard_flags_def term_inv_def line_inv_def slots_inv_def)

lemma term_inv_rtc_interrupt [simp]: "term_inv (rtc_interrupt dev s) = term_inv s"
  by (simp add: rtc_interrupt_def send_eoi_def outb_def inw_def Let_def term_inv_def line_inv_def slots_inv_def)

lemma slots_inv_key_edit: "slots_inv (key_edit junk temp s) = slots_inv s"
  by (simp add: key_edit_def key_ctrl_l_def key_enter_def key_backspace_def key_char_in_def Let_def slots_inv_def)

lemma term_inv_key_edit [inv_intros]: "term_inv s \<Longrightarrow> term_inv (key_edit junk temp s)"
  by (simp add: term_inv_def slots_inv_key_edit line_inv_key_edit)

text \<open>The switching keys edit nothing, so a handler that is resumed after its shell halted just returns.\<close>

lemma switch_key_no_edit: "temp \<in> {SCAN_FONE, SCAN_FTWO, SCAN_FTHREE} \<Longrightarrow> key_edit junk temp s = s"
  by (auto simp: key_edit_def is_char_key_def)

section \<open>What \<open>sys_execute\<close> leaves alone\<close>

text \<open>A call that fails changes no more than the slot it took and that slot's argument buffer.\<close>

lemma sys_execute_ret:
  assumes "sys_execute hb eb c s = Inr (Exec_ret r, t)"
  shows "r = -1" and "paging t = paging s" and "tss_esp0 t = tss_esp0 s" and "kernel_esp t = kernel_esp s"
    and "term_inv t = term_inv s" and "int_flag t = int_flag s"
    and "t = s \<or> (\<exists>i < 6. i = free_slot (processes s) 0 \<and> processes t = (processes s)[i := 1]
      \<and> (\<forall>a. a \<noteq> pcb_addr (int i) \<longrightarrow> pcb_at t a = pcb_at s a))"
proof -
  let ?i = "free_slot (processes s) 0"
  have "t = s \<and> r = -1 \<or> (?i < 6 \<and> r = -1 \<and> (\<exists>arg. t = upd_pcb (pcb_addr (int ?i)) (\<lambda>p. p\<lparr>argument := arg\<rparr>) (s\<lparr>processes := (processes s)[?i := 1]\<rparr>)))"
    using assms free_slot_props [of 0 "processes s"]
    by (auto simp: sys_execute_def exec_prepare_def Let_def bind_eq_Some_conv split: if_splits option.splits)
  then show "r = -1" "paging t = paging s" "tss_esp0 t = tss_esp0 s" "kernel_esp t = kernel_esp s" "term_inv t = term_inv s"
    "int_flag t = int_flag s"
    "t = s \<or> (\<exists>i < 6. i = free_slot (processes s) 0 \<and> processes t = (processes s)[i := 1]
      \<and> (\<forall>a. a \<noteq> pcb_addr (int i) \<longrightarrow> pcb_at t a = pcb_at s a))"
    by auto
qed

section \<open>The dispatch of the device interrupts\<close>

text \<open>
  \<open>rtc_handler\<close> and \<open>keyboard_handler\<close> of \<^verbatim>\<open>interrupt_handler.S\<close>: the state after an
  interrupt has been served and its handler has come back to the interrupted code. It is \<^const>\<open>None\<close> when the handler
  does not come back: it faults, or it enters a shell, from which it comes back only once that shell has halted.
\<close>

datatype irq = Tick | Key u8

definition irq_handler :: "device \<Rightarrow> u8 list \<Rightarrow> u8 list \<Rightarrow> u8 \<Rightarrow> irq \<Rightarrow> 'a kernel_scheme \<Rightarrow> 'a kernel_scheme option" where
  "irq_handler dev header_buf entry_buf junk i s =
     (case i of
        Tick \<Rightarrow> Some (rtc_interrupt dev s)
      | Key k \<Rightarrow>
          (case keyboard_interrupt (\<lambda>_ _. k) header_buf entry_buf junk s of
             Inr (Key_return, t) \<Rightarrow> Some t
           | Inr (Key_enter _, t) \<Rightarrow> None
           | Inl _ \<Rightarrow> None))"

lemma int_flag_execute: "sys_execute hb eb c s = Inr (r, t) \<Longrightarrow> int_flag t = int_flag s"
proof (cases r)
  case (Exec_ret x)
  assume "sys_execute hb eb c s = Inr (r, t)"
  then show ?thesis unfolding Exec_ret by (rule sys_execute_ret(6))
next
  case (Exec_enter e)
  assume ex: "sys_execute hb eb c s = Inr (r, t)"
  then obtain command where "c = Some command" by (cases c) (simp_all add: sys_execute_def Exec_enter)
  then show ?thesis using ex unfolding Exec_enter by (auto elim: sys_execute_enter)
qed

lemma int_flag_simps [simp]:
  fixes s :: "'a kernel_scheme"
  shows "int_flag (send_eoi irq s) = int_flag s" "int_flag (snd (inb dev p s)) = int_flag s"
    "int_flag (set_keyboard_flags scan s) = int_flag s" "int_flag (terminalone s) = int_flag s"
    "int_flag (terminaltwo s) = int_flag s" "int_flag (terminalthree s) = int_flag s"
    "int_flag (key_edit junk scan s) = int_flag s"
  by (simp_all add: send_eoi_def outb_def inb_def set_keyboard_flags_def terminalone_def terminaltwo_def terminalthree_def
      key_edit_def key_ctrl_l_def key_enter_def key_backspace_def key_char_in_def Let_def)

lemma int_flag_open_shell: "open_shell hb eb n s = Inr (r, t) \<Longrightarrow> int_flag t = int_flag s"
  by (auto simp: open_shell_def Let_def dest: int_flag_execute split: if_splits sum.splits exec_result.splits)

lemma int_flag_keyboard_interrupt:
  "keyboard_interrupt dev hb eb junk s = Inr (r, t) \<Longrightarrow> int_flag t = int_flag s"
  by (auto simp: keyboard_interrupt_def Let_def case_prod_beta dest!: int_flag_open_shell
      split: if_splits sum.splits key_result.splits)

interpretation kernel_ticks: tick_source "irq_handler dev hb eb junk" "\<lambda>i. i = Tick"
  by unfold_locales
    (auto simp: irq_handler_def dest: int_flag_keyboard_interrupt split: irq.splits sum.splits key_result.splits)

end
