(* ===== verification/Kernel.thy ===== *)
theory Kernel
  imports Interrupts
begin

text \<open>
  The kernel as a transition system: boot (\<open>terminal_init\<close>), the system calls of the running
  process, the two device interrupts at any moment, and the processes that wait.

  At most one process runs; every other active process is suspended inside the \<open>sys_execute\<close>
  that started the next one, called by the process itself or by the keyboard handler that
  interrupted it. A configuration is the list of what the active processes do, the running one
  first, and the kernel's state. A system call that does not wait is one step.

  The stack pointer with which the kernel is entered is any address within a page below
  the task state segment's \<open>esp0\<close>; the base pointer is arbitrary.
\<close>

section \<open>Configurations and steps\<close>

datatype mode =
    User
  | Wait_line "u8 list" int
  | Wait_tick
  | In_execute
  | In_handler mode

fun resumed :: "mode \<Rightarrow> mode" where
  "resumed (In_handler m) = m"
| "resumed m = User"

type_synonym config = "mode list \<times> kernel"

definition terminal_init :: "u8 list \<Rightarrow> u8 list \<Rightarrow> 'a kernel_scheme \<Rightarrow> fault + (exec_result \<times> 'a kernel_scheme)" where
  "terminal_init header_buf entry_buf s =
     sys_execute header_buf entry_buf (Some (bytes ''shell'' @ [0])) (terminal_init_state s)"

text \<open>Entering the kernel with stack pointer \<open>e\<close> and base pointer \<open>b\<close>.\<close>

definition enter_kernel :: "u32 \<Rightarrow> u32 \<Rightarrow> 'a kernel_scheme \<Rightarrow> 'a kernel_scheme" where
  "enter_kernel e b s = s\<lparr>kernel_esp := e, kernel_ebp := b\<rparr>"

definition stack_ok :: "u32 \<Rightarrow> 'a kernel_scheme \<Rightarrow> bool" where
  "stack_ok e s \<longleftrightarrow> tss_esp0 s - 0x1000 \<le> e \<and> e \<le> tss_esp0 s"

definition read_driver :: "int \<Rightarrow> 'a kernel_scheme \<Rightarrow> driver" where
  "read_driver fd s = read_function (ops_table s (fd_operations (fd_arr (cur_pcb s) ! nat fd)))"

text \<open>
  \<open>vm\<close> says whether \<open>sys_vidmap\<close> is among the calls that are made: it replaces the page of the
  running program.
\<close>

inductive kstep :: "bool \<Rightarrow> config \<Rightarrow> config \<Rightarrow> bool" for vm where
  tick: "stack_ok e s \<Longrightarrow> kstep vm (m # ms, s) (m # ms, rtc_interrupt dev (enter_kernel e b s))"
| key: "stack_ok e s \<Longrightarrow> keyboard_interrupt dev hb eb junk (enter_kernel e b s) = Inr (Key_return, t)
    \<Longrightarrow> kstep vm (m # ms, s) (m # ms, t)"
| key_shell: "stack_ok e s \<Longrightarrow> keyboard_interrupt dev hb eb junk (enter_kernel e b s) = Inr (Key_enter entry, t)
    \<Longrightarrow> kstep vm (m # ms, s) (User # In_handler m # ms, t)"
| execute_fails: "stack_ok e s \<Longrightarrow> sys_execute hb eb cmd (enter_kernel e b s) = Inr (Exec_ret r, t)
    \<Longrightarrow> kstep vm (User # ms, s) (User # ms, t)"
| execute: "stack_ok e s \<Longrightarrow> sys_execute hb eb cmd (enter_kernel e b s) = Inr (Exec_enter entry, t)
    \<Longrightarrow> kstep vm (User # ms, s) (User # In_execute # ms, t)"
| halt: "stack_ok e s \<Longrightarrow> sys_halt hb eb status (enter_kernel e b s) = Inr (Halt_resume r, t)
    \<Longrightarrow> kstep vm (User # m # ms, s) (resumed m # ms, t)"
| halt_base: "stack_ok e s \<Longrightarrow> sys_halt hb eb status (enter_kernel e b s) = Inr (Halt_enter entry, t)
    \<Longrightarrow> kstep vm ([User], s) ([User], t)"
| halt_last: "stack_ok e s \<Longrightarrow> sys_halt hb eb status (enter_kernel e b s) = Inr (Halt_resume r, t)
    \<Longrightarrow> kstep vm ([User], s) ([], t)"
| read_call: "stack_ok e s \<Longrightarrow> sys_read (\<lambda>_. Some) ([] :: unit list) fd buf n (enter_kernel e b s) = Inr (r, buf', t, [])
    \<Longrightarrow> kstep vm (User # ms, s) (User # ms, t)"
| read_line: "stack_ok e s \<Longrightarrow> 0 \<le> fd \<Longrightarrow> fd < 8 \<Longrightarrow> fd \<noteq> 1 \<Longrightarrow> 0 \<le> n \<Longrightarrow> read_driver fd (enter_kernel e b s) = Terminal_fn
    \<Longrightarrow> enter_pressed s = 0 \<Longrightarrow> kstep vm (User # ms, s) (Wait_line buf n # ms, enter_kernel e b s)"
| line_ready: "enter_pressed s \<noteq> 0 \<Longrightarrow> terminal_read (\<lambda>_. Some) ([] :: unit list) buf n s = Some (r, buf', t, [])
    \<Longrightarrow> kstep vm (Wait_line buf n # ms, s) (User # ms, t)"
| read_tick: "stack_ok e s \<Longrightarrow> 0 \<le> fd \<Longrightarrow> fd < 8 \<Longrightarrow> fd \<noteq> 1 \<Longrightarrow> 0 \<le> (n :: int) \<Longrightarrow> read_driver fd (enter_kernel e b s) = Rtc_fn
    \<Longrightarrow> kstep vm (User # ms, s) (Wait_tick # ms, (enter_kernel e b s)\<lparr>int_flag := 1\<rparr>)"
| tick_ready: "int_flag s = 0 \<Longrightarrow> kstep vm (Wait_tick # ms, s) (User # ms, s)"
| write_call: "stack_ok e s \<Longrightarrow> sys_write dev fd buf n (enter_kernel e b s) = Inr (r, t)
    \<Longrightarrow> kstep vm (User # ms, s) (User # ms, t)"
| open_file: "stack_ok e s \<Longrightarrow> sys_open name (enter_kernel e b s) = Inr (r, t)
    \<Longrightarrow> kstep vm (User # ms, s) (User # ms, t)"
| close_file: "stack_ok e s \<Longrightarrow> sys_close fd (enter_kernel e b s) = Inr (r, t)
    \<Longrightarrow> kstep vm (User # ms, s) (User # ms, t)"
| vidmap: "vm \<Longrightarrow> stack_ok e s \<Longrightarrow> sys_vidmap pt vt p (enter_kernel e b s) = Inr (r, t)
    \<Longrightarrow> kstep vm (User # ms, s) (User # ms, t)"

text \<open>
  The reachable configurations: boot with zeroed process table and paging structures \<open>q\<close>, the
  terminal's buffers at their declared sizes, and any steps.
\<close>

definition boot_state :: "paging \<Rightarrow> kernel \<Rightarrow> bool" where
  "boot_state q s \<longleftrightarrow> processes s = replicate 6 0 \<and> paging s = q \<and> term_inv (terminal_init_state s)"

inductive reachable :: "bool \<Rightarrow> paging \<Rightarrow> config \<Rightarrow> bool" for vm q where
  boot: "boot_state q s \<Longrightarrow> terminal_init hb eb s = Inr (Exec_enter entry, t) \<Longrightarrow> reachable vm q ([User], t)"
| step: "reachable vm q c \<Longrightarrow> kstep vm c d \<Longrightarrow> reachable vm q d"

section \<open>The chain of processes\<close>

definition on_stack :: "nat \<Rightarrow> u32 \<Rightarrow> bool" where
  "on_stack p e \<longleftrightarrow> uint (pcb_addr (int p)) \<le> uint e \<and> uint e < uint (pcb_addr (int p)) + 0x2000"

definition active :: "kernel \<Rightarrow> nat \<Rightarrow> bool" where
  "active s p \<longleftrightarrow> p < 6 \<and> processes s ! p \<noteq> 0 \<and> proc_num (pcb_at s (pcb_addr (int p))) = int p"

definition child_of :: "kernel \<Rightarrow> nat \<Rightarrow> nat \<Rightarrow> bool" where
  "child_of s p q \<longleftrightarrow> p \<noteq> 0 \<and> parent_proc_num (pcb_at s (pcb_addr (int p))) = int q
     \<and> on_stack q (esp (pcb_at s (pcb_addr (int p))))"

fun chain :: "kernel \<Rightarrow> nat list \<Rightarrow> bool" where
  "chain s [] \<longleftrightarrow> False"
| "chain s [p] \<longleftrightarrow> p = 0 \<and> active s p"
| "chain s (p # q # ps) \<longleftrightarrow> active s p \<and> child_of s p q \<and> chain s (q # ps)"

definition proc_inv :: "bool \<Rightarrow> paging \<Rightarrow> nat list \<Rightarrow> kernel \<Rightarrow> bool" where
  "proc_inv vm q ps s \<longleftrightarrow> chain s ps \<and> distinct ps \<and> length (processes s) = 6
     \<and> tss_esp0 s = EIGHTMB - EIGHTKB * of_nat (hd ps) - 4
     \<and> (vm \<or> paging s = with_program (int (hd ps)) q)"

lemma chain_active: "chain s ps \<Longrightarrow> p \<in> set ps \<Longrightarrow> active s p"
  by (induction s ps rule: chain.induct) auto

definition same_links :: "kernel \<Rightarrow> kernel \<Rightarrow> nat \<Rightarrow> bool" where
  "same_links s t p \<longleftrightarrow> processes t ! p = processes s ! p
     \<and> proc_num (pcb_at t (pcb_addr (int p))) = proc_num (pcb_at s (pcb_addr (int p)))
     \<and> parent_proc_num (pcb_at t (pcb_addr (int p))) = parent_proc_num (pcb_at s (pcb_addr (int p)))
     \<and> esp (pcb_at t (pcb_addr (int p))) = esp (pcb_at s (pcb_addr (int p)))"

lemma chain_cong: "(\<And>p. p \<in> set ps \<Longrightarrow> same_links s t p) \<Longrightarrow> chain t ps = chain s ps"
  by (induction s ps rule: chain.induct) (auto simp: active_def child_of_def same_links_def)

lemma chain_last: "chain s ps \<Longrightarrow> 0 \<in> set ps"
  by (induction s ps rule: chain.induct) auto

lemma stack_ok_on_stack:
  assumes "stack_ok e s" and "tss_esp0 s = EIGHTMB - EIGHTKB * of_nat p - 4" and "p < 6"
  shows "on_stack p e"
proof -
  let ?t = "EIGHTMB - EIGHTKB * of_nat p - 4 :: u32"
  have "uint (?t - 0x1000) = uint ?t - 0x1000"
    using esp0_uint [OF assms(3)] assms(3) by (subst uint_sub_lem [THEN iffD1]) simp_all
  moreover have "uint (?t - 0x1000) \<le> uint e" "uint e \<le> uint ?t"
    using assms(1) unfolding stack_ok_def assms(2) word_le_def by blast+
  ultimately show ?thesis
    using esp0_uint [OF assms(3)] pcb_addr_uint [of "int p"] assms(3) unfolding on_stack_def by simp
qed

lemma on_stack_get_pcb: "on_stack p (kernel_esp s) \<Longrightarrow> p < 6 \<Longrightarrow> get_pcb s = pcb_addr (int p)"
  unfolding on_stack_def by (intro get_pcb_on_stack) simp_all

lemma pcb_addr_nat_inj: "p < 6 \<Longrightarrow> q < 6 \<Longrightarrow> pcb_addr (int p) = pcb_addr (int q) \<longleftrightarrow> p = q"
  using pcb_addr_inj [of "int p" "int q"] by simp

lemma proc_inv_hd: "proc_inv vm q ps s \<Longrightarrow> hd ps < 6 \<and> hd ps \<in> set ps \<and> ps \<noteq> []"
  unfolding proc_inv_def by (cases ps) (auto dest: chain_active simp: active_def)

lemma proc_inv_keep:
  assumes "proc_inv vm q ps s" and "\<And>p. p \<in> set ps \<Longrightarrow> same_links s t p" and "length (processes t) = length (processes s)"
    and "tss_esp0 t = tss_esp0 s" and "vm \<or> paging t = paging s"
  shows "proc_inv vm q ps t"
  using assms chain_cong [of ps s t] unfolding proc_inv_def by auto

lemma same_links_refl [simp]: "pcb_at t = pcb_at s \<Longrightarrow> processes t = processes s \<Longrightarrow> same_links s t p"
  by (simp add: same_links_def)

lemma proc_inv_enter_kernel [simp]: "proc_inv vm q ps (enter_kernel e b s) = proc_inv vm q ps s"
proof -
  have "chain (enter_kernel e b s) ps = chain s ps" by (rule chain_cong) (simp add: enter_kernel_def)
  then show ?thesis by (simp add: proc_inv_def enter_kernel_def)
qed

lemma free_slot_not_active:
  assumes "chain s ps" and "p \<in> set ps"
  shows "free_slot (processes s) 0 \<noteq> p"
  using chain_active [OF assms] free_slot_props [of 0 "processes s"] by (auto simp: active_def)

lemma proc_inv_execute_fails:
  assumes inv: "proc_inv vm q ps s" and ex: "sys_execute hb eb c s = Inr (Exec_ret r, t)"
  shows "proc_inv vm q ps t"
proof (cases "t = s")
  case False
  let ?i = "free_slot (processes s) 0"
  from False sys_execute_ret(7) [OF ex] have i: "?i < 6" "processes t = (processes s)[?i := 1]"
    "\<And>a. a \<noteq> pcb_addr (int ?i) \<Longrightarrow> pcb_at t a = pcb_at s a" by auto
  have ch: "chain s ps" using inv by (simp add: proc_inv_def)
  show ?thesis
  proof (rule proc_inv_keep [OF inv])
    fix p assume p: "p \<in> set ps"
    then have "?i \<noteq> p" "p < 6" using free_slot_not_active [OF ch p] chain_active [OF ch p] by (simp_all add: active_def)
    then show "same_links s t p" using i by (simp add: same_links_def pcb_addr_nat_inj)
  qed (use i sys_execute_ret [OF ex] in simp_all)
qed (use inv in simp)

lemma proc_inv_execute:
  assumes inv: "proc_inv vm q ps s" and st: "on_stack (hd ps) (kernel_esp s)"
    and ex: "sys_execute hb eb c s = Inr (Exec_enter e, t)"
  shows "proc_inv vm q (free_slot (processes s) 0 # ps) t"
proof -
  from ex obtain command where c: "c = Some command" by (cases c) (simp_all add: sys_execute_def)
  from sys_execute_enter [OF ex [unfolded c]] obtain i s1 where i: "i = free_slot (processes s) 0" "i < 6"
    and t: "t = exec_pcb i s1" and s1: "processes s1 = (processes s)[i := 1]" "kernel_esp s1 = kernel_esp s"
    and pcbs: "\<And>a. a \<noteq> pcb_addr (int i) \<Longrightarrow> pcb_at s1 a = pcb_at s a" and pg: "paging s1 = with_program (int i) (paging s)"
    by metis
  have ch: "chain s ps" and len: "length (processes s) = 6" using inv by (simp_all add: proc_inv_def)
  have hd: "hd ps < 6" "hd ps \<in> set ps" "ps \<noteq> []" using proc_inv_hd [OF inv] by simp_all
  have ne: "i \<noteq> p" "p < 6" if "p \<in> set ps" for p
    using free_slot_not_active [OF ch that] chain_active [OF ch that] i by (simp_all add: active_def)
  have i0: "i \<noteq> 0" using ne(1) [OF chain_last [OF ch]] .
  have g: "get_pcb s1 = pcb_addr (int (hd ps))"
    using on_stack_get_pcb [of "hd ps" s1] st hd(1) s1(2) by simp
  have gne: "pcb_addr (int (hd ps)) \<noteq> pcb_addr (int i)" using ne [OF hd(2)] i hd(1) by (simp add: pcb_addr_nat_inj)
  have links: "same_links s t p" if "p \<in> set ps" for p
    using ne [OF that] i s1 pcbs unfolding t by (subst same_links_def, subst (1 2 3) pcb_at_exec_pcb) (simp add: pcb_addr_nat_inj)
  have "chain t ps" using chain_cong [of ps s t] links ch by simp
  moreover have "active t i"
    using i len by (simp add: active_def t s1 exec_pcb_new(1))
  moreover have "child_of t i (hd ps)"
    using i0 st g gne exec_pcb_new(2) [of i s1] exec_pcb_new(6) [OF i0, of s1] pcbs [OF gne] chain_active [OF ch hd(2)] s1(2)
    by (simp add: child_of_def t active_def)
  ultimately have "chain t (i # ps)" using hd(3) by (cases ps) auto
  moreover have "vm \<or> paging t = with_program (int i) q"
    using inv pg by (auto simp: proc_inv_def t)
  moreover have "distinct (i # ps)" using inv ne(1) by (auto simp: proc_inv_def)
  ultimately show ?thesis using len by (simp add: proc_inv_def i(1) [symmetric]) (simp add: t s1)
qed

lemma halt_restore_fields:
  assumes "halt_restore status pcb u = (Halt_resume r, t)"
  shows "pcb_at t = pcb_at u" "processes t = processes u" "kernel_esp t = esp (pcb_at u pcb)"
    "tss_esp0 t = EIGHTMB - EIGHTKB * word_of_int (parent_proc_num (pcb_at u pcb)) - 4"
    "paging t = with_program (parent_proc_num (pcb_at u pcb)) (paging u)" "term_inv t = term_inv u"
  using assms by (auto simp: halt_restore_def Let_def set_program_page_def)

lemma term_inv_halt_close [simp]: "term_inv (halt_close u) = term_inv u"
  by (simp add: halt_close_def Let_def)

lemma halt_close_paging [simp]: "paging (halt_close u) = paging u" "get_pcb (halt_close u) = get_pcb u"
  "kernel_esp (halt_close u) = kernel_esp u" "tss_esp0 (halt_close u) = tss_esp0 u"
  by (simp_all add: halt_close_def Let_def get_pcb_def)

lemma proc_inv_running:
  assumes "proc_inv vm q ps s" and "on_stack (hd ps) (kernel_esp s)"
  shows "get_pcb s = pcb_addr (int (hd ps))" and "proc_num (cur_pcb s) = int (hd ps)" and "get_pcb s \<noteq> 0"
proof -
  have h: "hd ps < 6" "hd ps \<in> set ps" "chain s ps" using proc_inv_hd [OF assms(1)] assms(1) by (simp_all add: proc_inv_def)
  show g: "get_pcb s = pcb_addr (int (hd ps))" using assms(2) h(1) by (rule on_stack_get_pcb)
  show "proc_num (cur_pcb s) = int (hd ps)" unfolding g using chain_active [OF h(3,2)] by (simp add: active_def)
  show "get_pcb s \<noteq> 0" unfolding g using h(1) by (intro pcb_addr_nonzero) simp_all
qed

lemma proc_inv_halt:
  assumes inv: "proc_inv vm q (p # p' # ps) s" and st: "on_stack p (kernel_esp s)"
    and ha: "sys_halt hb eb status s = Inr (Halt_resume r, t)"
  shows "proc_inv vm q (p' # ps) t" and "term_inv t = term_inv s" and "on_stack p' (kernel_esp t)"
proof -
  note run = proc_inv_running [OF inv, simplified, OF st]
  have ch: "active s p" "child_of s p p'" "chain s (p' # ps)" and d: "p \<notin> set (p' # ps)" "distinct (p' # ps)"
    and len: "length (processes s) = 6"
    using inv by (simp_all add: proc_inv_def)
  have p: "p < 6" "p \<noteq> 0" using ch(1,2) by (simp_all add: active_def child_of_def)
  let ?h = "halt_close s"
  have hr: "halt_restore status (get_pcb s) ?h = (Halt_resume r, t)"
    using sys_halt_child [OF run(3)] run(2) p ha by simp
  note f = halt_restore_fields [OF hr]
  note hf = halt_close_fields(4,5) [of s]
  have par: "parent_proc_num (pcb_at ?h (get_pcb s)) = int p'" "on_stack p' (esp (pcb_at ?h (get_pcb s)))"
    using ch(2) by (simp_all add: child_of_def hf run(1))
  have links: "same_links s t x" if "x \<in> set (p' # ps)" for x
  proof -
    have "x < 6" "x \<noteq> p" using chain_active [OF ch(3) that] d(1) that by (auto simp: active_def)
    then show ?thesis
      by (simp add: same_links_def f halt_close_fields run(2) nat_int)
  qed
  then have "chain t (p' # ps)" using ch(3) chain_cong [of "p' # ps" s t] by blast
  moreover have "length (processes t) = 6" by (simp add: f halt_close_fields len)
  moreover have "tss_esp0 t = EIGHTMB - EIGHTKB * of_nat p' - 4" by (simp add: f par)
  moreover have "vm \<or> paging t = with_program (int p') q" using inv by (auto simp: f par proc_inv_def)
  ultimately show "proc_inv vm q (p' # ps) t" using d(2) by (simp add: proc_inv_def)
  show "term_inv t = term_inv s" "on_stack p' (kernel_esp t)" using par by (simp_all add: f)
qed

text \<open>The base shell that halts is started again in its own slot.\<close>

lemma proc_inv_base:
  assumes "processes s ! 0 = 0" and "length (processes s) = 6" and "vm \<or> (\<exists>p. paging s = with_program p q) \<or> paging s = q"
    and ex: "sys_execute hb eb (Some c) s = Inr (Exec_enter e, t)"
  shows "proc_inv vm q [0] t" and "term_inv t = term_inv s"
proof -
  have z: "free_slot (processes s) 0 = 0" using assms(1) by (simp add: free_slot.simps)
  from sys_execute_enter [OF ex] obtain i s1 where i: "i = free_slot (processes s) 0"
    and t: "t = exec_pcb i s1" and s1: "processes s1 = (processes s)[i := 1]"
    and pg: "paging s1 = with_program (int i) (paging s)" and ti: "term_inv s1 = term_inv s"
    by metis
  show "term_inv t = term_inv s" using t ti by simp
  have "active t 0" using exec_pcb_new(1) [of 0 s1] assms(2) by (simp add: active_def t i z s1)
  moreover have "vm \<or> paging t = with_program 0 q" using assms(3) pg by (auto simp: t i z)
  ultimately show "proc_inv vm q [0] t" using assms(2) by (simp add: proc_inv_def) (simp add: t i z s1)
qed

lemma proc_inv_halt_base:
  assumes inv: "proc_inv vm q [p] s" and st: "on_stack p (kernel_esp s)"
    and ha: "sys_halt hb eb status s = Inr (Halt_enter e, t)"
  shows "proc_inv vm q [0] t" and "term_inv t = term_inv s"
proof -
  have p: "p = 0" using inv by (simp add: proc_inv_def)
  note run = proc_inv_running [OF inv, simplified, OF st]
  let ?h = "halt_close s"
  have pr: "processes ?h ! 0 = 0" "length (processes ?h) = 6"
    using inv run(2) p by (simp_all add: halt_close_fields proc_inv_def)
  have ex: "sys_execute hb eb (Some (bytes ''shell'' @ [0])) ?h = Inr (Exec_enter e, t)"
    using ha run p by (auto simp: sys_halt_def Let_def halt_close_fields halt_restore_def split: sum.splits exec_result.splits)
  have pg: "vm \<or> (\<exists>p. paging ?h = with_program p q) \<or> paging ?h = q" using inv by (auto simp: proc_inv_def)
  show "proc_inv vm q [0] t" "term_inv t = term_inv s" using proc_inv_base [OF pr pg ex] by simp_all
qed

section \<open>Descriptors and devices\<close>

definition inv_step :: "kernel \<Rightarrow> kernel \<Rightarrow> bool" where
  "inv_step s t \<longleftrightarrow> (\<forall>p. same_links s t p) \<and> length (processes t) = length (processes s) \<and> tss_esp0 t = tss_esp0 s
     \<and> paging t = paging s \<and> (term_inv s \<longrightarrow> term_inv t)"

lemma proc_inv_step: "proc_inv vm q ps s \<Longrightarrow> inv_step s t \<Longrightarrow> proc_inv vm q ps t"
  unfolding inv_step_def by (erule proc_inv_keep) simp_all

lemma inv_step_refl [simp]: "inv_step s s"
  by (simp add: inv_step_def)

lemma same_links_trans: "same_links s t p \<Longrightarrow> same_links t u p \<Longrightarrow> same_links s u p"
  by (simp add: same_links_def)

lemma inv_step_trans: "inv_step s t \<Longrightarrow> inv_step t u \<Longrightarrow> inv_step s u"
  unfolding inv_step_def by (auto intro: same_links_trans)

lemma inv_step_upd_fd [simp]: "inv_step s (upd_pcb p (upd_fd fd f) s)"
  by (simp add: inv_step_def same_links_def)

lemma inv_step_dev: "dev_only s t \<Longrightarrow> (term_inv s \<Longrightarrow> term_inv t) \<Longrightarrow> inv_step s t"
  by (simp add: inv_step_def dev_only_fields)

lemma inv_step_file_read: "file_read fd b n s = Some (r, b', t) \<Longrightarrow> inv_step s t"
  by (auto simp: file_read_def Let_def bind_eq_Some_conv split: if_splits)

lemma inv_step_dir_read: "dir_read fd b n s = Some (r, b', t) \<Longrightarrow> inv_step s t"
  by (auto simp: dir_read_def Let_def bind_eq_Some_conv split: if_splits option.splits)

lemma term_inv_terminal_read:
  assumes "terminal_read (\<lambda>_. Some) ([] :: unit list) b n s = Some (r, b', t, es)"
  shows "terminal.more t = terminal.more s" and "term_inv s \<Longrightarrow> term_inv t"
proof -
  have t: "t = s\<lparr>enter_pressed := 0, keyboard_buffer := clear_keyboard_buffer (keyboard_buffer s), end_buf_idx := 0\<rparr>"
    using assms by (auto simp: terminal_read_def Let_def bind_eq_Some_conv split: if_splits)
  then show "terminal.more t = terminal.more s" by simp
  assume "term_inv s"
  then show "term_inv t"
    using term_ready_after_read(1) [of s] by (simp add: t term_inv_def) (simp add: slots_inv_def)
qed

lemma inv_step_terminal_read:
  "terminal_read (\<lambda>_. Some) ([] :: unit list) b n s = Some (r, b', t, es) \<Longrightarrow> inv_step s t" for s :: kernel
  using term_inv_terminal_read [of b n s] by (intro inv_step_dev) (auto simp: dev_only_def)

lemma inv_step_sys_read:
  assumes "sys_read (\<lambda>_. Some) ([] :: unit list) fd buf n s = Inr (r, buf', t, es)"
  shows "inv_step s t"
proof -
  have "t = s \<or> (\<exists>b b' es'. terminal_read (\<lambda>_. Some) ([] :: unit list) b n s = Some (r, b', t, es'))
      \<or> (\<exists>b'. dir_read fd buf n s = Some (r, b', t)) \<or> (\<exists>b b'. file_read fd b n s = Some (r, b', t))"
    using assms
    by (auto simp: sys_read_def Let_def rtc_read_def split: option.splits if_splits driver.splits)
  then show ?thesis
    using inv_step_terminal_read inv_step_dir_read inv_step_file_read by auto
qed

lemma slots_inv_putc: "slots_inv (putc c s) = slots_inv s"
  by (simp add: slots_inv_def)

lemma term_inv_putc: "term_inv s \<Longrightarrow> term_inv (putc c s)"
  by (simp add: term_inv_def slots_inv_putc line_inv_putc)

lemma fold_putc: "terminal.more (fold putc cs s) = terminal.more s \<and> (term_inv s \<longrightarrow> term_inv (fold putc cs s))"
  by (induction cs arbitrary: s) (simp_all add: term_inv_putc)

lemma inv_step_sys_write:
  assumes "sys_write dev fd buf n s = Inr (r, t)"
  shows "inv_step s t"
proof -
  have "t = s \<or> (\<exists>b. t = fold putc (take (nat n) b) s) \<or> (\<exists>v. snd (rtc_write dev v s) = t)"
    using assms
    by (auto simp: sys_write_def terminal_write_def Let_def bind_eq_Some_conv split: option.splits if_splits driver.splits dest: arg_cong [where f = snd])
  moreover have "inv_step s (snd (rtc_write dev v s))" for v
    by (rule inv_step_dev)
      (simp_all add: dev_only_def rtc_write_def inb_def outb_def Let_def term_inv_def line_inv_def slots_inv_def)
  moreover have "inv_step s (fold putc cs s)" for cs
    using fold_putc [of cs s] by (intro inv_step_dev) (simp_all add: dev_only_def)
  ultimately show ?thesis by auto
qed

lemma inv_step_sys_open:
  assumes "sys_open name s = Inr (r, t)"
  shows "inv_step s t"
  using assms by (auto simp: sys_open_def Let_def bind_eq_Some_conv split: option.splits if_splits)

lemma inv_step_sys_close:
  assumes "sys_close fd s = Inr (r, t)"
  shows "inv_step s t"
  using assms by (auto simp: sys_close_def Let_def split: if_splits driver.splits intro: inv_step_trans inv_step_upd_fd)

lemma inv_step_rtc_interrupt: "inv_step s (rtc_interrupt dev s)"
  by (rule inv_step_dev) (simp_all add: dev_only_def)

section \<open>The keyboard handler\<close>

definition in_kernel :: "bool \<Rightarrow> paging \<Rightarrow> nat list \<Rightarrow> kernel \<Rightarrow> bool" where
  "in_kernel vm q ps s \<longleftrightarrow> proc_inv vm q ps s \<and> term_inv s \<and> on_stack (hd ps) (kernel_esp s)"

lemma in_kernel_dev: "in_kernel vm q ps s \<Longrightarrow> dev_only s t \<Longrightarrow> term_inv t \<Longrightarrow> in_kernel vm q ps t"
  unfolding in_kernel_def by (auto intro: proc_inv_step inv_step_dev simp: dev_only_fields)

lemma in_kernel_execute_fails:
  "in_kernel vm q ps s \<Longrightarrow> sys_execute hb eb c s = Inr (Exec_ret r, t) \<Longrightarrow> in_kernel vm q ps t"
  unfolding in_kernel_def using proc_inv_execute_fails sys_execute_ret by metis

lemma in_kernel_open_shell:
  assumes "in_kernel vm q ps s" and "open_shell hb eb n s = Inr (res, t)" 
  shows "res = Key_return \<and> in_kernel vm q ps t \<or>
    (\<exists>e. res = Key_enter e \<and> term_inv t \<and> proc_inv vm q (free_slot (processes s) 0 # ps) t)"
proof -
  let ?u = "s\<lparr>terminal_used := (terminal_used s)[n := 1]\<rparr>"
  have u: "in_kernel vm q ps ?u" using assms(1)
    by (rule in_kernel_dev) (use assms(1) in \<open>simp_all add: dev_only_def in_kernel_def term_inv_def line_inv_def slots_inv_def\<close>)
  consider "t = s" "res = Key_return" | r where "sys_execute hb eb (Some (bytes ''shell'' @ [0])) ?u = Inr (Exec_ret r, t)" "res = Key_return"
    | e where "sys_execute hb eb (Some (bytes ''shell'' @ [0])) ?u = Inr (Exec_enter e, t)" "res = Key_enter e"
    using assms(2) by (auto simp: open_shell_def Let_def split: if_splits sum.splits exec_result.splits)
  then show ?thesis
  proof cases
    case 1
    then show ?thesis using assms(1) by simp
  next
    case 2
    then show ?thesis using in_kernel_execute_fails [OF u] by simp
  next
    case 3
    moreover have "term_inv t = term_inv ?u"
    proof -
      from sys_execute_enter [OF 3(1)] show ?thesis by (metis term_inv_exec_pcb)
    qed
    ultimately show ?thesis using proc_inv_execute [of vm q ps ?u] u by (simp add: in_kernel_def)
  qed
qed

text \<open>
  The handler either returns with the invariant, or has started a shell in the lowest free slot as
  a child of the process it interrupted.
\<close>

lemma in_kernel_keyboard_interrupt:
  assumes inv: "in_kernel vm q ps s" and k: "keyboard_interrupt dev hb eb junk s = Inr (res, t)"
  shows "res = Key_return \<and> in_kernel vm q ps t \<or>
    (\<exists>e i. res = Key_enter e \<and> term_inv t \<and> proc_inv vm q (i # ps) t)"
proof -
  define s0 where "s0 = snd (inb dev PS2_DATA_PORT (send_eoi KEYBOARD_IRQ s))"
  define temp where "temp = fst (inb dev PS2_DATA_PORT (send_eoi KEYBOARD_IRQ s))"
  define s1 where "s1 = set_keyboard_flags temp s0"
  define s2 where "s2 = (if alt_on s1 = 1 \<and> temp = SCAN_FONE then terminalone s1 else s1)"
  have "dev_only s s1" by (simp add: dev_only_def s1_def s0_def)
  moreover have "term_inv s1" using inv by (simp add: s1_def s0_def in_kernel_def)
  ultimately have "in_kernel vm q ps s1" using in_kernel_dev [OF inv] by blast
  then have s2: "in_kernel vm q ps s2"
    by (rule in_kernel_dev) (use \<open>term_inv s1\<close> in \<open>simp_all add: s2_def dev_only_def t1.switch_inv\<close>)
  define r3 where "r3 = (if alt_on s2 = 1 \<and> temp = SCAN_FTWO then open_shell hb eb 1 (terminaltwo s2) else Inr (Key_return, s2))"
  have two: "in_kernel vm q ps (terminaltwo u)" "in_kernel vm q ps (terminalthree u)" if "in_kernel vm q ps u" for u
    by (rule in_kernel_dev [OF that]; use that in \<open>simp add: dev_only_def in_kernel_def t2.switch_inv t3.switch_inv\<close>)+
  have r3: "res' = Key_return \<and> in_kernel vm q ps u \<or> (\<exists>e i. res' = Key_enter e \<and> term_inv u \<and> proc_inv vm q (i # ps) u)"
    if "r3 = Inr (res', u)" for res' u
    using that in_kernel_open_shell [OF two(1) [OF s2], of hb eb 1 res' u] s2 by (auto simp: r3_def split: if_splits)
  define r4 where "r4 u = (if alt_on u = 1 \<and> temp = SCAN_FTHREE then open_shell hb eb 2 (terminalthree u) else Inr (Key_return, u))" for u :: kernel
  have r4: "res' = Key_return \<and> in_kernel vm q ps v \<or> (\<exists>e i. res' = Key_enter e \<and> term_inv v \<and> proc_inv vm q (i # ps) v)"
    if "r4 u = Inr (res', v)" "in_kernel vm q ps u" for res' u v
    using that in_kernel_open_shell [OF two(2), of u hb eb 2 res' v] by (auto simp: r4_def split: if_splits)
  have edit: "in_kernel vm q ps (key_edit junk temp u)" if "in_kernel vm q ps u" for u
    by (rule in_kernel_dev [OF that]; use that in \<open>simp add: dev_only_def in_kernel_def term_inv_key_edit\<close>)
  have "Inr (res, t) = (case r3 of Inl e \<Rightarrow> Inl e | Inr (Key_enter e, u) \<Rightarrow> Inr (Key_enter e, u)
      | Inr (Key_return, u) \<Rightarrow> (case r4 u of Inl e \<Rightarrow> Inl e | Inr (Key_enter e, v) \<Rightarrow> Inr (Key_enter e, v)
          | Inr (Key_return, v) \<Rightarrow> Inr (Key_return, key_edit junk temp v)))"
    using k [symmetric] unfolding keyboard_interrupt_def Let_def case_prod_beta r3_def r4_def s2_def s1_def s0_def temp_def
    by (simp only:)
  then show ?thesis
    using r3 r4 edit by (auto split: sum.splits key_result.splits; metis key_result.distinct key_result.inject)
qed

section \<open>Reachable configurations\<close>

definition config_inv :: "bool \<Rightarrow> paging \<Rightarrow> config \<Rightarrow> bool" where
  "config_inv vm q c \<longleftrightarrow> fst c = [] \<or> term_inv (snd c) \<and> (\<exists>ps. length ps = length (fst c) \<and> proc_inv vm q ps (snd c))"

lemma term_inv_enter_kernel [simp]: "term_inv (enter_kernel e b s) = term_inv s"
  by (simp add: enter_kernel_def)

lemma config_invE:
  assumes "config_inv vm q (m # ms, s)" and "stack_ok e s"
  obtains p ps where "in_kernel vm q (p # ps) (enter_kernel e b s)" and "length ps = length ms"
proof -
  from assms(1) obtain ps where ps: "length ps = Suc (length ms)" "proc_inv vm q ps s" "term_inv s"
    by (auto simp: config_inv_def)
  then obtain p ps' where c: "ps = p # ps'" by (cases ps) auto
  have "p < 6" using proc_inv_hd [OF ps(2)] c by simp
  then have "on_stack p e"
    using ps(2) stack_ok_on_stack [OF assms(2)] by (simp add: c proc_inv_def)
  then have "in_kernel vm q (p # ps') (enter_kernel e b s)"
    using ps c by (simp add: in_kernel_def) (simp add: enter_kernel_def)
  then show ?thesis using that [of p ps'] ps(1) c by simp
qed

lemma config_invI: "proc_inv vm q ps s \<Longrightarrow> term_inv s \<Longrightarrow> length ps = length ms \<Longrightarrow> config_inv vm q (ms, s)"
  by (auto simp: config_inv_def)

lemma config_inv_same:
  assumes "config_inv vm q (m # ms, s)" and "stack_ok e s" and "inv_step (enter_kernel e b s) t"
  shows "config_inv vm q (m' # ms, t)"
proof -
  from config_invE [OF assms(1,2), of b] obtain p ps where "in_kernel vm q (p # ps) (enter_kernel e b s)" "length ps = length ms" .
  note k = this
  have "proc_inv vm q (p # ps) t" using proc_inv_step [OF _ assms(3)] k(1) by (simp only: in_kernel_def)
  moreover have "term_inv t" using assms(3) k(1) by (simp only: in_kernel_def inv_step_def)
  ultimately show ?thesis using k(2) by (intro config_invI [of _ _ "p # ps"]) simp_all
qed

lemma sys_execute_term_inv: "sys_execute hb eb c s = Inr (Exec_enter e, t) \<Longrightarrow> term_inv t = term_inv s"
proof (cases c)
  case (Some command)
  assume "sys_execute hb eb c s = Inr (Exec_enter e, t)"
  then show ?thesis unfolding Some by (rule sys_execute_enter) simp
qed (simp add: sys_execute_def)

lemma inv_step_vidmap:
  assumes "proc_inv True q ps s" and "sys_vidmap pt vt p s = Inr (r, t)"
  shows "proc_inv True q ps t \<and> (term_inv s \<longrightarrow> term_inv t)"
proof -
  have "\<exists>pg v. t = s\<lparr>paging := pg, vid := v\<rparr>"
  proof (cases "t = s")
    case True
    then show ?thesis by (intro exI [of _ "paging s"] exI [of _ "vid s"]) simp
  next
    case False
    with assms(2) show ?thesis by (auto simp: sys_vidmap_def Let_def split: if_splits option.splits)
  qed
  then obtain pg v where "t = s\<lparr>paging := pg, vid := v\<rparr>" by blast
  then show ?thesis using assms(1) by (auto intro: proc_inv_keep simp: term_inv_def line_inv_def slots_inv_def)
qed

lemma config_inv_kstep:
  assumes "kstep vm c d" and "config_inv vm q c"
  shows "config_inv vm q d"
  using assms
proof (induction rule: kstep.induct)
  case (tick e s m ms dev b)
  then show ?case by (auto intro: config_inv_same inv_step_rtc_interrupt)
next
  case (key e s dev hb eb junk b t m ms)
  from config_invE [OF key(3,1), of b] obtain p ps where "in_kernel vm q (p # ps) (enter_kernel e b s)" "length ps = length ms" .
  with in_kernel_keyboard_interrupt [OF this(1) key(2)] show ?case
    by (auto intro: config_invI simp: in_kernel_def)
next
  case (key_shell e s dev hb eb junk b entry t m ms)
  from config_invE [OF key_shell(3,1), of b] obtain p ps where "in_kernel vm q (p # ps) (enter_kernel e b s)" "length ps = length ms" .
  with in_kernel_keyboard_interrupt [OF this(1) key_shell(2)] show ?case
    by (auto intro: config_invI)
next
  case (execute_fails e s hb eb cmd b r t ms)
  from config_invE [OF execute_fails(3,1), of b] obtain p ps where "in_kernel vm q (p # ps) (enter_kernel e b s)" "length ps = length ms" .
  with in_kernel_execute_fails [OF this(1) execute_fails(2)] show ?case
    by (auto intro: config_invI simp: in_kernel_def)
next
  case (execute e s hb eb cmd b entry t ms)
  from config_invE [OF execute(3,1), of b] obtain p ps where
    k: "in_kernel vm q (p # ps) (enter_kernel e b s)" "length ps = length ms" .
  then show ?case
    using proc_inv_execute [OF _ _ execute(2), of vm q "p # ps"] sys_execute_term_inv [OF execute(2)]
    by (auto intro!: config_invI simp: in_kernel_def)
next
  case (halt e s hb eb status b r t m ms)
  from config_invE [OF halt(3,1), of b] obtain p ps where
    k: "in_kernel vm q (p # ps) (enter_kernel e b s)" "length ps = length (m # ms)" .
  then obtain p' ps' where "ps = p' # ps'" by (cases ps) auto
  with k proc_inv_halt [OF _ _ halt(2), of vm q p p' ps'] show ?case
    by (auto intro!: config_invI simp: in_kernel_def)
next
  case (halt_base e s hb eb status b entry t)
  from config_invE [OF halt_base(3,1), of b] obtain p ps where
    k: "in_kernel vm q (p # ps) (enter_kernel e b s)" "length ps = length ([] :: mode list)" .
  then show ?case
    using proc_inv_halt_base [OF _ _ halt_base(2), of vm q p] by (auto intro!: config_invI [of _ _ "[0]"] simp: in_kernel_def)
next
  case (halt_last e s hb eb status b r t)
  then show ?case by (simp add: config_inv_def)
next
  case (read_call e s fd buf n b r buf' t ms)
  then show ?case by (auto intro: config_inv_same inv_step_sys_read)
next
  case (read_line e s fd n b ms buf)
  show ?case using config_inv_same [OF read_line(8,1) inv_step_refl] .
next
  case (line_ready s buf n r buf' t ms)
  then show ?case
    using inv_step_terminal_read [OF line_ready(2)] by (auto simp: config_inv_def inv_step_def intro: proc_inv_keep)
next
  case (read_tick e s fd n b ms)
  have "inv_step (enter_kernel e b s) ((enter_kernel e b s)\<lparr>int_flag := 1\<rparr>)"
    by (rule inv_step_dev) (simp_all add: dev_only_def)
  with read_tick show ?case by (blast intro: config_inv_same)
next
  case (tick_ready s ms)
  then show ?case by (simp add: config_inv_def)
next
  case (write_call e s dev fd buf n b r t ms)
  then show ?case by (auto intro: config_inv_same inv_step_sys_write)
next
  case (open_file e s name b r t ms)
  then show ?case by (auto intro: config_inv_same inv_step_sys_open)
next
  case (close_file e s fd b r t ms)
  then show ?case by (auto intro: config_inv_same inv_step_sys_close)
next
  case (vidmap e s pt vt p b r t ms)
  from config_invE [OF vidmap(4,2), of b] obtain p ps where
    "in_kernel vm q (p # ps) (enter_kernel e b s)" "length ps = length ms" .
  then show ?case
    using inv_step_vidmap [OF _ vidmap(3), of q "p # ps"] vidmap(1) by (auto intro!: config_invI simp: in_kernel_def)
qed

section \<open>Properties\<close>

lemma reachable_inv: "reachable vm q c \<Longrightarrow> config_inv vm q c"
proof (induction rule: reachable.induct)
  case (boot s hb eb entry t)
  have i: "processes (terminal_init_state s) = replicate 6 0" "paging (terminal_init_state s) = q"
    "term_inv (terminal_init_state s)"
    using boot(1) by (simp_all add: boot_state_def) (simp_all add: terminal_init_state_def Let_def)
  from boot(2) have ex: "sys_execute hb eb (Some (bytes ''shell'' @ [0])) (terminal_init_state s) = Inr (Exec_enter entry, t)"
    by (simp add: terminal_init_def)
  have "proc_inv vm q [0] t" "term_inv t"
    using proc_inv_base [OF _ _ _ ex, of vm q] i by simp_all
  then show ?case by (rule config_invI) simp
next
  case (step c d)
  then show ?case by (blast intro: config_inv_kstep)
qed

lemma get_pcb_enter:
  assumes "stack_ok e s" and "tss_esp0 s = EIGHTMB - EIGHTKB * of_nat p - 4" and "p < 6"
  shows "get_pcb (enter_kernel e b s) = pcb_addr (int p)"
  using stack_ok_on_stack [OF assms] assms(3) by (intro on_stack_get_pcb) (simp_all add: enter_kernel_def)

text \<open>
  C1: in every configuration the kernel can reach, the active processes form a chain. They have
  different process numbers below six, their slots in \<open>processes\<close> are taken, each control
  block carries its own number, the first process is process 0, and every process but it is a child
  of the next in the chain, with the saved stack pointer on its parent's kernel stack. Whenever the
  kernel is entered, \<open>get_pcb\<close> yields the control block of the running process. The terminal's
  invariant holds, so no index into the line buffers leaves them.
\<close>

theorem reachable_process_chain:
  assumes "reachable vm q (m # ms, s)"
  shows "term_inv s \<and> (\<exists>ps. length ps = Suc (length ms) \<and> distinct ps \<and> last ps = 0
    \<and> (\<forall>p\<in>set ps. p < 6 \<and> processes s ! p \<noteq> 0 \<and> proc_num (pcb_at s (pcb_addr (int p))) = int p)
    \<and> (\<forall>i<length ms. parent_proc_num (pcb_at s (pcb_addr (int (ps ! i)))) = int (ps ! Suc i)
         \<and> on_stack (ps ! Suc i) (esp (pcb_at s (pcb_addr (int (ps ! i))))))
    \<and> (\<forall>e b. stack_ok e s \<longrightarrow> get_pcb (enter_kernel e b s) = pcb_addr (int (hd ps))))"
proof -
  from reachable_inv [OF assms] obtain ps where ps: "length ps = Suc (length ms)" "proc_inv vm q ps s" "term_inv s"
    by (auto simp: config_inv_def)
  have ch: "chain s ps" "distinct ps" "tss_esp0 s = EIGHTMB - EIGHTKB * of_nat (hd ps) - 4"
    using ps(2) by (simp_all add: proc_inv_def)
  have l: "last ps = 0" using ch(1) by (induction s ps rule: chain.induct) auto
  have links: "\<forall>i. Suc i < length ps \<longrightarrow> child_of s (ps ! i) (ps ! Suc i)"
    using ch(1) by (induction s ps rule: chain.induct) (auto simp: nth_Cons split: nat.splits)
  have hd: "hd ps < 6" using proc_inv_hd [OF ps(2)] by simp
  have "\<forall>p\<in>set ps. p < 6 \<and> processes s ! p \<noteq> 0 \<and> proc_num (pcb_at s (pcb_addr (int p))) = int p"
    using chain_active [OF ch(1)] by (simp add: active_def)
  moreover have "\<forall>i<length ms. parent_proc_num (pcb_at s (pcb_addr (int (ps ! i)))) = int (ps ! Suc i)
         \<and> on_stack (ps ! Suc i) (esp (pcb_at s (pcb_addr (int (ps ! i)))))"
    using links ps(1) by (auto simp: child_of_def)
  moreover have "\<forall>e b. stack_ok e s \<longrightarrow> get_pcb (enter_kernel e b s) = pcb_addr (int (hd ps))"
    using get_pcb_enter [OF _ ch(3) hd] by blast
  ultimately show ?thesis using ps(1,3) ch(2) l by blast
qed

text \<open>
  C2: there are never more than six active processes, and without \<open>sys_vidmap\<close> a running
  program can reach exactly the 4 MB frame of its own process: in every reachable configuration a user access translates
  to the frame of the process whose control block the kernel would find, and faults outside the
  program page.
\<close>

theorem reachable_memory_isolated:
  assumes "reachable False (page_fill pt q) (m # ms, s)" and "pt AND 0xFFF = 0"
  shows "length ms < 6 \<and> (\<exists>p<6. processes s ! p \<noteq> 0
    \<and> (\<forall>e b. stack_ok e s \<longrightarrow> proc_num (cur_pcb (enter_kernel e b s)) = int p)
    \<and> (\<forall>a. translate pt vt (paging s) True a =
        (if 0x8000000 \<le> a \<and> a < 0x8400000 then Some (program_frame (int p) + (a - 0x8000000)) else None)))"
proof -
  from reachable_inv [OF assms(1)] obtain ps where ps: "length ps = Suc (length ms)" "proc_inv False (page_fill pt q) ps s"
    by (auto simp: config_inv_def)
  have ch: "chain s ps" "distinct ps" "tss_esp0 s = EIGHTMB - EIGHTKB * of_nat (hd ps) - 4"
    "paging s = with_program (int (hd ps)) (page_fill pt q)"
    using ps(2) by (simp_all add: proc_inv_def)
  have "set ps \<subseteq> {..<6}" using chain_active [OF ch(1)] by (auto simp: active_def)
  then have "length ps \<le> 6" using ch(2) card_mono [of "{..<6}" "set ps"] by (simp add: distinct_card)
  then have "length ms < 6" using ps(1) by simp
  moreover have hd: "hd ps < 6" "active s (hd ps)" using proc_inv_hd [OF ps(2)] chain_active [OF ch(1)] by auto
  moreover have "proc_num (cur_pcb (enter_kernel e b s)) = int (hd ps)" if "stack_ok e s" for e b
    using get_pcb_enter [OF that ch(3) hd(1), of b] hd(2) by (simp add: active_def) (simp add: enter_kernel_def)
  ultimately show ?thesis
    using translate_program [OF assms(2), of "int (hd ps)" vt q] ch(4) by (auto intro!: exI [of _ "hd ps"] simp: active_def)
qed

text \<open>A machine that boots: zeroed globals, \<open>page_fill\<close> done, the demonstration file system.\<close>

definition demo_boot :: kernel where
  "demo_boot = (terminal_init_state demo_kernel)\<lparr>processes := replicate 6 0,
     paging := page_fill 0x405000 (paging demo_kernel)\<rparr>"

lemma demo_boot_fields:
  "processes demo_boot = replicate 6 0" "paging demo_boot = page_fill 0x405000 (paging demo_kernel)"
  "fs demo_boot = demo_fs" "pcb_at demo_boot = (\<lambda>_. demo_pcb)" "frame_at demo_boot = (\<lambda>_. replicate 0x400000 0)"
  using demo_kernel_fields
  by (simp_all add: demo_boot_def terminal_init_state_def Let_def)

lemma demo_boots:
  obtains e t where "terminal_init (replicate 40 0) (replicate 4 0) demo_boot = Inr (Exec_enter e, t)"
    and "boot_state (page_fill 0x405000 (paging demo_kernel)) demo_boot"
proof -
  let ?s = "terminal_init_state demo_boot"
  have "startable (bytes ''shell'' @ [0]) 0 1 0 ?s"
    by (rule demo_startableI)
      (simp_all add: terminal_init_state_def Let_def demo_boot_fields free_slot.simps page_fill_dir)
  from sys_execute_startable [OF this, of "replicate 40 0" "replicate 4 0"] obtain e t where
    "terminal_init (replicate 40 0) (replicate 4 0) demo_boot = Inr (Exec_enter e, t)"
    by (metis length_replicate terminal_init_def)
  moreover have "term_inv ?s"
  proof -
    have len: "length (keyboard_buffer demo_kernel) = 128" "length (keyboard_buffer1 demo_kernel) = 128"
      "length (keyboard_buffer2 demo_kernel) = 128" "length (keyboard_buffer3 demo_kernel) = 128"
      "length (video_buffer1 demo_kernel) = 4096" "length (video_buffer2 demo_kernel) = 4096"
      "length (video_buffer3 demo_kernel) = 4096" "length (terminal_used demo_kernel) = 3"
      "screen_x demo_kernel = 0" "screen_y demo_kernel = 0"
      by (simp_all add: demo_kernel_def terminal.defs bss_terminal_def)
    have z: "length (fold (\<lambda>i b. b[i := 0 :: u8]) xs b) = length b" for xs b
      by (induction xs arbitrary: b) simp_all
    show ?thesis
      by (simp add: demo_boot_def terminal_init_state_def Let_def term_inv_def line_inv_def slots_inv_def
          len z idx_ok_def xy_ok_def del: upt_rec_numeral)
  qed
  then have "boot_state (page_fill 0x405000 (paging demo_kernel)) demo_boot"
    by (simp add: boot_state_def demo_boot_fields)
  ultimately show ?thesis by (rule that)
qed

theorem reachable_process_chain_witness:
  "\<exists>q m s. reachable False q ([m], s) \<and> term_inv s \<and> (\<forall>e b. stack_ok e s \<longrightarrow> get_pcb (enter_kernel e b s) = pcb_addr 0)"
proof -
  from demo_boots obtain e t where b: "terminal_init (replicate 40 0) (replicate 4 0) demo_boot = Inr (Exec_enter e, t)"
    "boot_state (page_fill 0x405000 (paging demo_kernel)) demo_boot" .
  then have r: "reachable False (page_fill 0x405000 (paging demo_kernel)) ([User], t)" by (auto intro: reachable.boot)
  from reachable_process_chain [OF r] obtain ps where "term_inv t" "length ps = 1" "last ps = 0"
    "\<forall>e b. stack_ok e t \<longrightarrow> get_pcb (enter_kernel e b t) = pcb_addr (int (hd ps))" by auto
  then have "\<forall>e b. stack_ok e t \<longrightarrow> get_pcb (enter_kernel e b t) = pcb_addr 0"
    by (cases ps) auto
  with r \<open>term_inv t\<close> show ?thesis by blast
qed

theorem reachable_memory_isolated_witness:
  "\<exists>q s p. reachable False (page_fill 0x405000 q) ([User], s) \<and> p < 6
     \<and> translate 0x405000 0x406000 (paging s) True 0x8048000 = Some (program_frame (int p) + 0x48000)
     \<and> translate 0x405000 0x406000 (paging s) True 0x400000 = None"
proof -
  from demo_boots obtain e t where b: "terminal_init (replicate 40 0) (replicate 4 0) demo_boot = Inr (Exec_enter e, t)"
    "boot_state (page_fill 0x405000 (paging demo_kernel)) demo_boot" .
  then have r: "reachable False (page_fill 0x405000 (paging demo_kernel)) ([User], t)" by (auto intro: reachable.boot)
  from reachable_memory_isolated [OF r, of "0x406000"] obtain p where "p < 6"
    "\<forall>a. translate 0x405000 0x406000 (paging t) True a =
        (if 0x8000000 \<le> a \<and> a < 0x8400000 then Some (program_frame (int p) + (a - 0x8000000)) else None)" by auto
  then show ?thesis using r by (intro exI [of _ "paging demo_kernel"] exI [of _ t] exI [of _ p]) simp
qed

end
