(* ===== verification/Idt.thy ===== *)
theory Idt
  imports Terminal
begin

text \<open>
  The interrupt descriptor table and the exception handlers
  (\<^verbatim>\<open>src/student-distrib/IDT.c\<close>, the descriptor type of \<^verbatim>\<open>x86_desc.h\<close>).

  The addresses of the handlers are fixed by the linker and are a parameter. What the processor
  makes of an entry is \<open>gate_of\<close>: the bits called \<open>reserved\<close> and \<open>size\<close> in the source are the
  type of the gate.
\<close>

section \<open>The table\<close>

record idt_desc =
  offset_15_00 :: u16
  seg_selector :: u16
  reserved4 :: u8
  reserved3 :: "1 word"
  reserved2 :: "1 word"
  reserved1 :: "1 word"
  idt_size :: "1 word"
  reserved0 :: "1 word"
  dpl :: "2 word"
  present :: "1 word"
  offset_31_16 :: u16

datatype handler =
    division_by_zero_int | single_step_int | NMI_int | breakpoint_int | overflow_int | bounds_int
  | invalid_opcode_int | coprocessor_unavailable_int | double_fault_int
  | coprocessor_segment_overrun_int | invalid_task_state_segment_int | segment_not_present_int
  | stack_fault_int | general_protection_fault_int | page_fault_int | math_fault_int
  | alignment_check_int | machine_check_int | simd_floating_point_exception_int
  | virtualization_exception_int | control_protection_exception_int
  | rtc_handler | keyboard_handler | system_call_handler

abbreviation NUM_VEC :: nat where "NUM_VEC \<equiv> 256"
abbreviation RESERVED_FOR_VEC :: nat where "RESERVED_FOR_VEC \<equiv> 32"
abbreviation SYSTEMCALLVECTOR :: nat where "SYSTEMCALLVECTOR \<equiv> 128"
abbreviation RTC_ENTRY :: nat where "RTC_ENTRY \<equiv> 0x28"
abbreviation KEYBOARD_ENTRY :: nat where "KEYBOARD_ENTRY \<equiv> 0x21"
abbreviation KERNEL_CS :: u16 where "KERNEL_CS \<equiv> 0x10"

definition upd_entry :: "nat \<Rightarrow> (idt_desc \<Rightarrow> idt_desc) \<Rightarrow> idt_desc list \<Rightarrow> idt_desc list" where
  "upd_entry i f idt = idt[i := f (idt ! i)]"

text \<open>One iteration of the loop of \<open>set_idt\<close>; the last assignment of the second branch is to entry 1.\<close>

definition set_idt_body :: "nat \<Rightarrow> idt_desc list \<Rightarrow> idt_desc list" where
  "set_idt_body i idt =
     (if i = 15 then idt
      else
        let idt = upd_entry i (\<lambda>d. d\<lparr>seg_selector := KERNEL_CS, dpl := 0, reserved4 := 0, reserved3 := 0,
                    reserved2 := 1, reserved1 := 1, reserved0 := 0, present := 1, idt_size := 1\<rparr>) idt;
            idt = (if i < RESERVED_FOR_VEC then upd_entry i (\<lambda>d. d\<lparr>reserved3 := 1\<rparr>) idt else idt);
            idt = (if i \<ge> 32 \<and> i \<le> 40 then
                     let idt = upd_entry i (\<lambda>d. d\<lparr>seg_selector := KERNEL_CS, present := 1, dpl := 0, idt_size := 1,
                                 reserved3 := 1, reserved2 := 1, reserved1 := 1, reserved0 := 0\<rparr>) idt
                     in upd_entry 1 (\<lambda>d. d\<lparr>reserved4 := 0\<rparr>) idt
                   else idt)
        in if i = SYSTEMCALLVECTOR then
             upd_entry i (\<lambda>d. d\<lparr>dpl := 3, reserved3 := 1, reserved2 := 1, reserved1 := 1, idt_size := 1\<rparr>) idt
           else idt)"

definition SET_IDT_ENTRY :: "u32 \<Rightarrow> idt_desc \<Rightarrow> idt_desc" where
  "SET_IDT_ENTRY h str =
     str\<lparr>offset_31_16 := ucast (drop_bit 16 (h AND 0xFFFF0000)), offset_15_00 := ucast (h AND 0xFFFF)\<rparr>"

definition idt_handlers :: "(nat \<times> handler) list" where
  "idt_handlers =
     [(0, division_by_zero_int), (1, single_step_int), (2, NMI_int), (3, breakpoint_int), (4, overflow_int),
      (5, bounds_int), (6, invalid_opcode_int), (7, coprocessor_unavailable_int), (8, double_fault_int),
      (9, coprocessor_segment_overrun_int), (10, invalid_task_state_segment_int),
      (11, segment_not_present_int), (12, stack_fault_int), (13, general_protection_fault_int),
      (14, page_fault_int), (16, math_fault_int), (17, alignment_check_int), (18, machine_check_int),
      (19, simd_floating_point_exception_int), (20, virtualization_exception_int),
      (21, control_protection_exception_int),
      (RTC_ENTRY, rtc_handler), (KEYBOARD_ENTRY, keyboard_handler), (SYSTEMCALLVECTOR, system_call_handler)]"

definition set_idt :: "(handler \<Rightarrow> u32) \<Rightarrow> idt_desc list \<Rightarrow> idt_desc list" where
  "set_idt addr idt =
     fold (\<lambda>(i, h). upd_entry i (SET_IDT_ENTRY (addr h))) idt_handlers (fold set_idt_body [0..<NUM_VEC] idt)"

section \<open>Exceptions\<close>

definition exception_message :: "handler \<Rightarrow> string" where
  "exception_message h =
     (case h of
        division_by_zero_int \<Rightarrow> ''division by zero exception''
      | single_step_int \<Rightarrow> ''single step exception''
      | NMI_int \<Rightarrow> ''NMI exception''
      | breakpoint_int \<Rightarrow> ''breakpoint exception''
      | overflow_int \<Rightarrow> ''overflow exception''
      | bounds_int \<Rightarrow> ''bounds exception''
      | invalid_opcode_int \<Rightarrow> ''invalid opcode exception''
      | coprocessor_unavailable_int \<Rightarrow> ''coprocessor unavailable exception''
      | double_fault_int \<Rightarrow> ''double fault exception''
      | coprocessor_segment_overrun_int \<Rightarrow> ''coprocessor segment overrun exception''
      | invalid_task_state_segment_int \<Rightarrow> ''invalid task state segment exception''
      | segment_not_present_int \<Rightarrow> ''segment not present exception''
      | stack_fault_int \<Rightarrow> ''stack fault exception''
      | general_protection_fault_int \<Rightarrow> ''general protection fault exception''
      | page_fault_int \<Rightarrow> ''page fault exception''
      | math_fault_int \<Rightarrow> ''math fault exception''
      | alignment_check_int \<Rightarrow> ''alignment check exception''
      | machine_check_int \<Rightarrow> ''machine check exception''
      | simd_floating_point_exception_int \<Rightarrow> ''SIMD floating point exception''
      | virtualization_exception_int \<Rightarrow> ''virtualization exception''
      | control_protection_exception_int \<Rightarrow> ''control protection exception''
      | _ \<Rightarrow> [])"

text \<open>
  The exception handlers have one shape: interrupts off, the message, an endless loop. The result
  is the state in which the handler loops: with interrupts off nothing changes it any more.
  \<^const>\<open>None\<close> would be a format the printing cannot handle.
\<close>

definition exception_int :: "(u32 \<Rightarrow> u8 list) \<Rightarrow> handler \<Rightarrow> 'a console_scheme \<Rightarrow> 'a console_scheme option" where
  "exception_int str h s = map_option snd (printf str (bytes (exception_message h) @ [0]) [] s)"

section \<open>Gates\<close>

record gate =
  is_trap :: bool
  privilege :: nat
  selector :: u16
  target :: u32

definition gate_of :: "idt_desc \<Rightarrow> gate option" where
  "gate_of d =
     (if present d = 1 \<and> reserved0 d = 0 \<and> idt_size d = 1 \<and> reserved1 d = 1 \<and> reserved2 d = 1 \<and> reserved4 d = 0
      then Some \<lparr>is_trap = (reserved3 d = 1), privilege = unat (dpl d), selector = seg_selector d,
                 target = push_bit 16 (ucast (offset_31_16 d)) OR ucast (offset_15_00 d)\<rparr>
      else None)"

text \<open>The entry the loop leaves at index \<open>i\<close>.\<close>

definition filled :: "nat \<Rightarrow> idt_desc \<Rightarrow> idt_desc" where
  "filled i d =
     (if i = 15 then d
      else d\<lparr>seg_selector := KERNEL_CS, dpl := if i = SYSTEMCALLVECTOR then 3 else 0, reserved4 := 0,
             reserved3 := if i \<le> 40 \<or> i = SYSTEMCALLVECTOR then 1 else 0,
             reserved2 := 1, reserved1 := 1, reserved0 := 0, present := 1, idt_size := 1\<rparr>)"

lemma upd_entry_nth [simp]:
  "i < length idt \<Longrightarrow> upd_entry i f idt ! j = (if j = i then f (idt ! i) else idt ! j)"
  "length (upd_entry i f idt) = length idt"
  by (auto simp: upd_entry_def)

lemma set_idt_body_nth:
  assumes "length idt = 256" and "i < 256" and "1 < i \<Longrightarrow> reserved4 (idt ! 1) = 0"
  shows "set_idt_body i idt ! j = (if j = i then filled i (idt ! i) else idt ! j)"
proof (cases "32 \<le> i \<and> i \<le> 40")
  case True
  have "(idt ! 1)\<lparr>reserved4 := 0\<rparr> = idt ! 1" using assms(3) True by (cases "idt ! 1") simp
  with True assms show ?thesis by (auto simp: set_idt_body_def filled_def Let_def)
next
  case False
  with assms show ?thesis by (auto simp: set_idt_body_def filled_def Let_def)
qed

lemma length_set_idt_body [simp]: "length (set_idt_body i idt) = length idt"
  by (simp add: set_idt_body_def Let_def)

lemma set_idt_loop:
  assumes "length idt = 256" and "n \<le> 256"
  shows "length (fold set_idt_body [0..<n] idt) = 256 \<and>
    (\<forall>j. fold set_idt_body [0..<n] idt ! j = (if j < n then filled j (idt ! j) else idt ! j))"
  using assms(2)
proof (induction n)
  case (Suc n)
  let ?t = "fold set_idt_body [0..<n] idt"
  from Suc have IH: "length ?t = 256" "\<And>j. ?t ! j = (if j < n then filled j (idt ! j) else idt ! j)" by simp_all
  have "reserved4 (?t ! 1) = 0" if "1 < n" using that by (simp add: IH filled_def)
  with set_idt_body_nth [OF IH(1), of n] Suc.prems IH show ?case by (auto simp: less_Suc_eq)
qed (use assms in simp)

lemma fold_entries:
  assumes "distinct (map fst hs)" and "\<forall>(i, h)\<in>set hs. i < length idt"
  shows "length (fold (\<lambda>(i, h). upd_entry i (F h)) hs idt) = length idt \<and>
    fold (\<lambda>(i, h). upd_entry i (F h)) hs idt ! j = (case map_of hs j of None \<Rightarrow> idt ! j | Some h \<Rightarrow> F h (idt ! j))"
  using assms
proof (induction hs arbitrary: idt)
  case (Cons p hs)
  obtain i h where p: "p = (i, h)" by (cases p)
  have "map_of hs i = None" using Cons.prems(1) p by (simp add: map_of_eq_None_iff)
  with Cons.prems Cons.IH [of "upd_entry i (F h) idt"] p show ?case
    by (auto split: option.splits)
qed simp

lemma handlers_distinct: "distinct (map fst idt_handlers)" "\<forall>(i, h)\<in>set idt_handlers. i < 256"
  by (simp_all add: idt_handlers_def)

lemma offset_halves:
  "push_bit 16 (ucast (ucast (drop_bit 16 (h AND 0xFFFF0000)) :: u16)) OR ucast (ucast (h AND 0xFFFF) :: u16) = (h :: u32)"
proof (rule bit_word_eqI)
  fix n assume n: "n < LENGTH(32)"
  have lo: "(0xFFFF :: u32) = mask 16" and hi: "(0xFFFF0000 :: u32) = push_bit 16 (mask 16)"
    by (simp_all add: mask_eq_exp_minus_1 push_bit_eq_mult)
  show "bit (push_bit 16 (ucast (ucast (drop_bit 16 (h AND 0xFFFF0000)) :: u16)) OR ucast (ucast (h AND 0xFFFF) :: u16) :: u32) n = bit h n"
    unfolding lo hi using n
    by (cases "n < 16") (auto simp: bit_or_iff bit_push_bit_iff bit_ucast_iff bit_and_iff bit_mask_iff bit_drop_bit_eq)
qed

section \<open>Properties\<close>



lemma printf_loop_plain:
  "0 \<notin> set cs \<Longrightarrow> of_char CHR ''%'' \<notin> set cs \<Longrightarrow> printf_loop str (cs @ [0]) args = Some (cs, [0])"
  by (induction cs) (simp_all add: emit_def)

lemma exception_message_plain:
  "list_all (\<lambda>c. c \<noteq> 0 \<and> c \<noteq> of_char CHR ''%'' \<and> c \<noteq> 10 \<and> c \<noteq> 13) (bytes (exception_message h))"
  by (cases h) (simp_all add: exception_message_def bytes_def)

text \<open>
  An exception shows its message. Whatever exception occurs, its handler prints its
  message in the cells from the cursor on, when it fits before the end of the screen, changes no
  other character, and then loops in that state.
\<close>

lemma exception_shows_message:
  assumes "con_inv s" and "screen_pos s + int (length (exception_message h)) < 2000"
  shows "\<exists>t. exception_int str h s = Some t \<and> con_inv t
    \<and> (\<forall>k. vid t (2 * k) =
          (if screen_pos s \<le> k \<and> k < screen_pos s + int (length (exception_message h))
           then of_char (exception_message h ! nat (k - screen_pos s)) else vid s (2 * k)))"
proof -
  let ?m = "bytes (exception_message h)"
  have "list_all (\<lambda>c. c \<noteq> 10 \<and> c \<noteq> 13) ?m" and z: "0 \<notin> set ?m" "of_char CHR ''%'' \<notin> set ?m"
    using exception_message_plain [of h] by (auto simp: list_all_iff)
  with con.print_text [OF assms(1), of ?m] assms(2) have
    "\<forall>k. vid (fold putc ?m s) (2 * k) = (if screen_pos s \<le> k \<and> k < screen_pos s + int (length ?m) then ?m ! nat (k - screen_pos s) else vid s (2 * k))"
    by (simp add: bytes_def)
  moreover have "exception_int str h s = Some (fold putc ?m s)"
    using printf_loop_plain [OF z] by (simp add: exception_int_def printf_def)
  ultimately show ?thesis using con.print_inv [OF assms(1)] by (auto simp: bytes_def)
qed

end
