(* ===== verification/Boot.thy ===== *)
theory Boot
  imports Kernel Idt
begin

text \<open>
  The boot sequence: \<open>entry\<close> of \<^verbatim>\<open>src/student-distrib/kernel.c\<close>, with the structures of
  \<^verbatim>\<open>multiboot.h\<close> and the segment descriptors of \<^verbatim>\<open>x86_desc.h\<close>.

  The multiboot structures are read from the boot memory \<open>m\<close>; \<open>str\<close> gives the strings
  \<open>printf\<close> is handed by address. The addresses the linker chooses are the record \<open>layout\<close>.
  Loading the descriptor table registers and the test runs after \<open>terminal_init\<close>
  have no effect on this state.
\<close>

section \<open>Segment descriptors\<close>

record seg_desc =
  seg_lim_15_00 :: u16
  base_15_00 :: u16
  base_23_16 :: u8
  seg_type :: "4 word"
  seg_sys :: "1 word"
  seg_dpl :: "2 word"
  seg_present :: "1 word"
  seg_lim_19_16 :: "4 word"
  avail :: "1 word"
  seg_reserved :: "1 word"
  opsize :: "1 word"
  granularity :: "1 word"
  base_31_24 :: u8

definition SET_LDT_PARAMS :: "u32 \<Rightarrow> u32 \<Rightarrow> seg_desc \<Rightarrow> seg_desc" where
  "SET_LDT_PARAMS addr lim str =
     str\<lparr>base_31_24 := ucast (drop_bit 24 (addr AND 0xFF000000)),
         base_23_16 := ucast (drop_bit 16 (addr AND 0x00FF0000)),
         base_15_00 := ucast (addr AND 0x0000FFFF),
         seg_lim_19_16 := ucast (drop_bit 16 (lim AND 0x000F0000)),
         seg_lim_15_00 := ucast (lim AND 0x0000FFFF)\<rparr>"

definition SET_TSS_PARAMS :: "u32 \<Rightarrow> u32 \<Rightarrow> seg_desc \<Rightarrow> seg_desc" where
  "SET_TSS_PARAMS addr lim str =
     str\<lparr>base_31_24 := ucast (drop_bit 24 (addr AND 0xFF000000)),
         base_23_16 := ucast (drop_bit 16 (addr AND 0x00FF0000)),
         base_15_00 := ucast (addr AND 0x0000FFFF),
         seg_lim_19_16 := ucast (drop_bit 16 (lim AND 0x000F0000)),
         seg_lim_15_00 := ucast (lim AND 0x0000FFFF)\<rparr>"

record layout =
  page_table_addr :: u32
  video_table_addr :: u32
  ldt_addr :: u32
  ldt_size :: u32
  tss_addr :: u32
  tss_size :: u32
  handler_addr :: "handler \<Rightarrow> u32"

record tables =
  idt :: "idt_desc list"
  ldt_desc_ptr :: seg_desc
  tss_desc_ptr :: seg_desc
  ldt_segment_selector :: u16

abbreviation TSS_SIZE :: u32 where "TSS_SIZE \<equiv> 104"
abbreviation KERNEL_LDT :: u16 where "KERNEL_LDT \<equiv> 0x38"
abbreviation MULTIBOOT_BOOTLOADER_MAGIC :: u32 where "MULTIBOOT_BOOTLOADER_MAGIC \<equiv> 0x2BADB002"

text \<open>
  The two descriptors \<open>entry\<close> builds; \<open>d\<close> is the uninitialised local, all of whose fields are set.
\<close>

definition the_ldt_desc :: "layout \<Rightarrow> seg_desc \<Rightarrow> seg_desc" where
  "the_ldt_desc lay d =
     SET_LDT_PARAMS (ldt_addr lay) (ldt_size lay)
       (d\<lparr>granularity := 0, opsize := 1, seg_reserved := 0, avail := 0, seg_present := 1, seg_dpl := 0,
          seg_sys := 0, seg_type := 2\<rparr>)"

definition the_tss_desc :: "layout \<Rightarrow> seg_desc \<Rightarrow> seg_desc" where
  "the_tss_desc lay d =
     SET_TSS_PARAMS (tss_addr lay) (tss_size lay)
       (d\<lparr>granularity := 0, opsize := 0, seg_reserved := 0, avail := 0,
          seg_lim_19_16 := ucast (TSS_SIZE AND 0x000F0000), seg_present := 1, seg_dpl := 0, seg_sys := 0,
          seg_type := 9, seg_lim_15_00 := ucast (TSS_SIZE AND 0x0000FFFF)\<rparr>)"

section \<open>Multiboot information\<close>

definition mbi_flags :: "memory \<Rightarrow> u32 \<Rightarrow> u32" where "mbi_flags m a = read_u32 m a"
definition mbi_mem_lower :: "memory \<Rightarrow> u32 \<Rightarrow> u32" where "mbi_mem_lower m a = read_u32 m (a + 4)"
definition mbi_mem_upper :: "memory \<Rightarrow> u32 \<Rightarrow> u32" where "mbi_mem_upper m a = read_u32 m (a + 8)"
definition mbi_boot_device :: "memory \<Rightarrow> u32 \<Rightarrow> u32" where "mbi_boot_device m a = read_u32 m (a + 12)"
definition mbi_cmdline :: "memory \<Rightarrow> u32 \<Rightarrow> u32" where "mbi_cmdline m a = read_u32 m (a + 16)"
definition mbi_mods_count :: "memory \<Rightarrow> u32 \<Rightarrow> u32" where "mbi_mods_count m a = read_u32 m (a + 20)"
definition mbi_mods_addr :: "memory \<Rightarrow> u32 \<Rightarrow> u32" where "mbi_mods_addr m a = read_u32 m (a + 24)"
definition mbi_elf_sec :: "memory \<Rightarrow> u32 \<Rightarrow> u32 list" where
  "mbi_elf_sec m a = [read_u32 m (a + 28), read_u32 m (a + 32), read_u32 m (a + 36), read_u32 m (a + 40)]"
definition mbi_mmap_length :: "memory \<Rightarrow> u32 \<Rightarrow> u32" where "mbi_mmap_length m a = read_u32 m (a + 44)"
definition mbi_mmap_addr :: "memory \<Rightarrow> u32 \<Rightarrow> u32" where "mbi_mmap_addr m a = read_u32 m (a + 48)"
definition mod_start :: "memory \<Rightarrow> u32 \<Rightarrow> u32" where "mod_start m a = read_u32 m a"
definition mod_end :: "memory \<Rightarrow> u32 \<Rightarrow> u32" where "mod_end m a = read_u32 m (a + 4)"

definition CHECK_FLAG :: "u32 \<Rightarrow> nat \<Rightarrow> bool" where
  "CHECK_FLAG fl n \<longleftrightarrow> fl AND push_bit n 1 \<noteq> 0"

definition printk :: "(u32 \<Rightarrow> u8 list) \<Rightarrow> u8 list \<Rightarrow> u32 list \<Rightarrow> 'a console_scheme \<Rightarrow> 'a console_scheme option" where
  "printk str fmt args s = map_option snd (printf str (fmt @ [0]) args s)"

text \<open>The loops over the first bytes of a module, the modules and the memory map.\<close>

primrec print_bytes :: "(u32 \<Rightarrow> u8 list) \<Rightarrow> memory \<Rightarrow> u32 \<Rightarrow> nat list \<Rightarrow> 'a console_scheme \<Rightarrow> 'a console_scheme option" where
  "print_bytes str m start [] s = Some s"
| "print_bytes str m start (i # is) s =
     do {
       s \<leftarrow> printk str (bytes ''0x%x '') [scast (m (start + of_nat i))] s;
       print_bytes str m start is s
     }"

function module_loop ::
  "(u32 \<Rightarrow> u8 list) \<Rightarrow> memory \<Rightarrow> u32 \<Rightarrow> nat \<Rightarrow> u32 \<Rightarrow> u32 \<Rightarrow> 'a console_scheme \<Rightarrow> (u32 \<times> 'a console_scheme) option" where
  "module_loop str m mods_count mod_count mp fsystem_start s =
     (if mod_count < unat mods_count then
        do {
          s \<leftarrow> printk str (bytes ''Module %d loaded at address: 0x%#x'' @ [10]) [of_nat mod_count, mod_start m mp] s;
          let fsystem_start = mod_start m mp;
          s \<leftarrow> printk str (bytes ''Module %d ends at address: 0x%#x'' @ [10]) [of_nat mod_count, mod_end m mp] s;
          s \<leftarrow> printk str (bytes ''First few bytes of module:'' @ [10]) [] s;
          s \<leftarrow> print_bytes str m (mod_start m mp) [0..<16] s;
          s \<leftarrow> printk str [10] [] s;
          module_loop str m mods_count (Suc mod_count) (mp + 16) fsystem_start s
        }
      else Some (fsystem_start, s))"
  by pat_completeness auto
termination
  by (relation "measure (\<lambda>(str, m, mods_count, mod_count, mp, fsystem_start, s). unat mods_count - mod_count)") auto

declare module_loop.simps [simp del]

partial_function (option) mmap_loop ::
  "(u32 \<Rightarrow> u8 list) \<Rightarrow> memory \<Rightarrow> u32 \<Rightarrow> u32 \<Rightarrow> 'a console_scheme \<Rightarrow> 'a console_scheme option" where
  "mmap_loop str m mmap_end mmap s =
     (if mmap < mmap_end then
        do {
          s \<leftarrow> printk str (bytes ''    size = 0x%x, base_addr = 0x%#x%#x'' @ [10] @
                 bytes ''    type = 0x%x,  length    = 0x%#x%#x'' @ [10])
                 [read_u32 m mmap, read_u32 m (mmap + 8), read_u32 m (mmap + 4), read_u32 m (mmap + 20),
                  read_u32 m (mmap + 16), read_u32 m (mmap + 12)] s;
          mmap_loop str m mmap_end (mmap + read_u32 m mmap + 4) s
        }
      else Some s)"

section \<open>The entry function\<close>

text \<open>
  \<open>boot_info\<close> is the part up to the descriptor tables: it prints the multiboot information and finds
  the start of the file system; \<open>fsystem_start\<close> is not initialised when there is no module.
  \<^const>\<open>Inl\<close> is the early return for contradictory flags.
\<close>

definition boot_info ::
  "(u32 \<Rightarrow> u8 list) \<Rightarrow> memory \<Rightarrow> u32 \<Rightarrow> u32 \<Rightarrow> 'a console_scheme \<Rightarrow> ('a console_scheme + (u32 \<times> 'a console_scheme)) option" where
  "boot_info str m addr fsystem_start s =
     do {
       let fl = mbi_flags m addr;
       s \<leftarrow> printk str (bytes ''flags = 0x%#x'' @ [10]) [fl] s;
       s \<leftarrow> (if CHECK_FLAG fl 0
             then printk str (bytes ''mem_lower = %uKB, mem_upper = %uKB'' @ [10]) [mbi_mem_lower m addr, mbi_mem_upper m addr] s
             else Some s);
       s \<leftarrow> (if CHECK_FLAG fl 1 then printk str (bytes ''boot_device = 0x%#x'' @ [10]) [mbi_boot_device m addr] s else Some s);
       s \<leftarrow> (if CHECK_FLAG fl 2 then printk str (bytes ''cmdline = %s'' @ [10]) [mbi_cmdline m addr] s else Some s);
       (fsystem_start, s) \<leftarrow>
         (if CHECK_FLAG fl 3 then module_loop str m (mbi_mods_count m addr) 0 (mbi_mods_addr m addr) fsystem_start s
          else Some (fsystem_start, s));
       if CHECK_FLAG fl 4 \<and> CHECK_FLAG fl 5 then
         do { s \<leftarrow> printk str (bytes ''Both bits 4 and 5 are set.'' @ [10]) [] s; Some (Inl s) }
       else
         do {
           s \<leftarrow> (if CHECK_FLAG fl 5
                 then printk str (bytes ''elf_sec: num = %u, size = 0x%#x, addr = 0x%#x, shndx = 0x%#x'' @ [10]) (mbi_elf_sec m addr) s
                 else Some s);
           s \<leftarrow> (if CHECK_FLAG fl 6 then
                  do {
                    s \<leftarrow> printk str (bytes ''mmap_addr = 0x%#x, mmap_length = 0x%x'' @ [10]) [mbi_mmap_addr m addr, mbi_mmap_length m addr] s;
                    mmap_loop str m (mbi_mmap_addr m addr + mbi_mmap_length m addr) (mbi_mmap_addr m addr) s
                  }
                 else Some s);
           Some (Inr (fsystem_start, s))
         }
     }"

datatype boot_result = Boot_return | Boot_enter u32 | Boot_tests

text \<open>
  The initialisation calls: the task state segment, the interrupt table, the controller, the file
  system, the screen, paging, the devices, and the operations tables.
\<close>

definition boot_init ::
  "layout \<Rightarrow> device \<Rightarrow> memory \<Rightarrow> u32 \<Rightarrow> seg_desc \<Rightarrow> kernel \<times> tables \<Rightarrow> kernel \<times> tables" where
  "boot_init lay dev m fsystem_start d st =
     (let (s, T) = st;
          T = T\<lparr>ldt_desc_ptr := the_ldt_desc lay d\<rparr>;
          T = T\<lparr>tss_desc_ptr := the_tss_desc lay d\<rparr>;
          T = T\<lparr>ldt_segment_selector := KERNEL_LDT\<rparr>;
          s = s\<lparr>tss_ss0 := KERNEL_DS\<rparr>;
          s = s\<lparr>tss_esp0 := 0x800000\<rparr>;
          T = T\<lparr>idt := set_idt (handler_addr lay) (idt T)\<rparr>;
          s = i8259_init s;
          s = s\<lparr>fs := fsystem_init m fsystem_start\<rparr>;
          s = clear s;
          s = s\<lparr>paging := page_fill (page_table_addr lay) (paging s)\<rparr>;
          s = keyboard_init s;
          s = rtc_init dev s;
          s = sys_init s
      in (s, T))"

text \<open>
  From \<open>page_fill\<close> on the kernel reads the file system through the page tables. The image is the boot block, the
  inode blocks and the data blocks its boot block counts; \<open>image_mapped\<close> says that the kernel reaches all of it
  where the loader put it.
\<close>

definition image_size :: "fsys \<Rightarrow> nat" where
  "image_size f = 4096 * (1 + unat (boot_inode_count f) + unat (data_count f))"

definition image_mapped :: "u32 \<Rightarrow> u32 \<Rightarrow> paging \<Rightarrow> fsys \<Rightarrow> bool" where
  "image_mapped pt vt p f \<longleftrightarrow>
     list_all (\<lambda>i. translate pt vt p False (boot_block f + of_nat i) = Some (boot_block f + of_nat i)) [0..<image_size f]"

text \<open>
  The function itself. It has no result here, \<^const>\<open>None\<close>, when the image is not mapped (the kernel
  then takes a page fault when it reads the file system, which the page fault handler does not return from).
\<close>

definition entry ::
  "layout \<Rightarrow> device \<Rightarrow> (u32 \<Rightarrow> u8 list) \<Rightarrow> memory \<Rightarrow> u32 \<Rightarrow> seg_desc \<Rightarrow> u8 list \<Rightarrow> u8 list \<Rightarrow> u32 \<Rightarrow> u32
   \<Rightarrow> kernel \<times> tables \<Rightarrow> (fault + (boot_result \<times> kernel \<times> tables)) option" where
  "entry lay dev str m junk d header_buf entry_buf magic addr st =
     do {
       let (s, T) = st;
       let s = clear s;
       if magic \<noteq> MULTIBOOT_BOOTLOADER_MAGIC then
         do {
           s \<leftarrow> printk str (bytes ''Invalid magic number: 0x%#x'' @ [10]) [magic] s;
           Some (Inr (Boot_return, s, T))
         }
       else
         do {
           r \<leftarrow> boot_info str m addr junk s;
           case r of
             Inl s \<Rightarrow> Some (Inr (Boot_return, s, T))
           | Inr (fsystem_start, s) \<Rightarrow>
               let (s, T) = boot_init lay dev m fsystem_start d (s, T)
               in if \<not> image_mapped (page_table_addr lay) (video_table_addr lay) (paging s) (fs s) then None
                  else Some (case terminal_init header_buf entry_buf s of
                               Inl e \<Rightarrow> Inl e
                             | Inr (Exec_enter entry_pt, s) \<Rightarrow> Inr (Boot_enter entry_pt, s, T)
                             | Inr (Exec_ret r, s) \<Rightarrow> Inr (Boot_tests, s, T))
         }
     }"

section \<open>Descriptors\<close>

text \<open>The base and the limit that a descriptor encodes.\<close>

definition seg_base :: "seg_desc \<Rightarrow> u32" where
  "seg_base d = push_bit 24 (ucast (base_31_24 d)) OR push_bit 16 (ucast (base_23_16 d)) OR ucast (base_15_00 d)"

definition seg_limit :: "seg_desc \<Rightarrow> u32" where
  "seg_limit d = push_bit 16 (ucast (seg_lim_19_16 d)) OR ucast (seg_lim_15_00 d)"

lemma seg_masks:
  "(0xFF000000 :: u32) = push_bit 24 (mask 8)" "(0x00FF0000 :: u32) = push_bit 16 (mask 8)" "(0x000F0000 :: u32) = push_bit 16 (mask 4)"
  "(0x0000FFFF :: u32) = mask 16"
  by (simp_all add: mask_eq_exp_minus_1 push_bit_eq_mult)

lemma seg_params:
  "seg_base (SET_TSS_PARAMS a l d) = a" "seg_limit (SET_TSS_PARAMS a l d) = take_bit 20 l"
  "seg_base (SET_LDT_PARAMS a l d) = a" "seg_limit (SET_LDT_PARAMS a l d) = take_bit 20 l"
proof -
  show b: "seg_base (SET_TSS_PARAMS a l d) = a"
  proof (rule bit_word_eqI)
    fix n assume "n < LENGTH(32)"
    then consider "n < 16" | "16 \<le> n" "n < 24" | "24 \<le> n" "n < 32" by fastforce
    then show "bit (seg_base (SET_TSS_PARAMS a l d)) n = bit a n"
      by cases (auto simp: seg_base_def SET_TSS_PARAMS_def seg_masks bit_simps)
  qed
  show l: "seg_limit (SET_TSS_PARAMS a l d) = take_bit 20 l"
    by (rule bit_word_eqI) (auto simp: seg_limit_def SET_TSS_PARAMS_def seg_masks bit_simps)
  have "SET_LDT_PARAMS = SET_TSS_PARAMS" by (intro ext) (simp add: SET_LDT_PARAMS_def SET_TSS_PARAMS_def)
  with b l show "seg_base (SET_LDT_PARAMS a l d) = a" "seg_limit (SET_LDT_PARAMS a l d) = take_bit 20 l" by simp_all
qed

section \<open>Printing\<close>

lemma con_only_trans: "con_only s t \<Longrightarrow> con_only t u \<Longrightarrow> con_only s u"
  by (simp add: con_only_def)

lemma con_only_fold_putc: "con_only s (fold putc cs s)"
proof (induction cs arbitrary: s)
  case Nil
  show ?case by (simp add: con_only_refl)
next
  case (Cons c cs)
  show ?case using con_only_trans [OF con_only_putc [of s c] Cons [of "putc c s"]] by simp
qed

text \<open>What a format and its arguments need for \<open>printf\<close> to get to the end.\<close>

definition printable :: "(u32 \<Rightarrow> u8 list) \<Rightarrow> u8 list \<Rightarrow> u32 list \<Rightarrow> bool" where
  "printable str fmt args \<longleftrightarrow> printf_loop str (fmt @ [0]) args \<noteq> None"

lemma printk_ok: "printable str fmt args \<Longrightarrow> \<exists>t. printk str fmt args s = Some t \<and> con_only s t"
  by (auto simp: printable_def printk_def printf_def con_only_fold_putc)

lemma emit_None [simp]: "emit ds r = None \<longleftrightarrow> r = None"
  by (cases r) (simp_all add: emit_def split: prod.splits)

lemmas conv_eqs = conv_x_eq conv_u_eq conv_alt_x_eq conv_d_eq

lemma boot_formats:
  "printable str (bytes ''flags = 0x%#x'' @ [10]) [w]"
  "printable str (bytes ''mem_lower = %uKB, mem_upper = %uKB'' @ [10]) [w, x]"
  "printable str (bytes ''boot_device = 0x%#x'' @ [10]) [w]"
  "printable str (bytes ''Module %d loaded at address: 0x%#x'' @ [10]) [w, x]"
  "printable str (bytes ''Module %d ends at address: 0x%#x'' @ [10]) [w, x]"
  "printable str (bytes ''First few bytes of module:'' @ [10]) []"
  "printable str (bytes ''0x%x '') [w]"
  "printable str [10] []"
  "printable str (bytes ''Both bits 4 and 5 are set.'' @ [10]) []"
  "printable str (bytes ''elf_sec: num = %u, size = 0x%#x, addr = 0x%#x, shndx = 0x%#x'' @ [10]) (mbi_elf_sec m a)"
  "printable str (bytes ''mmap_addr = 0x%#x, mmap_length = 0x%x'' @ [10]) [w, x]"
  "printable str (bytes ''    size = 0x%x, base_addr = 0x%#x%#x'' @ [10] @
      bytes ''    type = 0x%x,  length    = 0x%#x%#x'' @ [10]) [w, x, y, z, u, v]"
  "printable str (bytes ''Invalid magic number: 0x%#x'' @ [10]) [w]"
  by (simp_all add: printable_def bytes_def conv_eqs mbi_elf_sec_def)

lemma boot_format_cmdline: "0 \<in> set (str w) \<Longrightarrow> printable str (bytes ''cmdline = %s'' @ [10]) [w]"
  by (simp add: printable_def bytes_def strlen_eq)

section \<open>The multiboot information\<close>

lemma print_bytes_ok: "\<exists>t. print_bytes str m start xs s = Some t \<and> con_only s t"
proof (induction xs arbitrary: s)
  case Nil
  show ?case by (simp add: con_only_refl)
next
  case (Cons i xs)
  from printk_ok [OF boot_formats(7), of str "scast (m (start + of_nat i))" s] obtain t where
    t: "printk str (bytes ''0x%x '') [scast (m (start + of_nat i))] s = Some t" "con_only s t" by blast
  from Cons [of t] t show ?case by (auto intro: con_only_trans)
qed

lemma module_loop_ok:
  assumes "n \<le> unat count"
  shows "\<exists>t. module_loop str m count n mp start s =
    Some (if n < unat count then mod_start m (mp + 16 * of_nat (unat count - Suc n)) else start, t) \<and> con_only s t"
  using assms
proof (induction "unat count - n" arbitrary: n mp start s)
  case 0
  then show ?case by (subst module_loop.simps) (simp add: con_only_refl)
next
  case (Suc k)
  then have n: "n < unat count" "k = unat count - Suc n" by simp_all
  from printk_ok [OF boot_formats(4)] obtain s1 where
    1: "printk str (bytes ''Module %d loaded at address: 0x%#x'' @ [10]) [of_nat n, mod_start m mp] s = Some s1" "con_only s s1" by blast
  from printk_ok [OF boot_formats(5)] obtain s2 where
    2: "printk str (bytes ''Module %d ends at address: 0x%#x'' @ [10]) [of_nat n, mod_end m mp] s1 = Some s2" "con_only s1 s2" by blast
  from printk_ok [OF boot_formats(6)] obtain s3 where
    3: "printk str (bytes ''First few bytes of module:'' @ [10]) [] s2 = Some s3" "con_only s2 s3" by blast
  from print_bytes_ok obtain s4 where 4: "print_bytes str m (mod_start m mp) [0..<16] s3 = Some s4" "con_only s3 s4" by blast
  from printk_ok [OF boot_formats(8)] obtain s5 where 5: "printk str [10] [] s4 = Some s5" "con_only s4 s5" by blast
  have c: "con_only s s5" using 1 2 3 4 5 by (blast intro: con_only_trans)
  have step: "module_loop str m count n mp start s = module_loop str m count (Suc n) (mp + 16) (mod_start m mp) s5"
    using n 1 2 3 4 5 by (subst module_loop.simps) (simp add: Let_def)
  from Suc.hyps(1) [OF n(2), of "mp + 16" "mod_start m mp" s5] n(1) obtain t where
    t: "module_loop str m count (Suc n) (mp + 16) (mod_start m mp) s5 =
      Some (if Suc n < unat count then mod_start m (mp + 16 + 16 * of_nat (unat count - Suc (Suc n))) else mod_start m mp, t)"
    "con_only s5 t" by auto
  have "mp + 16 + 16 * of_nat (unat count - Suc (Suc n)) = mp + 16 * of_nat (unat count - Suc n)" if "Suc n < unat count"
  proof -
    have "unat count - Suc n = Suc (unat count - Suc (Suc n))" using that by simp
    then show ?thesis by (simp add: algebra_simps)
  qed
  moreover have "unat count - Suc n = 0" if "\<not> Suc n < unat count" using that n(1) by simp
  ultimately have "(if Suc n < unat count then mod_start m (mp + 16 + 16 * of_nat (unat count - Suc (Suc n))) else mod_start m mp) =
      mod_start m (mp + 16 * of_nat (unat count - Suc n))"
    by (cases "Suc n < unat count") (simp_all only: if_True if_False, simp)
  then have eq: "module_loop str m count n mp start s = Some (mod_start m (mp + 16 * of_nat (unat count - Suc n)), t)"
    using step t(1) by (simp only:)
  show ?case unfolding if_P [OF n(1)] eq using con_only_trans [OF c t(2)] by blast
qed

definition mmap_next :: "memory \<Rightarrow> u32 \<Rightarrow> u32" where
  "mmap_next m a = a + read_u32 m a + 4"

lemma mmap_loop_ok:
  "\<not> (mmap_next m ^^ n) a < e \<Longrightarrow> \<exists>t. mmap_loop str m e a s = Some t \<and> con_only s t"
proof (induction n arbitrary: a s)
  case 0
  then show ?case by (subst mmap_loop.simps) (simp add: con_only_refl)
next
  case (Suc n)
  show ?case
  proof (cases "a < e")
    case True
    let ?args = "[read_u32 m a, read_u32 m (a + 8), read_u32 m (a + 4), read_u32 m (a + 20),
                  read_u32 m (a + 16), read_u32 m (a + 12)]"
    from printk_ok [OF boot_formats(12)] obtain s1 where
      1: "printk str (bytes ''    size = 0x%x, base_addr = 0x%#x%#x'' @ [10] @
          bytes ''    type = 0x%x,  length    = 0x%#x%#x'' @ [10]) ?args s = Some s1" "con_only s s1" by blast
    have "\<not> (mmap_next m ^^ n) (mmap_next m a) < e" using Suc.prems by (simp add: funpow_swap1)
    from Suc.IH [OF this, of s1] 1 True show ?thesis
      by (subst mmap_loop.simps) (auto simp: mmap_next_def intro: con_only_trans)
  next
    case False
    then show ?thesis by (subst mmap_loop.simps) (simp add: con_only_refl)
  qed
qed

text \<open>
  A boot environment in which \<open>boot_info\<close> gets through: a terminated command line, flags that do not
  contradict each other, and a memory map that ends.
\<close>

definition bootable :: "(u32 \<Rightarrow> u8 list) \<Rightarrow> memory \<Rightarrow> u32 \<Rightarrow> bool" where
  "bootable str m addr \<longleftrightarrow>
     (CHECK_FLAG (mbi_flags m addr) 2 \<longrightarrow> 0 \<in> set (str (mbi_cmdline m addr)))
     \<and> \<not> (CHECK_FLAG (mbi_flags m addr) 4 \<and> CHECK_FLAG (mbi_flags m addr) 5)
     \<and> (\<exists>n. \<not> (mmap_next m ^^ n) (mbi_mmap_addr m addr) < mbi_mmap_addr m addr + mbi_mmap_length m addr)"

text \<open>The start of the file system: of the last module.\<close>

definition boot_fs_start :: "memory \<Rightarrow> u32 \<Rightarrow> u32" where
  "boot_fs_start m addr = mod_start m (mbi_mods_addr m addr + 16 * (mbi_mods_count m addr - 1))"

lemma cond_printk_ok:
  assumes "b \<Longrightarrow> printable str fmt args"
  shows "\<exists>t. (if b then printk str fmt args s else Some s) = Some t \<and> con_only s t"
  using printk_ok assms by (cases b) (auto simp: con_only_refl)

lemma modules_ok:
  "\<exists>f t. (if CHECK_FLAG fl 3 then module_loop str m (mbi_mods_count m addr) 0 (mbi_mods_addr m addr) junk s
      else Some (junk, s)) = Some (f, t) \<and> con_only s t
    \<and> (CHECK_FLAG fl 3 \<and> mbi_mods_count m addr \<noteq> 0 \<longrightarrow> f = boot_fs_start m addr)"
proof (cases "CHECK_FLAG fl 3")
  case True
  let ?c = "mbi_mods_count m addr" and ?a = "mbi_mods_addr m addr"
  have cnt: "of_nat (unat ?c - Suc 0) = ?c - 1" if "0 < unat ?c" using that by (simp add: of_nat_diff)
  from module_loop_ok [of 0 ?c str m ?a junk s] obtain t where
    "module_loop str m ?c 0 ?a junk s = Some (if 0 < unat ?c then boot_fs_start m addr else junk, t)" "con_only s t"
    by (auto simp: boot_fs_start_def cnt)
  then show ?thesis using True
    by (intro exI [of _ "if 0 < unat ?c then boot_fs_start m addr else junk"] exI [of _ t]) (simp add: unat_gt_0)
next
  case False
  then show ?thesis by (simp add: con_only_refl)
qed

text \<open>\<open>boot_info\<close> from the check of the exclusive flags on, and the part before it.\<close>

definition boot_info_rest ::
  "(u32 \<Rightarrow> u8 list) \<Rightarrow> memory \<Rightarrow> u32 \<Rightarrow> u32 \<Rightarrow> 'a console_scheme \<Rightarrow> ('a console_scheme + (u32 \<times> 'a console_scheme)) option" where
  "boot_info_rest str m addr f t =
     (if CHECK_FLAG (mbi_flags m addr) 4 \<and> CHECK_FLAG (mbi_flags m addr) 5
      then do { s \<leftarrow> printk str (bytes ''Both bits 4 and 5 are set.'' @ [10]) [] t; Some (Inl s) }
      else do {
        s \<leftarrow> (if CHECK_FLAG (mbi_flags m addr) 5
              then printk str (bytes ''elf_sec: num = %u, size = 0x%#x, addr = 0x%#x, shndx = 0x%#x'' @ [10]) (mbi_elf_sec m addr) t
              else Some t);
        s \<leftarrow> (if CHECK_FLAG (mbi_flags m addr) 6 then
               do {
                 s \<leftarrow> printk str (bytes ''mmap_addr = 0x%#x, mmap_length = 0x%x'' @ [10]) [mbi_mmap_addr m addr, mbi_mmap_length m addr] s;
                 mmap_loop str m (mbi_mmap_addr m addr + mbi_mmap_length m addr) (mbi_mmap_addr m addr) s
               }
              else Some s);
        Some (Inr (f, s))
      })"

lemma boot_info_upto:
  assumes "CHECK_FLAG (mbi_flags m addr) 2 \<longrightarrow> 0 \<in> set (str (mbi_cmdline m addr))"
  shows "\<exists>f t. con_only s t \<and> boot_info str m addr junk s = boot_info_rest str m addr f t
    \<and> (CHECK_FLAG (mbi_flags m addr) 3 \<and> mbi_mods_count m addr \<noteq> 0 \<longrightarrow> f = boot_fs_start m addr)"
proof -
  let ?fl = "mbi_flags m addr" and ?c = "mbi_mods_count m addr" and ?a = "mbi_mods_addr m addr"
  from printk_ok [OF boot_formats(1)] obtain s1 where
    1: "printk str (bytes ''flags = 0x%#x'' @ [10]) [?fl] s = Some s1" "con_only s s1" by blast
  from cond_printk_ok [OF boot_formats(2)] obtain s2 where
    2: "(if CHECK_FLAG ?fl 0 then printk str (bytes ''mem_lower = %uKB, mem_upper = %uKB'' @ [10])
      [mbi_mem_lower m addr, mbi_mem_upper m addr] s1 else Some s1) = Some s2" "con_only s1 s2" by blast
  from cond_printk_ok [OF boot_formats(3)] obtain s3 where
    3: "(if CHECK_FLAG ?fl 1 then printk str (bytes ''boot_device = 0x%#x'' @ [10]) [mbi_boot_device m addr] s2 else Some s2) = Some s3"
    "con_only s2 s3" by blast
  from cond_printk_ok [OF boot_format_cmdline] assms obtain s4 where
    4: "(if CHECK_FLAG ?fl 2 then printk str (bytes ''cmdline = %s'' @ [10]) [mbi_cmdline m addr] s3 else Some s3) = Some s4"
    "con_only s3 s4" by metis
  obtain f s5 where
    5: "(if CHECK_FLAG ?fl 3 then module_loop str m ?c 0 ?a junk s4 else Some (junk, s4)) = Some (f, s5)" "con_only s4 s5"
    and f: "CHECK_FLAG ?fl 3 \<and> ?c \<noteq> 0 \<longrightarrow> f = boot_fs_start m addr"
    using modules_ok [of ?fl str m addr junk s4] by blast
  have "con_only s s5" using 1 2 3 4 5 by (blast intro: con_only_trans)
  moreover have "boot_info str m addr junk s = boot_info_rest str m addr f s5"
    unfolding boot_info_def boot_info_rest_def Let_def 1(1) Option.bind.simps(2) 2(1) 3(1) 4(1) 5(1) split by (rule refl)
  ultimately show ?thesis using f by blast
qed

lemma boot_info_ok:
  assumes "bootable str m addr" and "CHECK_FLAG (mbi_flags m addr) 3" and "mbi_mods_count m addr \<noteq> 0"
  shows "\<exists>t. boot_info str m addr junk s = Some (Inr (boot_fs_start m addr, t)) \<and> con_only s t"
proof -
  let ?fl = "mbi_flags m addr" and ?l = "mbi_mmap_length m addr" and ?b = "mbi_mmap_addr m addr"
  have cmd: "CHECK_FLAG ?fl 2 \<longrightarrow> 0 \<in> set (str (mbi_cmdline m addr))" and 9: "\<not> (CHECK_FLAG ?fl 4 \<and> CHECK_FLAG ?fl 5)"
    using assms(1) by (simp_all add: bootable_def)
  from boot_info_upto [of m addr str s junk] cmd assms(2,3) obtain f t where c: "con_only s t" and f: "f = boot_fs_start m addr"
    and eq: "boot_info str m addr junk s = boot_info_rest str m addr f t" by auto
  from cond_printk_ok [OF boot_formats(10)] obtain s6 where
    6: "(if CHECK_FLAG ?fl 5 then printk str (bytes ''elf_sec: num = %u, size = 0x%#x, addr = 0x%#x, shndx = 0x%#x'' @ [10])
      (mbi_elf_sec m addr) t else Some t) = Some s6" "con_only t s6" by blast
  from printk_ok [OF boot_formats(11)] obtain s7 where
    7: "printk str (bytes ''mmap_addr = 0x%#x, mmap_length = 0x%x'' @ [10]) [?b, ?l] s6 = Some s7" "con_only s6 s7" by blast
  from assms(1) mmap_loop_ok obtain s8 where 8: "mmap_loop str m (?b + ?l) ?b s7 = Some s8" "con_only s7 s8"
    unfolding bootable_def by metis
  have c: "con_only s s6" "con_only s s8" using c 6 7 8 by (blast intro: con_only_trans)+
  have "boot_info str m addr junk s = Some (Inr (boot_fs_start m addr, if CHECK_FLAG ?fl 6 then s8 else s6))"
    unfolding eq boot_info_rest_def if_not_P [OF 9] 6(1) Option.bind.simps(2) f by (simp add: 7 8)
  then show ?thesis using c by auto
qed

lemma boot_info_contradiction:
  assumes "CHECK_FLAG (mbi_flags m addr) 2 \<longrightarrow> 0 \<in> set (str (mbi_cmdline m addr))"
    and "CHECK_FLAG (mbi_flags m addr) 4 \<and> CHECK_FLAG (mbi_flags m addr) 5"
  shows "\<exists>t. boot_info str m addr junk s = Some (Inl t) \<and> con_only s t"
proof -
  from boot_info_upto [of m addr str s junk] assms(1) obtain f t where
    c: "con_only s t" and eq: "boot_info str m addr junk s = boot_info_rest str m addr f t" by auto
  from printk_ok [OF boot_formats(9), of str t] c show ?thesis
    using assms(2) by (auto simp: eq boot_info_rest_def intro: con_only_trans)
qed

section \<open>The initialised machine\<close>

text \<open>The globals as the loader leaves them: zeroed process table, all lines masked, buffers at their declared sizes.\<close>

definition loaded :: "kernel \<Rightarrow> bool" where
  "loaded s \<longleftrightarrow> processes s = replicate 6 0 \<and> master_mask s = 0xFF \<and> slave_mask s = 0xFF
     \<and> length (keyboard_buffer s) = KEYBOARD_BUFFER_SIZE \<and> length (keyboard_buffer1 s) = KEYBOARD_BUFFER_SIZE
     \<and> length (keyboard_buffer2 s) = KEYBOARD_BUFFER_SIZE \<and> length (keyboard_buffer3 s) = KEYBOARD_BUFFER_SIZE
     \<and> length (video_buffer1 s) = VIDEO_BUFFER_SIZE \<and> length (video_buffer2 s) = VIDEO_BUFFER_SIZE
     \<and> length (video_buffer3 s) = VIDEO_BUFFER_SIZE \<and> length (terminal_used s) = 3"

lemma fold_zero_length: "length (fold (\<lambda>i b. b[i := 0 :: u8]) xs b) = length b"
  by (induction xs arbitrary: b) simp_all

lemma i8259_init_upd: "\<exists>p. i8259_init s = s\<lparr>master_mask := master_mask s AND enable_temp 2, ports := p\<rparr>"
  by (auto simp: i8259_init_def enable_irq_def outb_def Let_def)

lemma keyboard_init_upd:
  "\<exists>p. keyboard_init s =
     s\<lparr>master_mask := master_mask s AND enable_temp 1, enter_pressed := 0, screen_x := 0, screen_y := 0, ports := p\<rparr>"
  by (auto simp: keyboard_init_def enable_irq_def outb_def update_cursor_def Let_def)

lemma rtc_init_upd: "\<exists>p. rtc_init dev s = s\<lparr>slave_mask := slave_mask s AND enable_temp 0, ports := p\<rparr>"
  by (auto simp: rtc_init_def enable_irq_def outb_def inb_def Let_def)

lemma boot_masks: "(0xFF AND enable_temp 2) AND enable_temp 1 = 0xF9" "0xFF AND enable_temp 0 = 0xFE"
  by code_simp+

text \<open>What the initialisation calls leave behind, before the first shell is started.\<close>

lemma boot_init_eq:
  assumes "boot_init lay dev m start d (s, T) = (t, U)"
  shows "fs t = fsystem_init m start" "paging t = page_fill (page_table_addr lay) (paging s)" "processes t = processes s"
    "pcb_at t = pcb_at s" "frame_at t = frame_at s" "kernel_esp t = kernel_esp s"
    "ops_table t = ops_table (sys_init s)"
    "master_mask t = (master_mask s AND enable_temp 2) AND enable_temp 1" "slave_mask t = slave_mask s AND enable_temp 0"
    "screen_x t = 0" "screen_y t = 0" "idt U = set_idt (handler_addr lay) (idt T)"
    "ldt_desc_ptr U = the_ldt_desc lay d" "tss_desc_ptr U = the_tss_desc lay d"
    "length (keyboard_buffer t) = length (keyboard_buffer s)" "length (keyboard_buffer1 t) = length (keyboard_buffer1 s)"
    "length (keyboard_buffer2 t) = length (keyboard_buffer2 s)" "length (keyboard_buffer3 t) = length (keyboard_buffer3 s)"
    "length (video_buffer1 t) = length (video_buffer1 s)" "length (video_buffer2 t) = length (video_buffer2 s)"
    "length (video_buffer3 t) = length (video_buffer3 s)" "length (terminal_used t) = length (terminal_used s)"
proof -
  obtain p where p: "i8259_init (s\<lparr>tss_ss0 := KERNEL_DS, tss_esp0 := 0x800000\<rparr>) =
      s\<lparr>tss_ss0 := KERNEL_DS, tss_esp0 := 0x800000, master_mask := master_mask s AND enable_temp 2, ports := p\<rparr>"
    using i8259_init_upd [of "s\<lparr>tss_ss0 := KERNEL_DS, tss_esp0 := 0x800000\<rparr>"] by auto
  define b where "b = s\<lparr>tss_ss0 := KERNEL_DS, tss_esp0 := 0x800000, master_mask := master_mask s AND enable_temp 2, ports := p,
      fs := fsystem_init m start\<rparr>"
  define c where "c = clear b"
  define e where "e = c\<lparr>paging := page_fill (page_table_addr lay) (paging c)\<rparr>"
  obtain q where q: "keyboard_init e =
      e\<lparr>master_mask := master_mask e AND enable_temp 1, enter_pressed := 0, screen_x := 0, screen_y := 0, ports := q\<rparr>"
    using keyboard_init_upd by blast
  obtain r where r: "rtc_init dev (keyboard_init e) =
      (keyboard_init e)\<lparr>slave_mask := slave_mask (keyboard_init e) AND enable_temp 0, ports := r\<rparr>"
    using rtc_init_upd by blast
  have t: "t = sys_init (rtc_init dev (keyboard_init e))"
    and U: "U = T\<lparr>ldt_desc_ptr := the_ldt_desc lay d, tss_desc_ptr := the_tss_desc lay d, ldt_segment_selector := KERNEL_LDT,
      idt := set_idt (handler_addr lay) (idt T)\<rparr>"
    using assms by (auto simp: boot_init_def Let_def p b_def c_def e_def)
  note te = t [unfolded r, unfolded q]
  have "dev_only b c" by (simp add: dev_only_def c_def)
  note c = dev_only_fields [OF this] con_only_fields [OF con_only_clear [of b], folded c_def]
  show "fs t = fsystem_init m start" "paging t = page_fill (page_table_addr lay) (paging s)" "processes t = processes s"
    "pcb_at t = pcb_at s" "frame_at t = frame_at s" "kernel_esp t = kernel_esp s" "ops_table t = ops_table (sys_init s)"
    by (simp_all add: te e_def c sys_init_def, simp_all add: b_def)
  show "master_mask t = (master_mask s AND enable_temp 2) AND enable_temp 1" "slave_mask t = slave_mask s AND enable_temp 0"
    "screen_x t = 0" "screen_y t = 0"
    by (simp_all add: te e_def c sys_init_def, simp_all add: b_def)
  show "length (keyboard_buffer t) = length (keyboard_buffer s)" "length (keyboard_buffer1 t) = length (keyboard_buffer1 s)"
    "length (keyboard_buffer2 t) = length (keyboard_buffer2 s)" "length (keyboard_buffer3 t) = length (keyboard_buffer3 s)"
    "length (video_buffer1 t) = length (video_buffer1 s)" "length (video_buffer2 t) = length (video_buffer2 s)"
    "length (video_buffer3 t) = length (video_buffer3 s)" "length (terminal_used t) = length (terminal_used s)"
    by (simp_all add: te e_def c sys_init_def, simp_all add: b_def)
  show "idt U = set_idt (handler_addr lay) (idt T)" "ldt_desc_ptr U = the_ldt_desc lay d" "tss_desc_ptr U = the_tss_desc lay d"
    by (simp_all add: U)
qed

lemma boot_init_term_inv:
  assumes "boot_init lay dev m start d (s, T) = (t, U)" and "loaded s"
  shows "term_inv (terminal_init_state t)"
  using assms(2) unfolding terminal_init_state_def Let_def
  by (simp add: boot_init_eq [OF assms(1)] loaded_def term_inv_def line_inv_def slots_inv_def fold_zero_length
      idx_ok_def xy_ok_def del: upt_rec_numeral)

lemma loaded_con_only: "con_only s t \<Longrightarrow> loaded t = loaded s"
  using dev_only_fields(3) [of s t] con_only_fields [of s t] by (simp add: loaded_def dev_only_def)

section \<open>Booting\<close>

lemma startable_cong:
  "fs t = fs s \<Longrightarrow> processes t = processes s \<Longrightarrow> pcb_at t = pcb_at s \<Longrightarrow> frame_at t = frame_at s \<Longrightarrow> paging t = paging s
    \<Longrightarrow> startable c i k ino t = startable c i k ino s"
  by (simp only: startable_def)

lemma upd_pcb_masks [simp]: "master_mask (upd_pcb p f s) = master_mask s" "slave_mask (upd_pcb p f s) = slave_mask s"
  by (simp_all add: upd_pcb_def)

lemma exec_pcb_masks: "master_mask (exec_pcb i s) = master_mask s" "slave_mask (exec_pcb i s) = slave_mask s"
  by (simp_all add: exec_pcb_def Let_def)

lemma sys_execute_masks:
  "sys_execute hb eb (Some c) s = Inr (Exec_enter e, t) \<Longrightarrow> master_mask t = master_mask s \<and> slave_mask t = slave_mask s"
  by (erule sys_execute_enter) (simp add: exec_pcb_masks)

lemma boot_lines: "master_mask s = 0xF9 \<Longrightarrow> slave_mask s = 0xFE \<Longrightarrow> irq_enabled s n \<longleftrightarrow> n \<in> {1, 2, 8}"
proof -
  have "list_all (\<lambda>n. bit (0xF9 :: u8) n \<longleftrightarrow> n \<notin> {1, 2}) [0..<8]" "list_all (\<lambda>n. bit (0xFE :: u8) n \<longleftrightarrow> n \<noteq> 0) [0..<8]"
    by code_simp+
  then have "n < 8 \<Longrightarrow> bit (0xF9 :: u8) n \<longleftrightarrow> n \<notin> {1, 2}" "n < 8 \<Longrightarrow> bit (0xFE :: u8) n \<longleftrightarrow> n \<noteq> 0" for n
    by (simp_all only: list_all_iff set_upt atLeastLessThan_iff le0 simp_thms Ball_def)
  then show "master_mask s = 0xF9 \<Longrightarrow> slave_mask s = 0xFE \<Longrightarrow> irq_enabled s n \<longleftrightarrow> n \<in> {1, 2, 8}"
    unfolding irq_enabled_def by (cases "n < 8") auto
qed

text \<open>
  Where the module has to be: in the kernel's 4 MB page, below the kernel stacks and control blocks of the
  processes, with a directory that fits into the boot block. A file lies inside the image when its
  block numbers do.
\<close>

definition image_placed :: "fsys \<Rightarrow> bool" where
  "image_placed f \<longleftrightarrow> 0x400000 \<le> unat (boot_block f) \<and> unat (boot_block f) + image_size f \<le> 0x7F4000
     \<and> unat (dir_count f) \<le> 63"

definition file_in_image :: "fsys \<Rightarrow> u32 \<Rightarrow> bool" where
  "file_in_image f ino \<longleftrightarrow>
     list_all (\<lambda>b. data_block_num f ino (of_nat b) < data_count f) [0..<Suc (unat (inode_length f ino) div 4096)]"

lemma image_placed_mapped:
  assumes "image_placed f" and "pt AND 0xFFF = 0"
  shows "image_mapped pt vt (page_fill pt q) f"
  unfolding image_mapped_def list_all_iff
proof (rule ballI)
  fix i
  assume "i \<in> set [0..<image_size f]"
  then have i: "0x400000 \<le> unat (boot_block f) + i" "unat (boot_block f) + i < 0x7F4000"
    using assms(1) by (simp_all add: image_placed_def)
  then have "unat (boot_block f + of_nat i) = unat (boot_block f) + i"
    by (simp add: unat_word_ariths unat_of_nat)
  then have "0x400000 \<le> boot_block f + of_nat i" "boot_block f + of_nat i < 0x800000"
    using i by (simp_all add: word_le_nat_alt word_less_nat_alt)
  then show "translate pt vt (page_fill pt q) False (boot_block f + of_nat i) = Some (boot_block f + of_nat i)"
    using translate_page_fill [OF assms(2)] by simp
qed


text \<open>
  A machine that was not started by a multiboot loader, or whose boot information has the two
  exclusive flags set, is not initialised: \<open>entry\<close> prints to the console and returns.
\<close>

lemma entry_refuses:
  assumes "magic \<noteq> MULTIBOOT_BOOTLOADER_MAGIC \<or> CHECK_FLAG (mbi_flags m addr) 4 \<and> CHECK_FLAG (mbi_flags m addr) 5"
    and "CHECK_FLAG (mbi_flags m addr) 2 \<longrightarrow> 0 \<in> set (str (mbi_cmdline m addr))"
  shows "\<exists>t. entry lay dev str m junk d hb eb magic addr (s, T) = Some (Inr (Boot_return, t, T)) \<and> con_only s t"
proof (cases "magic = MULTIBOOT_BOOTLOADER_MAGIC")
  case False
  from printk_ok [OF boot_formats(13), of str magic "clear s"] obtain t where
    "printk str (bytes ''Invalid magic number: 0x%#x'' @ [10]) [magic] (clear s) = Some t" "con_only (clear s) t" by blast
  with False show ?thesis by (auto simp: entry_def intro: con_only_trans [OF con_only_clear])
next
  case True
  from boot_info_contradiction [of m addr str junk "clear s"] assms True obtain t where
    "boot_info str m addr junk (clear s) = Some (Inl t)" "con_only (clear s) t" by blast
  with True show ?thesis by (auto simp: entry_def intro: con_only_trans [OF con_only_clear])
qed

definition demo_layout :: layout where
  "demo_layout = \<lparr>page_table_addr = 0x405000, video_table_addr = 0x406000, ldt_addr = 0x409000, ldt_size = 0, tss_addr = 0x40A000, tss_size = 104,
     handler_addr = (\<lambda>_. 0x401000)\<rparr>"

lemma demo_bootable: "bootable (\<lambda>_. [0]) demo_mem 0x10000" "CHECK_FLAG (mbi_flags demo_mem 0x10000) 3"
  "mbi_mods_count demo_mem 0x10000 \<noteq> 0" "boot_fs_start demo_mem 0x10000 = 0x500000"
proof -
  have fl: "mbi_flags demo_mem 0x10000 = 8" "mbi_mods_count demo_mem 0x10000 = 1" "mbi_mods_addr demo_mem 0x10000 = 0x10100"
    "mbi_mmap_addr demo_mem 0x10000 = 0" "mbi_mmap_length demo_mem 0x10000 = 0" "mod_start demo_mem 0x10100 = 0x500000"
    by (simp_all add: mbi_flags_def mbi_mods_count_def mbi_mods_addr_def mbi_mmap_addr_def mbi_mmap_length_def mod_start_def
        read_u32_def demo_mem_def)
  have "CHECK_FLAG 8 3" "\<not> CHECK_FLAG 8 4" by code_simp+
  then show "bootable (\<lambda>_. [0]) demo_mem 0x10000" "CHECK_FLAG (mbi_flags demo_mem 0x10000) 3"
    "mbi_mods_count demo_mem 0x10000 \<noteq> 0" "boot_fs_start demo_mem 0x10000 = 0x500000"
    by (auto simp: bootable_def boot_fs_start_def fl intro: exI [of _ 0])
qed

lemma demo_loaded: "loaded (demo_kernel\<lparr>processes := replicate 6 0, master_mask := 0xFF, slave_mask := 0xFF\<rparr>)"
  by (simp add: loaded_def, simp add: demo_kernel_def terminal.defs bss_terminal_def)


end
