(* ===== verification/User_Support.thy ===== *)
theory User_Support
  imports Lib_String
begin

text \<open>
  The support library of the user programs, \<^verbatim>\<open>src/syscalls/ece391support.c\<close>. Pointers are byte
  objects, as in \<open>Lib_String\<close>; the characters are unsigned here. The two pointers of
  \<open>ece391_strcpy\<close> may point into one object, which is how the programs call it, so
  it takes the object and two indices.
\<close>

section \<open>Definitions\<close>

function ece391_strlen_from :: "u8 list \<Rightarrow> nat \<Rightarrow> nat \<Rightarrow> nat option" where
  "ece391_strlen_from s i len =
     (if i < length s then (if s ! i \<noteq> 0 then ece391_strlen_from s (Suc i) (Suc len) else Some len) else None)"
  by pat_completeness auto
termination
  by (relation "measure (\<lambda>(s, i, len). length s - i)") auto

definition ece391_strlen :: "u8 list \<Rightarrow> nat option" where
  "ece391_strlen s = ece391_strlen_from s 0 0"

function ece391_strcpy :: "u8 list \<Rightarrow> nat \<Rightarrow> nat \<Rightarrow> u8 list option" where
  "ece391_strcpy m dst src =
     (if src < length m \<and> dst < length m then
        let c = m ! src; m' = m[dst := c]
        in if c \<noteq> 0 then ece391_strcpy m' (Suc dst) (Suc src) else Some m'
      else None)"
  by pat_completeness auto
termination
  by (relation "measure (\<lambda>(m, dst, src). length m - src)") auto

function ece391_strcmp_from :: "u8 list \<Rightarrow> u8 list \<Rightarrow> nat \<Rightarrow> int option" where
  "ece391_strcmp_from s1 s2 i =
     (if i < length s1 \<and> i < length s2 then
        if s1 ! i = s2 ! i then
          (if s1 ! i = 0 then Some 0 else ece391_strcmp_from s1 s2 (Suc i))
        else Some (uint (s1 ! i) - uint (s2 ! i))
      else None)"
  by pat_completeness auto
termination
  by (relation "measure (\<lambda>(s1, s2, i). length s1 - i)") auto

definition ece391_strcmp :: "u8 list \<Rightarrow> u8 list \<Rightarrow> int option" where
  "ece391_strcmp s1 s2 = ece391_strcmp_from s1 s2 0"

text \<open>\<open>n\<close> counts down in \<open>ece391_strncmp\<close>; it is positive in the loop.\<close>

function ece391_strncmp_from :: "u8 list \<Rightarrow> u8 list \<Rightarrow> nat \<Rightarrow> nat \<Rightarrow> int option" where
  "ece391_strncmp_from s1 s2 n i =
     (if i < length s1 \<and> i < length s2 then
        if s1 ! i = s2 ! i then
          (if s1 ! i = 0 \<or> n - 1 = 0 then Some 0 else ece391_strncmp_from s1 s2 (n - 1) (Suc i))
        else Some (uint (s1 ! i) - uint (s2 ! i))
      else None)"
  by pat_completeness auto
termination
  by (relation "measure (\<lambda>(s1, s2, n, i). length s1 - i)") auto

definition ece391_strncmp :: "u8 list \<Rightarrow> u8 list \<Rightarrow> nat \<Rightarrow> int option" where
  "ece391_strncmp s1 s2 n = (if n = 0 then Some 0 else ece391_strncmp_from s1 s2 n 0)"

function ece391_strrev_loop :: "u8 list \<Rightarrow> int \<Rightarrow> int \<Rightarrow> u8 list option" where
  "ece391_strrev_loop s beg fin =
     (if beg < fin then
        do {
          tmp \<leftarrow> rd s (nat fin);
          b \<leftarrow> rd s (nat beg);
          s \<leftarrow> wr s (nat fin) b;
          s \<leftarrow> wr s (nat beg) tmp;
          ece391_strrev_loop s (beg + 1) (fin - 1)
        }
      else Some s)"
  by pat_completeness auto
termination
  by (relation "measure (\<lambda>(s, beg, fin). nat (fin - beg))") auto

definition ece391_strrev :: "u8 list \<Rightarrow> u8 list option" where
  "ece391_strrev s =
     do {
       n \<leftarrow> ece391_strlen s;
       let fin = int n - 1;
       if fin \<le> 0 then Some s else ece391_strrev_loop s 0 fin
     }"

definition ece391_lookup :: "u8 list" where
  "ece391_lookup = bytes ''0123456789ABCDEFGHIJKLMNOPQRSTUVWXYZ'' @ [0]"

function ece391_itoa_loop :: "u32 \<Rightarrow> u8 list \<Rightarrow> nat \<Rightarrow> u32 \<Rightarrow> (u8 list \<times> nat) option" where
  "ece391_itoa_loop newval buf pos radix =
     (if newval > 0 then
        if radix = 0 then None
        else do {
          c \<leftarrow> rd ece391_lookup (unat (newval mod radix));
          buf' \<leftarrow> wr buf pos c;
          ece391_itoa_loop (newval div radix) buf' (Suc pos) radix
        }
      else Some (buf, pos))"
  by pat_completeness auto
termination
  by (relation "measure (\<lambda>(newval, buf, pos, radix). length buf - pos)")
    (auto simp: wr_def split: if_splits)

definition ece391_itoa :: "u32 \<Rightarrow> u8 list \<Rightarrow> u32 \<Rightarrow> u8 list option" where
  "ece391_itoa value buf radix =
     (if value = 0 then do { b \<leftarrow> wr buf 0 (of_char CHR ''0''); wr b 1 0 }
      else do {
        (b, pos) \<leftarrow> ece391_itoa_loop value buf 0 radix;
        b \<leftarrow> wr b pos 0;
        ece391_strrev b
      })"

lemmas support_loop_simps [simp del] =
  ece391_strlen_from.simps ece391_strcpy.simps ece391_strcmp_from.simps ece391_strncmp_from.simps
  ece391_strrev_loop.simps ece391_itoa_loop.simps

section \<open>The library against the kernel's\<close>

text \<open>Length, reversal and number conversion do what the routines of the kernel's library do.\<close>

lemma ece391_strlen_from_eq: "ece391_strlen_from s i i = strlen_from s i"
  by (induction s i rule: strlen_from.induct) (subst ece391_strlen_from.simps, subst strlen_from.simps, auto)

lemma ece391_strlen_strlen: "ece391_strlen s = strlen s"
  by (simp add: ece391_strlen_def strlen_def ece391_strlen_from_eq)

lemma ece391_strlen_eq: "0 \<in> set s \<Longrightarrow> ece391_strlen s = Some (length (cstr s))"
  by (simp add: ece391_strlen_strlen strlen_eq)

lemma ece391_strrev_loop_eq: "ece391_strrev_loop s beg fin = strrev_loop s beg fin"
proof (induction s beg fin rule: strrev_loop.induct)
  case (1 s beg fin)
  show ?case
    using 1 by (subst ece391_strrev_loop.simps, subst strrev_loop.simps) (auto simp: wr_def rd_def)
qed

lemma ece391_strrev_strrev: "ece391_strrev s = strrev s"
proof (cases "strlen s")
  case (Some n)
  then show ?thesis
    using strrev_loop.simps [of s 0 "int n - 1"]
    by (simp add: ece391_strrev_def strrev_def ece391_strlen_strlen ece391_strrev_loop_eq Let_def)
qed (simp add: ece391_strrev_def strrev_def ece391_strlen_strlen)

lemma ece391_itoa_loop_eq: "ece391_itoa_loop v buf pos radix = itoa_loop v buf pos radix"
proof (induction v buf pos radix rule: itoa_loop.induct)
  case (1 v buf pos radix)
  show ?case
    using 1 by (subst ece391_itoa_loop.simps, subst itoa_loop.simps)
      (auto simp: wr_def rd_def word_neq_0_conv ece391_lookup_def itoa_lookup_def)
qed

lemma ece391_itoa_itoa: "ece391_itoa v buf radix = itoa v buf radix"
proof -
  have "ece391_strrev = strrev" by (rule ext) (rule ece391_strrev_strrev)
  then show ?thesis by (simp add: ece391_itoa_def itoa_def ece391_itoa_loop_eq)
qed

section \<open>Comparing and copying\<close>

lemma cstr_drop:
  assumes "i \<le> length (cstr s)"
  shows "cstr (drop i s) = drop i (cstr s)"
  using assms unfolding cstr_def by (induction s arbitrary: i) (auto simp: drop_Cons split: nat.splits)

lemma cstr_Cons: "i < length s \<Longrightarrow> s ! i \<noteq> 0 \<Longrightarrow> cstr (drop i s) = s ! i # cstr (drop (Suc i) s)"
  by (simp add: cstr_def flip: Cons_nth_drop_Suc)

lemma cstr_Nil: "i < length s \<Longrightarrow> s ! i = 0 \<Longrightarrow> cstr (drop i s) = []"
  by (simp add: cstr_def flip: Cons_nth_drop_Suc)

lemma nul_in_drop_Suc: "0 \<in> set (drop i s) \<Longrightarrow> s ! i \<noteq> 0 \<Longrightarrow> 0 \<in> set (drop (Suc i) s)"
  by (metis Cons_nth_drop_Suc drop_eq_Nil2 empty_iff empty_set leI set_ConsD)

lemma nul_in_drop_less: "0 \<in> set (drop i s) \<Longrightarrow> i < length s"
  by (metis drop_eq_Nil2 empty_iff empty_set leI)

lemmas cstr_step = cstr_Cons cstr_Nil nul_in_drop_Suc nul_in_drop_less

lemma uint_eq_iffs [simp]: "uint (a :: u8) = uint b \<longleftrightarrow> a = b" "uint (a :: u8) = 0 \<longleftrightarrow> a = 0"
  by (simp_all add: word_uint_eq_iff)

lemma ece391_strcmp_from_eq:
  assumes "0 \<in> set (drop i s1)" and "0 \<in> set (drop i s2)"
  shows "\<exists>r. ece391_strcmp_from s1 s2 i = Some r \<and> (r = 0 \<longleftrightarrow> cstr (drop i s1) = cstr (drop i s2))"
  using assms
proof (induction s1 s2 i rule: ece391_strcmp_from.induct)
  case (1 s1 s2 i)
  have l: "i < length s1" "i < length s2" using "1.prems" by (auto dest: nul_in_drop_less)
  show ?case
  proof (cases "s1 ! i = s2 ! i \<and> s1 ! i \<noteq> 0")
    case True
    with l "1.prems" "1.IH" show ?thesis
      by (subst ece391_strcmp_from.simps) (auto simp: cstr_Cons nul_in_drop_Suc)
  next
    case False
    then show ?thesis
      using l by (subst ece391_strcmp_from.simps) (cases "s1 ! i = 0"; cases "s2 ! i = 0"; simp add: cstr_Cons cstr_Nil)
  qed
qed

lemma ece391_strcmp_zero_iff:
  assumes "0 \<in> set s1" and "0 \<in> set s2"
  obtains r where "ece391_strcmp s1 s2 = Some r" and "r = 0 \<longleftrightarrow> cstr s1 = cstr s2"
  using ece391_strcmp_from_eq [of 0 s1 s2] assms by (auto simp: ece391_strcmp_def)

lemma ece391_strncmp_from_eq:
  assumes "0 \<in> set (drop i s1)" and "0 \<in> set (drop i s2)" and "0 < n"
  shows "\<exists>r. ece391_strncmp_from s1 s2 n i = Some r
    \<and> (r = 0 \<longleftrightarrow> take n (cstr (drop i s1)) = take n (cstr (drop i s2)))"
  using assms
proof (induction s1 s2 n i rule: ece391_strncmp_from.induct)
  case (1 s1 s2 n i)
  have l: "i < length s1" "i < length s2" using "1.prems" by (auto dest: nul_in_drop_less)
  obtain k where n: "n = Suc k" using "1.prems"(3) by (cases n) auto
  show ?case
  proof (cases "s1 ! i = s2 ! i \<and> s1 ! i \<noteq> 0 \<and> k \<noteq> 0")
    case True
    with l "1.prems" "1.IH" n show ?thesis
      by (subst ece391_strncmp_from.simps) (auto simp: cstr_Cons nul_in_drop_Suc)
  next
    case False
    then show ?thesis
      using l n by (subst ece391_strncmp_from.simps) (cases "s1 ! i = 0"; cases "s2 ! i = 0"; auto simp: cstr_Cons cstr_Nil)
  qed
qed

lemma ece391_strncmp_zero_iff:
  assumes "0 \<in> set s1" and "0 \<in> set s2"
  obtains r where "ece391_strncmp s1 s2 n = Some r" and "r = 0 \<longleftrightarrow> take n (cstr s1) = take n (cstr s2)"
  using ece391_strncmp_from_eq [of 0 s1 s2 n] assms by (cases "n = 0") (auto simp: ece391_strncmp_def)

text \<open>Copying a string down inside its object.\<close>

lemma ece391_strcpy_down:
  assumes "0 \<in> set (drop src m)" and "dst \<le> src"
  defines "w \<equiv> cstr (drop src m)"
  shows "ece391_strcpy m dst src = Some (take dst m @ w @ 0 # drop (Suc (dst + length w)) m)"
  using assms(1,2) unfolding w_def
proof (induction m dst src rule: ece391_strcpy.induct)
  case (1 m dst src)
  have l: "src < length m" using "1.prems"(1) by (rule nul_in_drop_less)
  show ?case
  proof (cases "m ! src = 0")
    case True
    then show ?thesis using l "1.prems"(2)
      by (subst ece391_strcpy.simps) (simp add: cstr_Nil upd_conv_take_nth_drop)
  next
    case False
    let ?m = "m[dst := m ! src]"
    have d: "drop (Suc src) ?m = drop (Suc src) m" using "1.prems"(2) by simp
    have "0 \<in> set (drop (Suc src) ?m)" unfolding d using "1.prems"(1) False by (rule nul_in_drop_Suc)
    then have "ece391_strcpy m dst src =
        Some (take (Suc dst) ?m @ cstr (drop (Suc src) m) @ 0 # drop (Suc (Suc dst + length (cstr (drop (Suc src) m)))) ?m)"
      using "1.IH" [of "m ! src" ?m] l False "1.prems"(2) d by (subst ece391_strcpy.simps) simp
    then show ?thesis
      using l False "1.prems"(2) by (simp add: cstr_Cons take_Suc_conv_app_nth)
  qed
qed

end
