(* ===== verification/Waiting.thy ===== *)
theory Waiting
  imports Kernel
begin

text \<open>
  Processes that wait for a device: the line a reader gets from the keys that are typed, and the
  clock tick a reader of the real-time clock waits for, with the kernel's own interrupt dispatch.
\<close>

section \<open>Waiting for a line\<close>

text \<open>A key that is neither a switching key nor a modifier goes to the line editor.\<close>

lemma set_keyboard_flags_char_key [simp]:
  assumes "is_char_key k"
  shows "set_keyboard_flags k s = s"
proof -
  have lt: "k < DUMMY" and ne: "k \<noteq> SCAN_LSHIFT" "k \<noteq> SCAN_RSHIFT" "k \<noteq> SCAN_CTRL" "k \<noteq> SCAN_ALT"
    using assms unfolding is_char_key_def by blast+
  have "k \<noteq> SCAN_CTRL_RELEASE" "k \<noteq> SCAN_LSHIFT_RELEASE" "k \<noteq> SCAN_RSHIFT_RELEASE" "k \<noteq> SCAN_CAPS" "k \<noteq> SCAN_ALT_RELEASE"
    using lt by auto
  with ne show ?thesis unfolding set_keyboard_flags_def by (simp only: if_False)
qed

lemma keyboard_interrupt_plain:
  assumes "is_char_key (ucast k)"
  shows "keyboard_interrupt (\<lambda>_ _. k) hb eb junk s =
    Inr (Key_return, key_edit junk (ucast k) (snd (inb (\<lambda>_ _. k) PS2_DATA_PORT (send_eoi KEYBOARD_IRQ s))))"
proof -
  have ne: "ucast k \<noteq> SCAN_FONE" "ucast k \<noteq> SCAN_FTWO" "ucast k \<noteq> SCAN_FTHREE"
    using assms by (auto simp: is_char_key_def)
  have t: "fst (inb (\<lambda>_ _. k) p s) = ucast k" for p and s :: "'a kernel_scheme" by (simp add: inb_def)
  show ?thesis
    by (simp add: keyboard_interrupt_def Let_def case_prod_beta t assms ne)
qed

text \<open>
  The state in which a line is being typed: the line so far, control not held, and the two keys
  that choose the character table as they were.
\<close>

definition typing :: "u8 list \<Rightarrow> int \<Rightarrow> int \<Rightarrow> 'a terminal_scheme \<Rightarrow> bool" where
  "typing l sh cl s \<longleftrightarrow> line_inv s \<and> line_clear_behind s \<and> line s = l \<and> ctrl_on s = 0
     \<and> shift_on s = sh \<and> caps_lock_on s = cl"

lemma scan_code_to_char_cong:
  assumes "shift_on t = shift_on s" and "caps_lock_on t = caps_lock_on s"
  shows "scan_code_to_char k t = scan_code_to_char k s"
  unfolding scan_code_to_char_def assms ..

lemma typing_input [simp]:
  "typing l sh cl (snd (inb dev p s)) = typing l sh cl s" "typing l sh cl (send_eoi irq s) = typing l sh cl s"
  by (simp_all add: typing_def inb_def send_eoi_def outb_def line_inv_def line_clear_behind_def line_def)

lemma typing_enter_kernel [simp]: "typing l sh cl (enter_kernel e b s) = typing l sh cl s"
  by (simp add: typing_def enter_kernel_def line_inv_def line_clear_behind_def line_def)

lemma key_char_in_flags [simp]:
  "ctrl_on (key_char_in c s) = ctrl_on s" "shift_on (key_char_in c s) = shift_on s"
  "caps_lock_on (key_char_in c s) = caps_lock_on s"
  by (simp_all add: key_char_in_def Let_def)

lemma typing_char:
  assumes "typing l sh cl s" and "is_char_key k" and "k \<noteq> SCAN_ENTER" and "k \<noteq> SCAN_BACKSPACE"
    and "scan_code_to_char k s = Some c" and "length l < 127"
  shows "typing (l @ [c]) sh cl (key_edit junk k s)"
  using assms
  by (simp add: typing_def key_edit_def line_inv_key_char_in line_clear_behind_key_char_in line_key_char_in edit_char_def)

definition key_gives :: "'a terminal_scheme \<Rightarrow> u8 \<Rightarrow> u8 \<Rightarrow> bool" where
  "key_gives s k c \<longleftrightarrow> is_char_key (ucast k) \<and> ucast k \<noteq> SCAN_ENTER \<and> ucast k \<noteq> SCAN_BACKSPACE
     \<and> scan_code_to_char (ucast k) s = Some c \<and> c \<noteq> 0"

lemma key_gives_cong: "shift_on t = shift_on s \<Longrightarrow> caps_lock_on t = caps_lock_on s \<Longrightarrow> key_gives t k c = key_gives s k c"
  using scan_code_to_char_cong [of t s "ucast k"] by (simp add: key_gives_def)

text \<open>
  The interrupts of the keys \<open>ks\<close>, in this order and with no other interrupt between them: each handler
  comes back to the waiting process.
\<close>

inductive key_path :: "u8 list \<Rightarrow> kernel \<Rightarrow> kernel \<Rightarrow> bool" where
  no_key: "key_path [] s s"
| pressed: "stack_ok e s \<Longrightarrow> keyboard_interrupt (\<lambda>_ _. k) hb eb junk (enter_kernel e b s) = Inr (Key_return, t)
    \<Longrightarrow> key_path ks t u \<Longrightarrow> key_path (k # ks) s u"

inductive_simps key_path_simps: "key_path [] s u" "key_path (k # ks) s u"

lemma key_path_append: "key_path (ks @ ls) s u \<longleftrightarrow> (\<exists>v. key_path ks s v \<and> key_path ls v u)"
proof (induction ks arbitrary: s)
  case (Cons k ks)
  show ?case unfolding append_Cons key_path_simps Cons.IH by blast
qed (simp add: key_path_simps)

lemma key_path_ksteps: "key_path ks s u \<Longrightarrow> (kstep vm)\<^sup>*\<^sup>* (m # ms, s) (m # ms, u)"
  by (induction rule: key_path.induct) (auto intro: converse_rtranclp_into_rtranclp kstep.key)

lemma key_typed:
  assumes "key_gives s k c" and "typing l (shift_on s) (caps_lock_on s) s" and "length l < 125"
    and "keyboard_interrupt (\<lambda>_ _. k) hb eb junk (enter_kernel e b s) = Inr (Key_return, t)"
  shows "typing (l @ [c]) (shift_on s) (caps_lock_on s) t" "shift_on t = shift_on s" "caps_lock_on t = caps_lock_on s"
    "stack_ok e' t = stack_ok e' s" "enter_pressed t = enter_pressed s"
proof -
  let ?s1 = "snd (inb (\<lambda>_ _. k) PS2_DATA_PORT (send_eoi KEYBOARD_IRQ (enter_kernel e b s)))"
  have ty1: "typing l (shift_on s) (caps_lock_on s) ?s1" using assms(2) by simp
  then have fl: "shift_on ?s1 = shift_on s" "caps_lock_on ?s1 = caps_lock_on s" "ctrl_on ?s1 = 0" by (simp_all add: typing_def)
  have kg: "is_char_key (ucast k)" "ucast k \<noteq> SCAN_ENTER" "ucast k \<noteq> SCAN_BACKSPACE" "scan_code_to_char (ucast k) ?s1 = Some c"
    using assms(1) key_gives_cong [OF fl(1,2), of k c] by (simp_all add: key_gives_def)
  have te: "t = key_edit junk (ucast k) ?s1"
    using assms(4) keyboard_interrupt_plain [OF kg(1), of hb eb junk "enter_kernel e b s"] by simp
  show ty: "typing (l @ [c]) (shift_on s) (caps_lock_on s) t"
    using typing_char [OF ty1 kg] assms(3) unfolding te by simp
  then show "shift_on t = shift_on s" "caps_lock_on t = caps_lock_on s" by (simp_all add: typing_def)
  have tc: "t = key_char_in c ?s1" unfolding te using kg fl(3) by (simp add: key_edit_def)
  have "end_buf_idx ?s1 < 125"
  proof -
    have "length (line ?s1) = length l" using ty1 by (simp add: typing_def)
    moreover have "length (keyboard_buffer ?s1) = 128" "0 \<le> end_buf_idx ?s1" "end_buf_idx ?s1 < 128"
      using ty1 by (simp_all add: typing_def line_inv_def idx_ok_def)
    ultimately show ?thesis using assms(3) by (simp add: line_def)
  qed
  then show "enter_pressed t = enter_pressed s"
    unfolding tc by (simp add: key_char_in_def Let_def inb_def send_eoi_def outb_def enter_kernel_def)
  have "dev_only (enter_kernel e b s) t" unfolding te by (simp add: dev_only_def)
  then have "tss_esp0 t = tss_esp0 s" by (simp add: dev_only_fields enter_kernel_def)
  then show "stack_ok e' t = stack_ok e' s" by (simp add: stack_ok_def)
qed

lemma keys_typed:
  assumes "key_path ks s u" and "list_all2 (key_gives s) ks cs" and "typing l (shift_on s) (caps_lock_on s) s"
    and "length (l @ cs) \<le> 125"
  shows "typing (l @ cs) (shift_on s) (caps_lock_on s) u \<and> stack_ok e' u = stack_ok e' s \<and> enter_pressed u = enter_pressed s"
  using assms
proof (induction arbitrary: cs l rule: key_path.induct)
  case (pressed e s k hb eb junk b t ks u)
  then obtain c ds where cs: "cs = c # ds" and kc: "key_gives s k c" and kcs: "list_all2 (key_gives s) ks ds"
    by (auto simp: list_all2_Cons1)
  have "length l < 125" using pressed.prems(3) by (simp add: cs)
  note t = key_typed [OF kc pressed.prems(2) this pressed.hyps(2)]
  have "list_all2 (key_gives t) ks ds" using kcs key_gives_cong [OF t(2,3)] by (simp add: list_all2_mono)
  moreover have "typing (l @ [c]) (shift_on t) (caps_lock_on t) t" using t(1-3) by simp
  moreover have "length ((l @ [c]) @ ds) \<le> 125" using pressed.prems(3) by (simp add: cs)
  ultimately have "typing ((l @ [c]) @ ds) (shift_on t) (caps_lock_on t) u \<and> stack_ok e' u = stack_ok e' t
      \<and> enter_pressed u = enter_pressed t" by (rule pressed.IH)
  then show ?case using t(2-5) by (simp add: cs)
qed simp

lemma key_pressable:
  assumes "is_char_key (ucast k)" and "stack_ok e s"
  shows "\<exists>u. key_path [k] s u"
  using pressed [OF assms(2) keyboard_interrupt_plain [OF assms(1)] no_key] by blast

lemma keys_can_be_typed:
  assumes "list_all2 (key_gives s) ks cs" and "typing l (shift_on s) (caps_lock_on s) s"
    and "length (l @ cs) \<le> 125" and "stack_ok e s"
  shows "\<exists>u. key_path ks s u"
  using assms
proof (induction ks arbitrary: cs rule: rev_induct)
  case (snoc k ks)
  then obtain c ds where cs: "cs = ds @ [c]" and kc: "key_gives s k c" and kcs: "list_all2 (key_gives s) ks ds"
    by (auto simp: list_all2_append1 list_all2_Cons1)
  then obtain v where v: "key_path ks s v" using snoc.IH [OF kcs] snoc.prems(2-4) by auto
  have "stack_ok e v" using keys_typed [OF v kcs snoc.prems(2)] snoc.prems(3,4) by (simp add: cs)
  moreover have "is_char_key (ucast k)" using kc by (simp add: key_gives_def)
  ultimately obtain u where "key_path [k] v u" using key_pressable by blast
  with v show ?case unfolding key_path_append by blast
qed (auto intro: no_key)

lemma is_char_key_enter: "is_char_key SCAN_ENTER"
  by (simp add: is_char_key_def)

lemma enter_pressed_key_enter [simp]: "enter_pressed (key_enter s) = 1"
  by (simp add: key_enter_def Let_def)

lemma typing_key_enter: "typing l sh cl s \<Longrightarrow> line_inv (key_enter s)"
  by (simp add: typing_def line_inv_key_enter)

text \<open>Enter ends the line: what a waiting \<open>terminal_read\<close> then returns.\<close>

lemma enter_typed:
  assumes ty: "typing l sh cl v" and "0 \<notin> set l" and "length l \<le> 125"
    and key: "keyboard_interrupt (\<lambda>_ _. 0x1C) hb eb junk (enter_kernel e b v) = Inr (Key_return, u)"
    and "min (nat n) (length l + 1) \<le> length buf"
  shows "enter_pressed u \<noteq> 0"
    and "\<exists>t r. r = min (nat n) (length l + 1) \<and> line t = []
      \<and> terminal_read h es buf n u = Some (int r, take r (l @ [10]) @ drop r buf, t, es)"
proof -
  let ?w = "snd (inb (\<lambda>_ _. 0x1C) PS2_DATA_PORT (send_eoi KEYBOARD_IRQ (enter_kernel e b v)))"
  let ?r = "min (nat n) (length l + 1)"
  have uc: "ucast (0x1C :: u8) = SCAN_ENTER" by simp
  have tw: "typing l sh cl ?w" using ty by simp
  have u: "u = key_enter ?w"
    using key tw keyboard_interrupt_plain [of "0x1C" hb eb junk "enter_kernel e b v", unfolded uc, OF is_char_key_enter]
    by (simp add: typing_def key_edit_def)
  show ep: "enter_pressed u \<noteq> 0" unfolding u by simp
  have cs: "cstr (keyboard_buffer u) = l @ [10]"
    using tw assms(2,3) cstr_key_enter [of ?w] by (simp add: u typing_def)
  have len: "length (keyboard_buffer u) = 128" using typing_key_enter [OF tw] by (simp add: u line_inv_def)
  have "0 \<in> set (keyboard_buffer u)"
  proof (rule ccontr)
    assume "0 \<notin> set (keyboard_buffer u)"
    then have "length (l @ [10]) = 128" using cstr_no_nul cs len by metis
    then show False using assms(3) by simp
  qed
  then obtain t where "terminal_read h es buf n u = Some (int ?r, take ?r (l @ [10]) @ drop ?r buf, t, es)"
    and t: "t = u\<lparr>enter_pressed := 0, keyboard_buffer := clear_keyboard_buffer (keyboard_buffer u), end_buf_idx := 0\<rparr>"
    using terminal_read_ready [OF ep, of n buf h es] assms(5) by (simp add: cs Let_def)
  moreover have "line t = []" using term_ready_after_read(2) [OF typing_key_enter [OF tw]] by (simp only: t u)
  ultimately show "\<exists>t r. r = ?r \<and> line t = [] \<and> terminal_read h es buf n u = Some (int r, take r (l @ [10]) @ drop r buf, t, es)"
    by blast
qed

text \<open>
  C5: a process that waits for a line gets what is typed. Let the keys \<open>ks\<close> be character keys that give the
  characters \<open>cs\<close>, one each, which continue the line typed so far to at most 125 characters. These keys and then Enter can
  be pressed while the process waits; whenever they are pressed, in this order and with no other interrupt
  between them, the kernel keeps the process waiting until Enter, after which the
  waiting \<open>terminal_read\<close> returns exactly the line \<open>l @ cs\<close> with its newline (or as much of it as
  the caller asked for), and the process runs again with an empty line.
\<close>

theorem typed_line_is_read:
  fixes s :: kernel
  assumes "list_all2 (key_gives s) ks cs" and "typing l (shift_on s) (caps_lock_on s) s" and "0 \<notin> set l"
    and "length (l @ cs) \<le> 125" and "stack_ok e s" and "min (nat n) (length (l @ cs) + 1) \<le> length buf"
    and "enter_pressed s = 0"
  shows "(\<exists>u. key_path (ks @ [0x1C]) s u)
    \<and> (\<forall>v. key_path ks s v \<longrightarrow> enter_pressed v = 0 \<and> line v = l @ cs)
    \<and> (\<forall>u. key_path (ks @ [0x1C]) s u \<longrightarrow>
        (kstep vm)\<^sup>*\<^sup>* (Wait_line buf n # ms, s) (Wait_line buf n # ms, u)
        \<and> (\<exists>t r. r = min (nat n) (length (l @ cs) + 1)
             \<and> terminal_read (\<lambda>_. Some) ([] :: unit list) buf n u = Some (int r, take r (l @ cs @ [10]) @ drop r buf, t, [])
             \<and> kstep vm (Wait_line buf n # ms, u) (User # ms, t) \<and> line t = []))"
proof (intro conjI allI impI)
  let ?r = "min (nat n) (length (l @ cs) + 1)"
  have nz: "0 \<notin> set (l @ cs)"
    using assms(1,3) by (induction rule: list_all2_induct) (auto simp: key_gives_def)
  have ks: "typing (l @ cs) (shift_on s) (caps_lock_on s) v" "stack_ok e v" "enter_pressed v = 0" if "key_path ks s v" for v
    using keys_typed [OF that assms(1,2,4)] assms(5,7) by auto
  from keys_can_be_typed [OF assms(1,2,4,5)] obtain v where "key_path ks s v" ..
  moreover obtain u where "key_path [0x1C] v u"
    using key_pressable [of "0x1C" e v] ks(2) [OF \<open>key_path ks s v\<close>] is_char_key_enter by auto
  ultimately show "\<exists>u. key_path (ks @ [0x1C]) s u" unfolding key_path_append by blast
  show "enter_pressed v = 0" "line v = l @ cs" if "key_path ks s v" for v using ks [OF that] by (simp_all add: typing_def)
  fix u
  assume path: "key_path (ks @ [0x1C]) s u"
  show "(kstep vm)\<^sup>*\<^sup>* (Wait_line buf n # ms, s) (Wait_line buf n # ms, u)" using path by (rule key_path_ksteps)
  obtain v e' b hb eb junk where v: "key_path ks s v"
    and key: "keyboard_interrupt (\<lambda>_ _. 0x1C) hb eb junk (enter_kernel e' b v) = Inr (Key_return, u)"
    using path unfolding key_path_append key_path_simps by blast
  note enter = enter_typed [OF ks(1) [OF v] nz assms(4) key assms(6)]
  obtain t where r: "terminal_read (\<lambda>_. Some) ([] :: unit list) buf n u =
      Some (int ?r, take ?r (l @ cs @ [10]) @ drop ?r buf, t, [])" and t: "line t = []"
    using enter(2) [of "\<lambda>_. Some" "[] :: unit list"] unfolding append_assoc by blast
  have "kstep vm (Wait_line buf n # ms, u) (User # ms, t)" by (rule kstep.line_ready [OF enter(1) r])
  with r t show "\<exists>t r. r = ?r
      \<and> terminal_read (\<lambda>_. Some) ([] :: unit list) buf n u = Some (int r, take r (l @ cs @ [10]) @ drop r buf, t, [])
      \<and> kstep vm (Wait_line buf n # ms, u) (User # ms, t) \<and> line t = []" by blast
qed

lemma demo_scan:
  assumes "shift_on s = 0" and "caps_lock_on s = 0"
  shows "scan_code_to_char 0x26 s = Some 108" "scan_code_to_char 0x1F s = Some 115"
proof -
  have "map_of us_layout 0x26 = Some (CHR ''l'', CHR ''L'')" "map_of us_layout 0x1F = Some (CHR ''s'', CHR ''S'')"
    by code_simp+
  then show "scan_code_to_char 0x26 s = Some 108" "scan_code_to_char 0x1F s = Some 115"
    using assms by (simp_all add: scan_code_to_char_table map_of_table table_entries_layout key_char_def is_letter_def)
qed

lemma demo_typing: "typing [] 0 0 demo_kernel"
  by (simp add: typing_def line_inv_def line_clear_behind_def line_def idx_ok_def xy_ok_def demo_kernel_def terminal.defs bss_terminal_def)

lemma demo_key_gives: "list_all2 (key_gives demo_kernel) [0x26, 0x1F] [108, 115]"
  using demo_typing demo_scan [of demo_kernel] by (simp add: key_gives_def typing_def is_char_key_def)

theorem typed_line_is_read_witness:
  "\<exists>u. key_path [0x26, 0x1F, 0x1C] demo_kernel u
     \<and> (\<exists>t. terminal_read (\<lambda>_. Some) ([] :: unit list) [0, 0, 0, 0] 4 u = Some (3, [108, 115, 10, 0], t, [])
          \<and> kstep False ([Wait_line [0, 0, 0, 0] 4], u) ([User], t))"
proof -
  have f: "shift_on demo_kernel = 0" "caps_lock_on demo_kernel = 0" using demo_typing by (simp_all add: typing_def)
  have e: "stack_ok (tss_esp0 demo_kernel) demo_kernel" "enter_pressed demo_kernel = 0"
    by (simp add: stack_ok_def) (simp_all add: demo_kernel_def terminal.defs bss_terminal_def kernel.defs)
  have "typing [] (shift_on demo_kernel) (caps_lock_on demo_kernel) demo_kernel" using demo_typing f by simp
  from typed_line_is_read [OF demo_key_gives this, of "tss_esp0 demo_kernel" 4 "[0, 0, 0, 0]" False "[]"] e
  have a: "\<exists>u. key_path [0x26, 0x1F, 0x1C] demo_kernel u"
    and b: "\<And>u. key_path [0x26, 0x1F, 0x1C] demo_kernel u \<Longrightarrow>
      \<exists>t. terminal_read (\<lambda>_. Some) ([] :: unit list) [0, 0, 0, 0] 4 u = Some (3, [108, 115, 10, 0], t, [])
          \<and> kstep False ([Wait_line [0, 0, 0, 0] 4], u) ([User], t)"
    by auto
  from a obtain u where "key_path [0x26, 0x1F, 0x1C] demo_kernel u" ..
  with b show ?thesis by blast
qed

section \<open>Waiting for a tick\<close>

text \<open>The state when the keys pressed during the read have been handled, if every one of their handlers came back.\<close>

abbreviation keys_handled :: "device \<Rightarrow> u8 list \<Rightarrow> u8 list \<Rightarrow> u8 \<Rightarrow> u8 list \<Rightarrow> kernel \<Rightarrow> kernel option" where
  "keys_handled dev hb eb junk ks s \<equiv> run_events (irq_handler dev hb eb junk) (map Key ks) (s\<lparr>int_flag := 1\<rparr>)"

text \<open>A key other than Alt+F2 and Alt+F3 starts no shell; its handler comes back.\<close>

lemma irq_handler_returns:
  assumes "ucast k \<noteq> SCAN_FTWO" "ucast k \<noteq> SCAN_FTHREE"
  shows "\<exists>t. irq_handler dev hb eb junk (Key k) s = Some t"
proof -
  have "fst (inb (\<lambda>_ _. k) p s) = ucast k" for p and s :: "'a kernel_scheme" by (simp add: inb_def)
  then show ?thesis using assms by (simp add: irq_handler_def keyboard_interrupt_def Let_def case_prod_beta)
qed

lemma run_events_returns:
  "(\<And>k s. k \<in> set ks \<Longrightarrow> \<exists>t. h (f k) s = Some t) \<Longrightarrow> run_events h (map f ks) s \<noteq> None"
proof (induction ks arbitrary: s)
  case (Cons k ks)
  obtain t where "h (f k) s = Some t" using Cons.prems [of k] by auto
  then show ?case using Cons.IH [of t] Cons.prems by simp
qed simp



end
