(* ===== verification/Call_Properties.thy ===== *)
theory Call_Properties
  imports Descriptors
begin

text \<open>
  Properties of the system calls on files, arguments, video memory and process slots:
  reading an open file in pieces, the arguments of a program, the failures that use up process slots,
  the descriptors that were never opened, and what \<open>sys_vidmap\<close> does to the page tables.
\<close>

section \<open>Reading files through descriptors\<close>

text \<open>
  Opening a regular file and reading it twice returns two consecutive pieces of its content:
  \<open>sys_open\<close> takes the lowest free descriptor from 2 on, each \<open>sys_read\<close> returns the bytes from
  the current position on, as many as asked for and as there are, and advances the position; no
  other descriptor of the process changes.
\<close>

lemma open_read_read:
  fixes s :: "'a kernel_scheme"
  assumes "0 \<in> set name" and "find (\<lambda>k. dir_name (fs s) k = cstr name) [0..<unat (dir_count (fs s))] = Some k"
    and "filetype (dir_entry (fs s) k) = 2" and "wf_file (fs s) (inode_num (dir_entry (fs s) k))"
    and "length (fd_arr (cur_pcb s)) = 8" and "free_fd (fd_arr (cur_pcb s)) 2 < 8"
    and "read_function (ops_table s file_operations) = File_fn"
    and "0 \<le> m" "m \<le> int (length buf)" "0 \<le> n" "n \<le> int (length buf')" "m + n < 2 ^ 31"
    and "nat m \<le> length (file_content (fs s) (inode_num (dir_entry (fs s) k)))"
  shows "\<exists>F fd t u v r. F = file_content (fs s) (inode_num (dir_entry (fs s) k))
    \<and> sys_open (Some name) s = Inr (int fd, t) \<and> fd = free_fd (fd_arr (cur_pcb s)) 2
    \<and> sys_read h es (int fd) (Some buf) m t = Inr (m, Some (take (nat m) F @ drop (nat m) buf), u, es)
    \<and> r = min (nat n) (length F - nat m)
    \<and> sys_read h es (int fd) (Some buf') n u = Inr (int r, Some (take r (drop (nat m) F) @ drop r buf'), v, es)
    \<and> (j = fd \<or> fd_arr (cur_pcb v) ! j = fd_arr (cur_pcb s) ! j)"
proof -
  let ?ino = "inode_num (dir_entry (fs s) k)"
  let ?F = "file_content (fs s) ?ino" and ?fd = "free_fd (fd_arr (cur_pcb s)) 2"
  from sys_open_regular [OF assms(1,2,3,5,6,7)] obtain t where
    o: "sys_open (Some name) s = Inr (int ?fd, t)" and ot: "open_file (int ?fd) ?ino 0 t" and ft: "fs t = fs s"
    and kt: "\<And>j. j \<noteq> ?fd \<Longrightarrow> fd_arr (cur_pcb t) ! j = fd_arr (cur_pcb s) ! j"
    by metis
  have b: "0 + nat m < 2 ^ 32" "nat m + nat n < 2 ^ 32" using assms(8,10,12) by simp_all
  have wt: "wf_file (fs t) ?ino" "0 \<le> length (file_content (fs t) ?ino)" "nat m \<le> length buf"
    using assms(4,9) by (simp_all add: ft)
  have mm: "min (nat m) (length (file_content (fs t) ?ino) - 0) = nat m" using assms(13) by (simp add: ft min_def)
  from sys_read_open_file [OF ot wt(1,2) assms(8) b(1) wt(3), where h = h and es = es, unfolded mm] obtain u where
    "sys_read h es (int ?fd) (Some buf) m t = Inr (int (nat m), Some (take (nat m) (drop 0 (file_content (fs t) ?ino)) @ drop (nat m) buf), u, es)"
    and ou: "open_file (int ?fd) ?ino (0 + nat m) u" and fu: "fs u = fs t"
    and ku: "\<And>j. j \<noteq> nat (int ?fd) \<Longrightarrow> fd_arr (cur_pcb u) ! j = fd_arr (cur_pcb t) ! j"
    by metis
  then have ru: "sys_read h es (int ?fd) (Some buf) m t = Inr (m, Some (take (nat m) ?F @ drop (nat m) buf), u, es)"
    using assms(8) ft by simp
  have wu: "wf_file (fs u) ?ino" "nat m \<le> length (file_content (fs u) ?ino)" "nat n \<le> length buf'"
    using assms(4,11,13) by (simp_all add: fu ft)
  from ou have ou': "open_file (int ?fd) ?ino (nat m) u" by simp
  from sys_read_open_file [OF ou' wu(1,2) assms(10) b(2) wu(3), where h = h and es = es] obtain v where
    "sys_read h es (int ?fd) (Some buf') n u =
      Inr (int (min (nat n) (length (file_content (fs u) ?ino) - nat m)),
        Some (take (min (nat n) (length (file_content (fs u) ?ino) - nat m)) (drop (nat m) (file_content (fs u) ?ino)) @
        drop (min (nat n) (length (file_content (fs u) ?ino) - nat m)) buf'), v, es)"
    and kv: "\<And>j. j \<noteq> nat (int ?fd) \<Longrightarrow> fd_arr (cur_pcb v) ! j = fd_arr (cur_pcb u) ! j"
    by metis
  then have "sys_read h es (int ?fd) (Some buf') n u =
      Inr (int (min (nat n) (length ?F - nat m)), Some (take (min (nat n) (length ?F - nat m)) (drop (nat m) ?F) @
        drop (min (nat n) (length ?F - nat m)) buf'), v, es)"
    by (simp only: fu ft)
  moreover have "j = ?fd \<or> fd_arr (cur_pcb v) ! j = fd_arr (cur_pcb s) ! j"
    using kt ku kv by (metis nat_int)
  ultimately show ?thesis using o ru by blast
qed

lemma sys_init_fields [simp]:
  "fs (sys_init s) = fs s" "get_pcb (sys_init s) = get_pcb s" "pcb_at (sys_init s) = pcb_at s"
  "processes (sys_init s) = processes s" "read_function (ops_table (sys_init s) file_operations) = File_fn"
  "read_function (ops_table (sys_init s) dir_operations) = Dir_fn"
  "close_function (ops_table (sys_init s) dir_operations) = Dir_fn"
  by (simp_all add: sys_init_def get_pcb_def)

lemma cstr_ls: "cstr (bytes ''ls'' @ [0]) = bytes ''ls''"
  by (rule cstr_append_nul) (simp add: bytes_def)

section \<open>Listing a directory\<close>

definition open_dir :: "int \<Rightarrow> nat \<Rightarrow> 'a kernel_scheme \<Rightarrow> bool" where
  "open_dir fd pos s \<longleftrightarrow> 2 \<le> fd \<and> fd < 8 \<and> length (fd_arr (cur_pcb s)) = 8
     \<and> fd_operations (fd_arr (cur_pcb s) ! nat fd) = dir_operations \<and> flags (fd_arr (cur_pcb s) ! nat fd) = 1
     \<and> file_position (fd_arr (cur_pcb s) ! nat fd) = of_nat pos
     \<and> read_function (ops_table s dir_operations) = Dir_fn"

lemma dir_name_length_eq:
  assumes "length name = 33" and "i \<le> min 32 (length (cstr name))"
  shows "dir_name_length name i = Some (min 32 (length (cstr name)))"
  using assms(2)
proof (induction "min 32 (length (cstr name)) - i" arbitrary: i)
  case 0
  then have i: "i = min 32 (length (cstr name))" by simp
  have "i = 32 \<or> name ! i = 0"
  proof (cases "length (cstr name) < 32")
    case True
    then show ?thesis using i nth_cstr_bounded [of name 33 i] assms(1) by simp
  next
    case False
    then show ?thesis using i by simp
  qed
  with i assms(1) show ?case by (subst dir_name_length.simps) auto
next
  case (Suc k)
  then have l: "i < length (cstr name)" "i < 32" by auto
  then have "name ! i \<noteq> 0" using nth_cstr [of i name] nth_cstr_nonzero [of i name] by simp
  with l Suc assms(1) show ?case by (subst dir_name_length.simps) simp
qed

lemma cstr_dir_entry:
  fixes f :: fsys
  shows "length (filename (dir_entry f p)) = 32"
    and "min 32 (length (cstr (filename (dir_entry f p) @ [b]))) = length (dir_name f p)"
    and "take 32 (cstr (filename (dir_entry f p) @ [b])) = dir_name f p"
proof -
  let ?n = "dir_name f p"
  have n: "length ?n \<le> 32" "0 \<notin> set ?n"
    by (simp_all add: dir_name_def) (meson in_set_takeD nul_notin_cstr)
  show "length (filename (dir_entry f p)) = 32" using n by (simp add: dir_entry_def)
  have "min 32 (length (cstr (filename (dir_entry f p) @ [b]))) = length ?n \<and> take 32 (cstr (filename (dir_entry f p) @ [b])) = ?n"
  proof (cases "length ?n = 32")
    case True
    moreover have "cstr (xs @ ys) = xs @ cstr ys" if "0 \<notin> set xs" for xs ys
      using that unfolding cstr_def by (intro takeWhile_append2) auto
    ultimately have "cstr (filename (dir_entry f p) @ [b]) = ?n @ cstr [b]"
      using n by (simp add: dir_entry_def)
    with True show ?thesis by simp
  next
    case False
    then obtain k where "32 - length ?n = Suc k" using n by (metis Suc_diff_Suc le_neq_implies_less)
    then have "cstr (filename (dir_entry f p) @ [b]) = ?n" using n by (simp add: dir_entry_def)
    with n show ?thesis by simp
  qed
  then show "min 32 (length (cstr (filename (dir_entry f p) @ [b]))) = length ?n"
    "take 32 (cstr (filename (dir_entry f p) @ [b])) = ?n" by simp_all
qed

text \<open>What reading an open directory does, with the state it leaves.\<close>

lemma sys_read_open_dir:
  fixes s :: "'a kernel_scheme"
  assumes "open_dir fd p s" and "p < 2 ^ 32 - 1" and "0 \<le> nbytes" and "32 \<le> length buf"
  defines "t \<equiv> upd_pcb (get_pcb s) (upd_fd fd (\<lambda>e. e\<lparr>file_position := file_position e + 1\<rparr>)) s"
  shows "open_dir fd (Suc p) t" and "sys_read h es fd (Some buf) nbytes s =
    (if p < unat (dir_count (fs s))
     then Inr (int (length (dir_name (fs s) p)), Some (filename (dir_entry (fs s) p) @ drop 32 buf), t, es)
     else Inr (0, Some buf, t, es))"
proof -
  let ?f = "fs s"
  have fd: "2 \<le> fd" "fd < 8" "length (fd_arr (cur_pcb s)) = 8"
    "fd_operations (fd_arr (cur_pcb s) ! nat fd) = dir_operations" "flags (fd_arr (cur_pcb s) ! nat fd) = 1"
    "file_position (fd_arr (cur_pcb s) ! nat fd) = of_nat p" "read_function (ops_table s dir_operations) = Dir_fn"
    using assms(1) unfolding open_dir_def by blast+
  show "open_dir fd (Suc p) t" using fd by (simp add: open_dir_def t_def add.commute)
  let ?d = "\<lparr>filename = obj_at (fs_mem ?f) (direntry_addr ?f (of_nat p)) 32,
    filetype = read_u32 (fs_mem ?f) (direntry_addr ?f (of_nat p) + 32),
    inode_num = read_u32 (fs_mem ?f) (direntry_addr ?f (of_nat p) + 36)\<rparr> :: dentry"
  have "dir_read fd (Some buf) nbytes s =
    (if p < unat (dir_count ?f) then Some (int (length (dir_name ?f p)), Some (filename (dir_entry ?f p) @ drop 32 buf), t)
     else Some (0, Some buf, t))"
  proof (cases "p < unat (dir_count ?f)")
    case True
    let ?name = "filename (dir_entry ?f p) @ [ucast (filetype (dir_entry ?f p))]"
    have idx: "read_dentry_by_index ?f (of_nat p) ?d = Some (0, dir_entry ?f p)"
      using True by (intro read_dentry_by_index_eq) simp_all
    have len: "length ?name = 33" by (simp add: cstr_dir_entry)
    have "dir_name_length ?name 0 = Some (length (dir_name ?f p))"
      using dir_name_length_eq [OF len, of 0] cstr_dir_entry(2) by simp
    moreover have "strncpy buf ?name 32 = Some (filename (dir_entry ?f p) @ drop 32 buf)"
    proof -
      have "32 - length (cstr ?name) = 32 - length (dir_name ?f p)"
        using cstr_dir_entry(2) [of ?f p "ucast (filetype (dir_entry ?f p))"] by linarith
      then have "take 32 (cstr ?name) @ replicate (32 - length (cstr ?name)) 0 = filename (dir_entry ?f p)"
        using cstr_dir_entry(3) [of ?f p "ucast (filetype (dir_entry ?f p))"] by (simp only:) (simp add: dir_entry_def)
      then show ?thesis
        using strncpy_eq [where src = ?name and n = 32 and dest = buf] assms(4) len by (simp del: append_assoc add: append_assoc [symmetric])
    qed
    ultimately show ?thesis
      using True fd assms(3) idx by (simp add: dir_read_def Let_def t_def)
  next
    case False
    then have "dir_count ?f \<le> of_nat p" using assms(2) by (simp add: word_le_nat_alt unat_of_nat_u32)
    with False fd assms(3) show ?thesis by (simp add: dir_read_def Let_def t_def read_dentry_by_index_def)
  qed
  then show "sys_read h es fd (Some buf) nbytes s =
    (if p < unat (dir_count (fs s))
     then Inr (int (length (dir_name (fs s) p)), Some (filename (dir_entry (fs s) p) @ drop 32 buf), t, es)
     else Inr (0, Some buf, t, es))"
    using fd assms(3) by (simp add: sys_read_def Let_def of_option_def)
qed

text \<open>
  Reading an open directory lists it. While entries are left, \<open>sys_read\<close> puts the name of
  the entry at the descriptor's position into the first 32 bytes of the buffer, padded with NULs,
  returns its length (at most 32) and moves to the next entry; after the last entry it returns 0. The
  byte count of the caller is not used: 32 bytes are written whatever it is.
\<close>

lemma dir_read_lists_entries:
  fixes s :: "'a kernel_scheme"
  assumes "open_dir fd p s" and "p < 2 ^ 32 - 1" and "0 \<le> nbytes" and "32 \<le> length buf"
  shows "\<exists>t. open_dir fd (Suc p) t \<and> sys_read h es fd (Some buf) nbytes s =
    (if p < unat (dir_count (fs s))
     then Inr (int (length (dir_name (fs s) p)), Some (filename (dir_entry (fs s) p) @ drop 32 buf), t, es)
     else Inr (0, Some buf, t, es))"
  using sys_read_open_dir [OF assms] by blast

section \<open>Arguments\<close>

text \<open>
  C27: the arguments of a command line reach the program. After \<open>sys_execute\<close> of a command with
  arguments, \<open>sys_getargs\<close> of the new process succeeds and the string it stores is the rest of the
  line after the first space. A command without a space leaves the argument buffer
  of its slot as the previous process of that slot had it.
\<close>

theorem getargs_after_execute:
  fixes s :: "'a kernel_scheme"
  assumes st: "startable command i k ino s" and "length hb = 40" "length eb = 4"
    and "128 \<le> length buf" and "0 \<le> n"
  shows "\<exists>e t u. sys_execute hb eb (Some command) s = Inr (Exec_enter e, t) \<and> u = t\<lparr>kernel_esp := tss_esp0 t\<rparr>
    \<and> (command_args (cstr command) \<noteq> [] \<longrightarrow>
         (\<exists>b. sys_getargs (Some buf) n u = Inr (0, Some b) \<and> cstr b = command_args (cstr command) \<and> length b = length buf))
    \<and> (command_word (cstr command) = cstr command \<longrightarrow> argument (cur_pcb u) = argument (pcb_at s (pcb_addr (int i))))"
proof -
  let ?c = "cstr command" and ?pa = "pcb_addr (int i)"
  have i: "i < 6" and al: "length (argument (pcb_at s ?pa)) = 128" and lt: "length (command_args ?c) < 128"
    using st unfolding startable_def by blast+
  from sys_execute_startable [OF assms(1-3)] obtain e s1 where
    ex: "sys_execute hb eb (Some command) s = Inr (Exec_enter e, exec_pcb i s1)"
    and pcb: "pcb_at s1 = (pcb_at s)(?pa := (pcb_at s ?pa)\<lparr>argument :=
      if length (command_word ?c) < length ?c then command_args ?c @ 0 # drop (Suc (length (command_args ?c))) (argument (pcb_at s ?pa))
      else argument (pcb_at s ?pa)\<rparr>)"
    by metis
  let ?t = "exec_pcb i s1"
  define u where "u = ?t\<lparr>kernel_esp := tss_esp0 ?t\<rparr>"
  have "get_pcb u = ?pa" using get_pcb_esp0 [OF i, of ?t] by (simp add: u_def)
  then have arg: "argument (cur_pcb u) = argument (pcb_at s1 ?pa)" using exec_pcb_new(5) [of i s1] by (simp add: u_def)
  have "\<exists>b. sys_getargs (Some buf) n u = Inr (0, Some b) \<and> cstr b = command_args ?c \<and> length b = length buf"
    if ne: "command_args ?c \<noteq> []"
  proof -
    have "length (command_word ?c) < length ?c" using ne by (auto simp: command_args_def)
    then have a: "argument (cur_pcb u) = command_args ?c @ 0 # drop (Suc (length (command_args ?c))) (argument (pcb_at s ?pa))"
      by (simp add: arg pcb)
    have nz: "0 \<notin> set (command_args ?c)" using nul_notin_cstr [of command] by (metis command_args_def in_set_dropD)
    then have "command_args ?c ! 0 \<noteq> 0" using ne by (metis length_greater_0_conv nth_mem)
    then have a0: "argument (cur_pcb u) ! 0 \<noteq> 0" using ne by (simp add: a nth_append)
    have la: "length (argument (cur_pcb u)) = 128" using al lt by (simp add: a)
    have "fold (\<lambda>i b. b[i := argument (cur_pcb u) ! i]) [0..<128] buf = argument (cur_pcb u) @ drop 128 buf"
      using fold_list_array [of 128 buf "\<lambda>i. argument (cur_pcb u) ! i"] assms(4) la map_nth [of "argument (cur_pcb u)"]
      by (simp del: upt_rec_numeral)
    then have "sys_getargs (Some buf) n u = Inr (0, Some (argument (cur_pcb u) @ drop 128 buf))"
      using assms(4,5) a0 by (simp add: sys_getargs_def del: upt_rec_numeral)
    moreover have "cstr (argument (cur_pcb u) @ drop 128 buf) = command_args ?c"
      using nz unfolding a by simp
    ultimately show ?thesis using la assms(4) by auto
  qed
  moreover have "argument (cur_pcb u) = argument (pcb_at s ?pa)" if "command_word ?c = ?c"
    using that by (simp add: arg pcb)
  ultimately show ?thesis using ex u_def by blast
qed

theorem getargs_after_execute_witness:
  "\<exists>e t b. sys_execute (replicate 40 0) (replicate 4 0) (Some (bytes ''ls -l'' @ [0])) demo_kernel = Inr (Exec_enter e, t)
     \<and> sys_getargs (Some (replicate 200 0)) 10 (t\<lparr>kernel_esp := tss_esp0 t\<rparr>) = Inr (0, Some b) \<and> cstr b = bytes ''-l''"
proof -
  have c: "command_args (cstr (bytes ''ls -l'' @ [0])) = bytes ''-l''"
    by (subst cstr_append_nul) (simp_all add: bytes_def command_args_def command_word_def)
  then have ne: "command_args (cstr (bytes ''ls -l'' @ [0])) \<noteq> []" by (simp add: bytes_def)
  from getargs_after_execute [OF demo_startable, of "replicate 40 0" "replicate 4 0" "replicate 200 0" 10] show ?thesis
    using ne c by auto
qed

section \<open>Failures\<close>

text \<open>
  C29: a command whose program is not in the directory fails with -1 but keeps the process slot it
  took, and once every slot is taken every further \<open>sys_execute\<close> fails without an effect; so six
  mistyped commands leave the kernel unable to start a program.
\<close>

theorem failed_execute_leaks_slot:
  assumes "0 \<in> set command" and "length (cstr command) < 1000"
    and "length (command_args (cstr command)) < length (argument (pcb_at s (pcb_addr (int i))))"
    and "i = free_slot (processes s) 0" and "i < 6"
    and "find (\<lambda>k. dir_name (fs s) k = command_word (cstr command)) [0..<unat (dir_count (fs s))] = None"
    and "\<forall>j<6. processes u ! j \<noteq> 0"
  shows "(\<exists>t. sys_execute hb eb (Some command) s = Inr (Exec_ret (-1), t) \<and> processes t = (processes s)[i := 1])
    \<and> sys_execute hb eb c u = Inr (Exec_ret (-1), u)"
proof -
  let ?s = "s\<lparr>processes := (processes s)[i := 1]\<rparr>" and ?w = "command_word (cstr command)"
  have al: "length (command_args (cstr command)) < length (argument (pcb_at ?s (pcb_addr (int i))))" using assms(3) by simp
  from exec_prepare_eq [OF assms(1,2) al] obtain rest arg where
    p: "exec_prepare command i ?s = Some (?w @ 0 # rest, upd_pcb (pcb_addr (int i)) (\<lambda>p. p\<lparr>argument := arg\<rparr>) ?s)"
    by metis
  have "cstr (?w @ 0 # rest) = ?w" by (rule cstr_append_nul) (rule nul_notin_command_word)
  then have "read_dentry_by_name (fs s) (Some (?w @ 0 # rest)) blank_dentry = Some (-1, blank_dentry)"
    using scan_dentries_eq [of "?w @ 0 # rest" blank_dentry "fs s" 0] assms(6)
    by (simp add: read_dentry_by_name_def blank_dentry_def)
  then have "sys_execute hb eb (Some command) s =
      Inr (Exec_ret (-1), upd_pcb (pcb_addr (int i)) (\<lambda>p. p\<lparr>argument := arg\<rparr>) ?s)"
    using p assms(4,5) by (simp add: sys_execute_def Let_def of_option_def)
  moreover have "free_slot (processes u) 0 = 6"
    using free_slot_props [of 0 "processes u"] assms(7) by (metis le_neq_implies_less zero_le)
  ultimately show ?thesis by (cases c) (simp_all add: sys_execute_def)
qed

theorem failed_execute_leaks_slot_witness:
  "\<exists>t. sys_execute [] [] (Some (bytes ''sl'' @ [0])) demo_kernel = Inr (Exec_ret (-1), t) \<and> processes t = [1, 1, 0, 0, 0, 0]"
proof -
  have c: "cstr (bytes ''sl'' @ [0]) = bytes ''sl''" by (rule cstr_append_nul) (simp add: bytes_def)
  have w: "command_word (bytes ''sl'') = bytes ''sl''" "command_args (bytes ''sl'') = []" "length (bytes ''sl'') = 2"
    by (simp_all add: command_word_def command_args_def bytes_def)
  have f: "find (\<lambda>k. dir_name demo_fs k = bytes ''sl'') [0..<unat (dir_count demo_fs)] = None"
    using demo_dir_name by (simp add: demo_fs_fields upt_conv_Cons) (simp add: bytes_def)
  show ?thesis
    using failed_execute_leaks_slot [of "bytes ''sl'' @ [0]" demo_kernel 1 "demo_kernel\<lparr>processes := replicate 6 1\<rparr>" "[]" "[]" None]
    by (simp add: c w f free_slot.simps)
qed

text \<open>
  C28: descriptors. A read or a write on a descriptor that was never opened, which is what
  \<open>sys_halt\<close> leaves in a process's slot, dereferences a null pointer. Closing an open descriptor returns 0,
  frees it and makes reads and writes on it fail with -1, and closing it again returns -1; but closing a descriptor
  that was never opened also gives it the directory operations, so that reading it then returns -1.
\<close>

theorem descriptor_lifecycle:
  fixes s :: "'a kernel_scheme"
  assumes "2 \<le> fd" "fd < 8" and "length (fd_arr (cur_pcb s)) = 8" and "0 \<le> n"
    and "read_function (ops_table s dir_operations) = Dir_fn" "write_function (ops_table s dir_operations) = Dir_fn"
      "close_function (ops_table s dir_operations) = Dir_fn"
  shows "(fd_arr (cur_pcb s) ! nat fd = clear_fd \<longrightarrow>
      sys_read h es fd (Some buf) n s = Inl Null_pointer \<and> sys_write dev fd (Some buf) n s = Inl Null_pointer)
    \<and> (\<exists>t. sys_close fd s = Inr (if flags (fd_arr (cur_pcb s) ! nat fd) = 0 then -1 else 0, t)
         \<and> flags (fd_arr (cur_pcb t) ! nat fd) = 0 \<and> (\<forall>j. j \<noteq> nat fd \<longrightarrow> fd_arr (cur_pcb t) ! j = fd_arr (cur_pcb s) ! j)
         \<and> sys_read h es fd (Some buf) n t = Inr (-1, Some buf, t, es)
         \<and> sys_write dev fd (Some buf) n t = Inr (-1, t)
         \<and> sys_close fd t = Inr (-1, t))"
proof -
  let ?e = "fd_arr (cur_pcb s) ! nat fd"
  define d where "d e = e\<lparr>fd_operations := dir_operations, flags := (0 :: int)\<rparr>" for e :: fd_entry
  define t where "t = upd_pcb (get_pcb s) (upd_fd fd d) s"
  have g: "get_pcb t = get_pcb s" "ops_table t = ops_table s" by (simp_all add: t_def)
  have fdt: "fd_arr (cur_pcb t) = (fd_arr (cur_pcb s))[nat fd := d ?e]" unfolding g by (simp add: t_def)
  have lt: "nat fd < 8" using assms(1,2) by linarith
  define s1 where "s1 = upd_pcb (get_pcb s) (upd_fd fd (\<lambda>e. e\<lparr>fd_operations := dir_operations\<rparr>)) s"
  have f1: "fd_arr (pcb_at s1 (get_pcb s)) ! nat fd = ?e\<lparr>fd_operations := dir_operations\<rparr>"
    using lt assms(3) by (simp add: s1_def)
  have close0: "sys_close fd s = Inr (-1, s1)" if "flags ?e = 0"
    using assms(1,2) f1 that unfolding sys_close_def Let_def s1_def [symmetric] by simp
  have s1t: "s1 = t" if "flags ?e = 0"
  proof -
    have "?e\<lparr>fd_operations := dir_operations\<rparr> = d ?e" using that by (cases ?e) (simp add: d_def)
    then show ?thesis by (simp add: s1_def t_def upd_pcb_def upd_fd_def)
  qed
  have s2: "upd_pcb (get_pcb s) (upd_fd fd (\<lambda>e. e\<lparr>flags := 0\<rparr>)) s1 = t"
    using lt assms(3) by (simp add: s1_def t_def upd_pcb_def upd_fd_def d_def)
  have "fd_operations (fd_arr (pcb_at t (get_pcb s)) ! nat fd) = dir_operations"
    using fdt lt assms(3) by (simp add: g d_def)
  then have close1: "sys_close fd s = Inr (0, t)" if "flags ?e \<noteq> 0"
    using assms(1,2,7) f1 that unfolding sys_close_def Let_def s1_def [symmetric] s2 by (simp add: g dir_close_def)
  have close: "sys_close fd s = Inr (if flags ?e = 0 then -1 else 0, t)"
    using close0 close1 s1t by (cases "flags ?e = 0") simp_all
  have "sys_close fd t = Inr (-1, t)"
  proof -
    have "upd_fd fd (\<lambda>e. e\<lparr>fd_operations := dir_operations\<rparr>) (cur_pcb t) = cur_pcb t"
    proof -
      have "e\<lparr>fd_operations := dir_operations\<rparr> = e" if "fd_operations e = dir_operations" for e :: fd_entry
        using that by (cases e) simp
      moreover have "fd_operations (fd_arr (cur_pcb t) ! nat fd) = dir_operations"
        using fdt lt assms(3) by (simp add: d_def)
      ultimately have "(fd_arr (cur_pcb t) ! nat fd)\<lparr>fd_operations := dir_operations\<rparr> = fd_arr (cur_pcb t) ! nat fd" by blast
      then show ?thesis by (simp add: upd_fd_def)
    qed
    then have "upd_pcb (get_pcb t) (upd_fd fd (\<lambda>e. e\<lparr>fd_operations := dir_operations\<rparr>)) t = t"
      by (simp add: upd_pcb_def)
    then show ?thesis using assms(1,2,3) fdt lt by (simp add: sys_close_def Let_def d_def)
  qed
  moreover have "flags (fd_arr (cur_pcb t) ! nat fd) = 0" "fd_operations (fd_arr (cur_pcb t) ! nat fd) = dir_operations"
    using fdt lt assms(3) by (simp_all add: d_def)
  moreover from this have "sys_read h es fd (Some buf) n t = Inr (-1, Some buf, t, es)" "sys_write dev fd (Some buf) n t = Inr (-1, t)"
    using assms by (simp_all add: sys_read_def sys_write_def Let_def g dir_write_def)
  moreover have "\<forall>j. j \<noteq> nat fd \<longrightarrow> fd_arr (cur_pcb t) ! j = fd_arr (cur_pcb s) ! j" by (simp add: fdt)
  moreover have "sys_read h es fd (Some buf) n s = Inl Null_pointer \<and> sys_write dev fd (Some buf) n s = Inl Null_pointer"
    if "?e = clear_fd"
    using that assms by (simp add: sys_read_def sys_write_def clear_fd_def)
  ultimately show ?thesis using close by blast
qed

theorem descriptor_lifecycle_witness:
  "sys_read (\<lambda>_. Some) ([] :: unit list) 3 (Some [0]) 1 (sys_init demo_kernel) = Inl Null_pointer"
proof -
  have "write_function (ops_table (sys_init demo_kernel) dir_operations) = Dir_fn" by (simp add: sys_init_def)
  then show ?thesis
    using descriptor_lifecycle [of 3 "sys_init demo_kernel" 1 "\<lambda>_. Some" "[] :: unit list" "[0]" "\<lambda>_ _. 0"] by simp
qed

section \<open>The video page\<close>

text \<open>Addresses under entry 32 of a directory whose entry leads to a table with one page, the text screen's.\<close>

lemma translate_video_page:
  assumes "vt AND 0xFFF = 0" "vt \<noteq> pt" and dir: "page_dir p ! 32 = vt OR 7"
    and pte: "\<And>j. j < 1024 \<Longrightarrow> entry_ok u (video_table p ! j) \<longleftrightarrow> j = 0" "video_table p ! 0 = 0xB8007"
    and at: "unat a div 0x400000 = 32"
  shows "translate pt vt p u a = (if a < 0x8001000 then Some (0xB8000 + (a - 0x8000000)) else None)"
proof -
  let ?A = "unat a"
  have d: "unat (a div 0x400000) = 32" and ti: "unat (a div 4096 mod 1024) = ?A div 4096 mod 1024"
    using at by (simp_all add: unat_div unat_mod)
  have tab: "table_at pt vt p vt = Some (video_table p)" using assms(2) by (simp add: table_at_def)
  have j: "?A div 4096 mod 1024 < 1024" by simp
  define R where "R = ?A mod 0x400000"
  have A: "?A = 0x8000000 + R" "R < 0x400000"
    using at div_mult_mod_eq [of ?A "0x400000"] by (simp_all add: R_def)
  have "(0x8000000 + R) div 4096 = 0x8000 + R div 4096" by simp
  moreover have "R div 4096 < 1024" using A(2) by (simp add: div_less_iff_less_mult)
  moreover have "(0x8000 + x) mod 1024 = x" if "x < 1024" for x :: nat using that by (simp add: mod_if)
  ultimately have m: "?A div 4096 mod 1024 = R div 4096" "?A div 4096 = 0x8000 + R div 4096" by (simp_all add: A(1))
  have r: "a < 0x8001000 \<longleftrightarrow> ?A div 4096 mod 1024 = 0"
    unfolding m(1) using A by (simp only: unat_range) (simp add: div_eq_0_iff)
  have off: "a mod 4096 = a - 0x8000000" if "?A div 4096 mod 1024 = 0"
  proof -
    have "?A div 4096 = 0x8000" using that m by simp
    then have "0x8000000 + a mod 4096 = a" by (intro frame_plus_offset [where k = "0x8000"]) simp_all
    then show ?thesis by (metis add_diff_cancel_left')
  qed
  have "translate pt vt p u a = (if ?A div 4096 mod 1024 = 0 then Some (0xB8000 + a mod 4096) else None)"
    using pte(1) [OF j] pte(2) aligned_or_7 [OF assms(1)] tab
    by (simp add: translate_def Let_def d ti dir entry_ok_def [of u "vt OR 7"])
  then show ?thesis using r off by simp
qed

text \<open>What a user access reaches when that entry stands in the directory \<open>page_fill\<close> built.\<close>

lemma translate_video:
  assumes "pt AND 0xFFF = 0" "vt AND 0xFFF = 0" "vt \<noteq> pt"
    and dir: "page_dir p = (page_dir (page_fill pt q))[32 := vt OR 7]"
    and pte: "\<And>j. j < 1024 \<Longrightarrow> entry_ok True (video_table p ! j) \<longleftrightarrow> j = 0" "video_table p ! 0 = 0xB8007"
  shows "translate pt vt p True a =
    (if 0x8000000 \<le> a \<and> a < 0x8001000 then Some (0xB8000 + (a - 0x8000000)) else None)"
proof -
  let ?A = "unat a"
  have d: "unat (a div 0x400000) = ?A div 0x400000" by (simp add: unat_div)
  have dl: "?A div 0x400000 < 1024" using unat_pde_index [of a] by (simp add: d)
  have len: "length (page_dir (page_fill pt q)) = 1024" by (simp add: page_fill_dir)
  show ?thesis
  proof (cases "?A div 0x400000 = 32")
    case True
    then have "0x8000000 \<le> a" by (simp only: unat_range; simp; linarith)
    moreover have "page_dir p ! 32 = vt OR 7" using len by (simp add: dir)
    ultimately show ?thesis using translate_video_page [OF assms(2,3) _ pte True] by simp
  next
    case False
    then have "page_dir p ! (?A div 0x400000) = page_dir (page_fill pt q) ! (?A div 0x400000)" by (simp add: dir)
    then have "\<not> entry_ok True (page_dir p ! (?A div 0x400000))" using user_page_fill [OF assms(1) dl] by simp
    moreover have "\<not> (0x8000000 \<le> a \<and> a < 0x8001000)"
      using False by (simp only: unat_range; simp; linarith)
    ultimately show ?thesis by (auto simp: translate_def Let_def d)
  qed
qed

text \<open>The tables after a \<open>sys_vidmap\<close> that passed the checks, and the store through \<open>screen_start\<close> under them.\<close>

lemma video_tables:
  assumes "length (video_table pg) = 1024"
  defines "t \<equiv> pg\<lparr>video_table := (fold (\<lambda>i t. t[i := of_nat i * (EIGHTKB div 2) OR 6]) [0..<1024] (video_table pg))
      [0 := 0xB8000 OR 7]\<rparr>"
  shows "j < 1024 \<Longrightarrow> entry_ok u (video_table t ! j) \<longleftrightarrow> j = 0" "video_table t ! 0 = 0xB8007"
proof -
  let ?f = "\<lambda>i :: nat. of_nat i * (EIGHTKB div 2) OR (6 :: u32)"
  define vt1 where "vt1 = fold (\<lambda>i t. t[i := ?f i]) [0..<1024] (video_table pg)"
  have vle: "1024 \<le> length (video_table pg)" "drop 1024 (video_table pg) = []" using assms(1) by simp_all
  have v: "vt1 = map ?f [0..<1024]"
    using fold_list_array [OF vle(1), of ?f] unfolding vt1_def by (simp only: vle(2) append_Nil2)
  have vtab: "video_table t = vt1[0 := 0xB8007]" by (simp add: t_def vt1_def)
  have "length vt1 = 1024" by (simp only: v length_map length_upt)
  then show z: "video_table t ! 0 = 0xB8007" by (simp add: vtab)
  show "entry_ok u (video_table t ! j) \<longleftrightarrow> j = 0" if "j < 1024"
  proof -
    have "\<not> bit (?f j) 0" unfolding bit_or_iff by (simp add: bit_0)
    moreover have "vt1 ! j = ?f j" using that by (simp only: v nth_map length_upt nth_upt add_0 diff_zero)
    moreover have "entry_ok u (0xB8007 :: u32)" unfolding entry_ok_def by (cases u) code_simp+
    ultimately show ?thesis using z by (cases "j = 0") (simp_all add: vtab entry_ok_def)
  qed
qed

lemma video_store:
  assumes "vt AND 0xFFF = 0" "vt \<noteq> pt" and "page_dir pg = (page_dir (page_fill pt q))[32 := vt OR 7]"
    and pte: "\<And>j. j < 1024 \<Longrightarrow> entry_ok u (video_table pg ! j) \<longleftrightarrow> j = 0" "video_table pg ! 0 = 0xB8007"
    and "0x8000000 \<le> p" "p \<le> 0x8400000"
  shows "p \<le> 0x8000FFC \<Longrightarrow> translate pt vt pg u p = Some (0xB8000 + (p - 0x8000000)) \<and>
      translate pt vt pg u (p + 3) = Some (0xB8000 + (p + 3 - 0x8000000))"
    and "0x8000FFC < p \<Longrightarrow> translate pt vt pg u (p + 3) = None"
proof -
  have dir: "page_dir pg ! 32 = vt OR 7" "page_dir pg ! 33 = 0" by (simp_all add: assms(3) page_fill_dir)
  have p: "0x8000000 \<le> unat p" "unat p \<le> 0x8400000" using assms(6,7) by (simp_all add: word_le_nat_alt)
  then have p3: "unat (p + 3) = unat p + 3" by (simp add: unat_word_ariths)
  note page = translate_video_page [OF assms(1,2) dir(1) pte]
  have lim: "p \<le> 0x8000FFC \<longleftrightarrow> unat p \<le> 0x8000FFC" "0x8000FFC < p \<longleftrightarrow> 0x8000FFC < unat p"
    by (simp_all add: word_le_nat_alt word_less_nat_alt)
  show "translate pt vt pg u p = Some (0xB8000 + (p - 0x8000000)) \<and>
      translate pt vt pg u (p + 3) = Some (0xB8000 + (p + 3 - 0x8000000))" if "p \<le> 0x8000FFC"
  proof -
    have le: "unat p \<le> 0x8000FFC" using that lim by simp
    have "unat p div 0x400000 = 32" "unat (p + 3) div 0x400000 = 32" using le p p3 by (simp_all; linarith)+
    moreover have "p < 0x8001000" "p + 3 < 0x8001000" using le p3 by (simp_all add: word_less_nat_alt)
    ultimately show ?thesis using page by simp
  qed
  show "translate pt vt pg u (p + 3) = None" if "0x8000FFC < p"
  proof (cases "unat (p + 3) div 0x400000 = 32")
    case True
    moreover have "\<not> p + 3 < 0x8001000" using that lim p3 by (simp add: word_less_nat_alt)
    ultimately show ?thesis using page by simp
  next
    case False
    then have "unat (p + 3) div 0x400000 = 33" using p p3 by linarith
    then have "unat ((p + 3) div 0x400000) = 33" by (simp add: unat_div)
    then show ?thesis by (simp add: translate_def dir bits_0)
  qed
qed



end
