(* ===== verification/User_Input.thy ===== *)
theory User_Input
  imports Waiting Call_Properties
begin

text \<open>
  What is typed at the keyboard while programs run: lines of character keys, each ended with Enter, that arrive as
  interrupts while a program waits in \<open>terminal_read\<close>. The keys are echoed on the console by the
  interrupt handler.
\<close>

section \<open>The console of a machine\<close>

lemma truncate_fields [simp]:
  "ports (console.truncate s) = ports s" "vid (console.truncate s) = vid s"
  "screen_x (console.truncate s) = screen_x s" "screen_y (console.truncate s) = screen_y s"
  by (simp_all add: console.defs)

lemma truncate_updates [simp]:
  "console.truncate (s\<lparr>ports := a\<rparr>) = (console.truncate s)\<lparr>ports := a\<rparr>"
  "console.truncate (s\<lparr>vid := v\<rparr>) = (console.truncate s)\<lparr>vid := v\<rparr>"
  "console.truncate (s\<lparr>screen_x := x\<rparr>) = (console.truncate s)\<lparr>screen_x := x\<rparr>"
  "console.truncate (s\<lparr>screen_y := y\<rparr>) = (console.truncate s)\<lparr>screen_y := y\<rparr>"
  by (simp_all add: console.defs)

lemma truncate_update_cursor [simp]: "console.truncate (update_cursor x y s) = update_cursor x y (console.truncate s)"
  by (simp add: update_cursor_def outb_def Let_def)

lemma truncate_scroll_up [simp]: "console.truncate (scroll_up s) = scroll_up (console.truncate s)"
  by (simp add: scroll_up_def Let_def)

lemma truncate_Let: "(\<And>s. console.truncate (f s) = g (console.truncate s)) \<Longrightarrow> console.truncate e = e' \<Longrightarrow>
    console.truncate (Let e f) = Let e' g"
  by simp

lemma truncate_if: "b = b' \<Longrightarrow> console.truncate x = x' \<Longrightarrow> console.truncate y = y' \<Longrightarrow>
    console.truncate (if b then x else y) = (if b' then x' else y')"
  by simp

lemma truncate_putc: "console.truncate (putc b s) = putc b (console.truncate s)"
  unfolding putc_def by (intro truncate_Let truncate_if) simp_all

lemma truncate_fold_putc: "console.truncate (fold putc bs s) = fold putc bs (console.truncate s)"
  by (induction bs arbitrary: s) (simp_all add: truncate_putc)

lemma truncate_input [simp]:
  "console.truncate (snd (inb dev p s)) = snd (inb dev p (console.truncate s))"
  "console.truncate (send_eoi irq s) = send_eoi irq (console.truncate s)"
  by (simp_all add: inb_def send_eoi_def outb_def)

lemma truncate_line [simp]:
  "console.truncate (s\<lparr>keyboard_buffer := b\<rparr>) = console.truncate s" "console.truncate (s\<lparr>end_buf_idx := i\<rparr>) = console.truncate s"
  "console.truncate (s\<lparr>enter_pressed := j\<rparr>) = console.truncate s"
  by (simp_all add: console.defs)

section \<open>Typed lines\<close>

text \<open>What the handler shows for a character key and for Enter.\<close>

definition key_ack :: "console \<Rightarrow> console" where
  "key_ack v = snd (inb (\<lambda>_ _. 0) PS2_DATA_PORT (send_eoi KEYBOARD_IRQ v))"

definition echo_char :: "u8 \<Rightarrow> console \<Rightarrow> console" where
  "echo_char c v =
     (let v = key_ack v
      in putc c (if screen_x v = NUM_COLS - 1 \<and> screen_y v = NUM_ROWS - 1 then scroll_up v
                 else update_cursor (screen_x v + 1) (screen_y v) v))"

definition echo_enter :: "console \<Rightarrow> console" where
  "echo_enter v =
     (let v = key_ack v
      in if screen_y v = NUM_ROWS - 1 then let v = scroll_up v in update_cursor (screen_x v) (screen_y v) v
         else update_cursor 0 (screen_y v + 1) (v\<lparr>screen_y := screen_y v + 1, screen_x := 0\<rparr>))"

definition echo_line :: "u8 list \<Rightarrow> console \<Rightarrow> console" where
  "echo_line l v = echo_enter (fold echo_char l v)"

text \<open>The interrupts still to come: anything, the lines that will be typed, each with the keys that give it, or a number of clock ticks.\<close>

datatype input = Anything | Lines "(u8 list \<times> u8 list) list" | Ticks nat

definition line_keys :: "u8 list \<Rightarrow> irq list" where
  "line_keys ks = map Key ks @ [Key 0x1C]"

definition typed :: "(u8 list \<times> u8 list) list \<Rightarrow> irq list" where
  "typed kls = concat (map (\<lambda>(ks, l). line_keys ks) kls)"

definition pending :: "input \<Rightarrow> irq list \<times> kernel \<Rightarrow> bool" where
  "pending I st \<longleftrightarrow>
     (case I of
        Anything \<Rightarrow> True
      | Ticks n \<Rightarrow> fst st = replicate n Tick
      | Lines kls \<Rightarrow> fst st = typed kls \<and> typing [] (shift_on (snd st)) (caps_lock_on (snd st)) (snd st) \<and> enter_pressed (snd st) = 0
          \<and> list_all (\<lambda>(ks, l). list_all2 (key_gives (snd st)) ks l \<and> length l \<le> 125) kls)"

lemma pending_Anything [simp]: "pending Anything st"
  by (simp add: pending_def)

lemma irq_handler_char_key:
  assumes "is_char_key (ucast k)"
  shows "irq_handler dev hb eb junk (Key k) s =
    Some (key_edit junk (ucast k) (snd (inb (\<lambda>_ _. k) PS2_DATA_PORT (send_eoi KEYBOARD_IRQ s))))"
  using keyboard_interrupt_plain [OF assms, of hb eb junk s] by (simp add: irq_handler_def)

lemma inb_state: "snd (inb dev p s) = snd (inb dev' p s)"
  by (simp add: inb_def)

lemma truncate_key_char_in:
  assumes "end_buf_idx s < 125"
  shows "console.truncate (key_char_in c s) = putc c (if screen_x (console.truncate s) = NUM_COLS - 1 \<and> screen_y (console.truncate s) = NUM_ROWS - 1
    then scroll_up (console.truncate s) else update_cursor (screen_x (console.truncate s) + 1) (screen_y (console.truncate s)) (console.truncate s))"
  using assms by (simp add: key_char_in_def Let_def truncate_putc)

lemma key_char_step:
  fixes s :: kernel
  assumes "key_gives s k c" and "typing l (shift_on s) (caps_lock_on s) s" and "length l < 125" and "enter_pressed s = 0"
    and h: "irq_handler dev hb eb junk (Key k) s = Some t"
  shows "typing (l @ [c]) (shift_on s) (caps_lock_on s) t" "enter_pressed t = 0"
    "console.truncate t = echo_char c (console.truncate s)" "dev_only s t"
proof -
  let ?s1 = "snd (inb (\<lambda>_ _. k) PS2_DATA_PORT (send_eoi KEYBOARD_IRQ s))"
  have ty1: "typing l (shift_on s) (caps_lock_on s) ?s1" using assms(2) by simp
  then have fl: "shift_on ?s1 = shift_on s" "caps_lock_on ?s1 = caps_lock_on s" "ctrl_on ?s1 = 0" by (simp_all add: typing_def)
  have kg: "is_char_key (ucast k)" "ucast k \<noteq> SCAN_ENTER" "ucast k \<noteq> SCAN_BACKSPACE" "scan_code_to_char (ucast k) ?s1 = Some c"
    using assms(1) key_gives_cong [OF fl(1,2), of k c] by (simp_all add: key_gives_def)
  have te: "t = key_edit junk (ucast k) ?s1" using h irq_handler_char_key [OF kg(1), of dev hb eb junk s] by simp
  then have t: "t = key_char_in c ?s1" using kg fl(3) by (simp add: key_edit_def)
  have e: "end_buf_idx ?s1 < 125"
  proof -
    have "length (line ?s1) = length l" using ty1 by (simp add: typing_def)
    moreover have "length (keyboard_buffer ?s1) = 128" "0 \<le> end_buf_idx ?s1" "end_buf_idx ?s1 < 128"
      using ty1 by (simp_all add: typing_def line_inv_def idx_ok_def)
    ultimately show ?thesis using assms(3) by (simp add: line_def)
  qed
  show "typing (l @ [c]) (shift_on s) (caps_lock_on s) t"
    using typing_char [OF ty1 kg] assms(3) fl(3) kg unfolding t by (simp add: key_edit_def)
  show "enter_pressed t = 0" unfolding t using assms(4) e by (simp add: key_char_in_def Let_def inb_def send_eoi_def outb_def)
  have ack: "console.truncate ?s1 = key_ack (console.truncate s)"
    unfolding key_ack_def by (simp add: inb_state [of "\<lambda>_ _. k" _ _ "\<lambda>_ _. 0"])
  show "console.truncate t = echo_char c (console.truncate s)"
    unfolding t echo_char_def Let_def ack [symmetric] using e by (rule truncate_key_char_in)
  show "dev_only s t" unfolding te by (simp add: dev_only_def)
qed

lemma key_enter_step:
  fixes s :: kernel
  assumes "typing l (shift_on s) (caps_lock_on s) s" and "length l \<le> 125" and "0 \<notin> set l" and h: "irq_handler dev hb eb junk (Key 0x1C) s = Some t"
  shows "enter_pressed t \<noteq> 0" "cstr (keyboard_buffer t) = l @ [10]" "0 \<in> set (keyboard_buffer t)" "line_inv t"
    "ctrl_on t = 0" "shift_on t = shift_on s" "caps_lock_on t = caps_lock_on s"
    "console.truncate t = echo_enter (console.truncate s)" "dev_only s t"
proof -
  let ?s1 = "snd (inb (\<lambda>_ _. 0x1C) PS2_DATA_PORT (send_eoi KEYBOARD_IRQ s))"
  have uc: "ucast (0x1C :: u8) = SCAN_ENTER" by simp
  have ty1: "typing l (shift_on s) (caps_lock_on s) ?s1" using assms(1) by simp
  have te: "t = key_edit junk SCAN_ENTER ?s1"
    using h irq_handler_char_key [of "0x1C" dev hb eb junk s, unfolded uc, OF is_char_key_enter] by simp
  then have t: "t = key_enter ?s1" using ty1 by (simp add: typing_def key_edit_def)
  show "enter_pressed t \<noteq> 0" unfolding t by simp
  show cs: "cstr (keyboard_buffer t) = l @ [10]"
    using ty1 assms(2,3) cstr_key_enter [of ?s1] unfolding t by (simp add: typing_def)
  show li: "line_inv t" unfolding t using ty1 by (rule typing_key_enter)
  have len: "length (keyboard_buffer t) = 128" using li by (simp add: line_inv_def)
  show "0 \<in> set (keyboard_buffer t)"
  proof (rule ccontr)
    assume "0 \<notin> set (keyboard_buffer t)"
    then have "length (l @ [10]) = 128" using cstr_no_nul cs len by metis
    then show False using assms(2) by simp
  qed
  show "ctrl_on t = 0" "shift_on t = shift_on s" "caps_lock_on t = caps_lock_on s"
    unfolding t using ty1 by (simp_all add: typing_def key_enter_def Let_def)
  have ack: "console.truncate ?s1 = key_ack (console.truncate s)"
    unfolding key_ack_def by (simp add: inb_state [of "\<lambda>_ _. 0x1C" _ _ "\<lambda>_ _. 0"])
  have "console.truncate (key_enter u) = (let v = console.truncate u in
      if screen_y v = NUM_ROWS - 1 then let v = scroll_up v in update_cursor (screen_x v) (screen_y v) v
      else update_cursor 0 (screen_y v + 1) (v\<lparr>screen_y := screen_y v + 1, screen_x := 0\<rparr>))" for u :: kernel
    by (simp add: key_enter_def Let_def)
  then show "console.truncate t = echo_enter (console.truncate s)" unfolding t echo_enter_def ack [symmetric] by (simp only: Let_def)
  show "dev_only s t" unfolding te by (simp add: dev_only_def)
qed

lemma key_chars_events:
  fixes s :: kernel
  assumes "list_all2 (key_gives s) ks cs" and "typing l (shift_on s) (caps_lock_on s) s" and "length (l @ cs) \<le> 125" and "enter_pressed s = 0"
  shows "\<exists>u. run_events (irq_handler dev hb eb junk) (map Key ks) s = Some u
    \<and> typing (l @ cs) (shift_on s) (caps_lock_on s) u
    \<and> (\<forall>j\<le>length ks. \<forall>v. run_events (irq_handler dev hb eb junk) (take j (map Key ks)) s = Some v \<longrightarrow> enter_pressed v = 0)
    \<and> console.truncate u = fold echo_char cs (console.truncate s)
    \<and> dev_only s u"
  using assms
proof (induction ks arbitrary: cs l s)
  case Nil
  then show ?case by simp
next
  case (Cons k ks ds)
  let ?h = "irq_handler dev hb eb junk"
  obtain c cs where ds: "ds = c # cs" and kc: "key_gives s k c" and kcs: "list_all2 (key_gives s) ks cs"
    using Cons.prems(1) by (auto simp: list_all2_Cons1)
  obtain t where ht: "?h (Key k) s = Some t" using irq_handler_char_key [of k dev hb eb junk s] kc by (simp add: key_gives_def)
  have "length l < 125" using Cons.prems(3) by (simp add: ds)
  note t = key_char_step [OF kc Cons.prems(2) this Cons.prems(4) ht]
  have fl: "shift_on t = shift_on s" "caps_lock_on t = caps_lock_on s" using t(1) by (simp_all add: typing_def)
  have "list_all2 (key_gives t) ks cs" using kcs key_gives_cong [OF fl] by (simp add: list_all2_mono)
  moreover have "typing (l @ [c]) (shift_on t) (caps_lock_on t) t" "length ((l @ [c]) @ cs) \<le> 125"
    using t(1) fl Cons.prems(3) by (simp_all add: ds)
  ultimately obtain u where u: "run_events ?h (map Key ks) t = Some u" "typing ((l @ [c]) @ cs) (shift_on t) (caps_lock_on t) u"
    "\<forall>j\<le>length ks. \<forall>v. run_events ?h (take j (map Key ks)) t = Some v \<longrightarrow> enter_pressed v = 0"
    "console.truncate u = fold echo_char cs (console.truncate t)" "dev_only t u"
    using Cons.IH [of t cs "l @ [c]"] t(2) by blast
  have "enter_pressed v = 0" if "j \<le> length (k # ks)" "run_events ?h (take j (map Key (k # ks))) s = Some v" for j v
    using that u(3) Cons.prems(4) ht by (cases j) auto
  moreover have "dev_only s u" using u(5) t(4) dev_only_trans by blast
  ultimately show ?case using u(1,2,4) t(3) fl ht by (intro exI [of _ u] conjI allI impI) (simp_all add: ds)
qed

lemma terminal_read_pending:
  fixes s :: kernel
  assumes "pending (Lines ((ks, l) # kls)) (es, s)" and "length l < nat n" and "nat n \<le> length buf"
  shows "\<exists>t. terminal_read (irq_handler dev hb eb junk) es buf n s =
      Some (int (length l + 1), l @ [10] @ drop (Suc (length l)) buf, t, typed kls)
    \<and> pending (Lines kls) (typed kls, t) \<and> console.truncate t = echo_line l (console.truncate s) \<and> dev_only s t"
proof -
  let ?h = "irq_handler dev hb eb junk"
  have es: "es = map Key ks @ Key 0x1C # typed kls" and ty: "typing [] (shift_on s) (caps_lock_on s) s" and ep: "enter_pressed s = 0"
    and kl: "list_all2 (key_gives s) ks l" "length l \<le> 125"
    and more: "list_all (\<lambda>(ks, l). list_all2 (key_gives s) ks l \<and> length l \<le> 125) kls"
    using assms(1) by (simp_all add: pending_def typed_def line_keys_def)
  have z: "0 \<notin> set l" using kl(1) by (induction rule: list_all2_induct) (auto simp: key_gives_def)
  obtain u where u: "run_events ?h (map Key ks) s = Some u" "typing l (shift_on s) (caps_lock_on s) u"
    "\<forall>j\<le>length ks. \<forall>v. run_events ?h (take j (map Key ks)) s = Some v \<longrightarrow> enter_pressed v = 0"
    "console.truncate u = fold echo_char l (console.truncate s)" "dev_only s u"
    using key_chars_events [OF kl(1) ty, of dev hb eb junk] kl(2) ep by auto
  have fu: "shift_on u = shift_on s" "caps_lock_on u = caps_lock_on s" using u(2) by (simp_all add: typing_def)
  have tyu: "typing l (shift_on u) (caps_lock_on u) u" using u(2) fu by simp
  obtain w where hw: "?h (Key 0x1C) u = Some w"
    using irq_handler_char_key [of "0x1C" dev hb eb junk u] is_char_key_enter by auto
  note w = key_enter_step [OF tyu kl(2) z hw]
  have "busy_wait (\<lambda>s. enter_pressed s = 0) ?h es s = busy_wait (\<lambda>s. enter_pressed s = 0) ?h (Key 0x1C # typed kls) u"
    unfolding es using busy_wait_skip [of "map Key ks" ?h s "\<lambda>s. enter_pressed s = 0" "Key 0x1C # typed kls"] u(1,3) by simp
  also have "\<dots> = Some (w, typed kls)"
  proof -
    have "run_events ?h (take (length ks) (map Key ks)) s = Some u" using u(1) by simp
    then have "enter_pressed u = 0" using u(3) by blast
    then show ?thesis using w(1) hw by (simp add: busy_wait_done)
  qed
  finally have bw: "busy_wait (\<lambda>s. enter_pressed s = 0) ?h es s = busy_wait (\<lambda>s. enter_pressed s = 0) ?h (typed kls) w"
    using w(1) by (simp add: busy_wait_done)
  define t where "t = w\<lparr>enter_pressed := 0, keyboard_buffer := clear_keyboard_buffer (keyboard_buffer w), end_buf_idx := 0\<rparr>"
  have "terminal_read ?h es buf n s = terminal_read ?h (typed kls) buf n w" unfolding terminal_read_def bw ..
  also have "\<dots> = Some (int (length l + 1), l @ [10] @ drop (Suc (length l)) buf, t, typed kls)"
  proof -
    have m: "min (nat n) (length (l @ [10 :: u8])) = Suc (length l)" using assms(2) by simp
    have "Suc (length l) \<le> length buf" using assms(2,3) by linarith
    then show ?thesis
      using terminal_read_ready [OF w(1), of n buf ?h "typed kls", unfolded w(2) m] w(3) by (simp add: Let_def t_def)
  qed
  finally have rd: "terminal_read ?h es buf n s = Some (int (length l + 1), l @ [10] @ drop (Suc (length l)) buf, t, typed kls)" .
  have ft: "shift_on t = shift_on s" "caps_lock_on t = caps_lock_on s" "ctrl_on t = 0" "enter_pressed t = 0"
    using w(5-7) fu by (simp_all add: t_def)
  have "typing [] (shift_on t) (caps_lock_on t) t"
    using term_ready_after_read [OF w(4)] ft(3) unfolding typing_def t_def by blast
  moreover have "list_all (\<lambda>(ks, l). list_all2 (key_gives t) ks l \<and> length l \<le> 125) kls"
  proof -
    have "key_gives t = key_gives s" by (intro ext key_gives_cong ft(1,2))
    then show ?thesis using more by simp
  qed
  ultimately have "pending (Lines kls) (typed kls, t)" using ft(4) by (simp add: pending_def)
  moreover have "console.truncate t = echo_line l (console.truncate s)" using w(8) u(4) by (simp add: t_def echo_line_def)
  moreover have "dev_only s t" using dev_only_trans [OF u(5) w(9)] by (simp add: t_def dev_only_def)
  ultimately show ?thesis using rd by blast
qed

text \<open>Nothing but the terminal's state counts for the pending input.\<close>

lemma truncate_terminal:
  assumes "terminal.truncate t = terminal.truncate s"
  shows "console.truncate t = console.truncate s" "shift_on t = shift_on s" "caps_lock_on t = caps_lock_on s" "enter_pressed t = enter_pressed s"
    "ctrl_on t = ctrl_on s" "keyboard_buffer t = keyboard_buffer s" "end_buf_idx t = end_buf_idx s" "screen_x t = screen_x s" "screen_y t = screen_y s"
  using assms by (cases s, cases t, simp add: terminal.defs console.defs)+

lemma pending_cong:
  assumes "terminal.truncate t = terminal.truncate s"
  shows "pending I (es, t) = pending I (es, s)"
proof -
  note e = truncate_terminal [OF assms]
  have k: "key_gives t = key_gives s" by (intro ext key_gives_cong e(2,3))
  have "typing l sh cl t = typing l sh cl s" for l sh cl
    by (simp add: typing_def line_inv_def line_clear_behind_def line_def e)
  then show ?thesis by (simp add: pending_def e k split: input.split)
qed

lemma pending_print: "pending I (es, s) \<Longrightarrow> pending I (es, fold putc bs s)"
proof (induction bs arbitrary: s)
  case (Cons b bs)
  have ty: "typing l sh cl (putc b s)" if "typing l sh cl s" for l sh cl
    using that line_inv_putc by (auto simp: typing_def line_clear_behind_def line_def)
  have "key_gives (putc b s) = key_gives s" by (intro ext key_gives_cong) simp_all
  then have "pending I (es, putc b s)" using Cons.prems ty by (auto simp: pending_def split: input.splits)
  then show ?case using Cons.IH by simp
qed simp

end
