(* ===== verification/User_Calls.thy ===== *)
theory User_Calls
  imports User_Support User_Input
begin

text \<open>
  The system call library of the user programs (\<^verbatim>\<open>src/syscalls/ece391syscall.S\<close>,
  \<^verbatim>\<open>ece391syscall.h\<close>) and its dispatch in the kernel (\<^verbatim>\<open>system_handler.S\<close>).

  A program is a function of the calls it makes, the record \<open>syscalls\<close>, and of a state it
  passes from call to call; \<^const>\<open>None\<close> means that it faults, leaves one of its buffers, or waits for ever.
  \<open>kernel_calls\<close> are the calls of the modelled kernel: their state is the kernel's with the device
  interrupts that are still to come.

  The locale \<open>user_system\<close> is what the programs rely on of the calls; it is interpreted
  on \<open>kernel_calls\<close>.
\<close>

section \<open>The dispatch\<close>

datatype sys_fn =
    Dummy_call | Sys_halt | Sys_execute | Sys_read | Sys_write | Sys_open | Sys_close | Sys_getargs
  | Sys_vidmap | Sys_set_handler | Sys_sigreturn

definition jump_table :: "sys_fn list" where
  "jump_table = [Dummy_call, Sys_halt, Sys_execute, Sys_read, Sys_write, Sys_open, Sys_close, Sys_getargs,
     Sys_vidmap, Sys_set_handler, Sys_sigreturn]"

text \<open>The range check of \<open>system_call_handler\<close>; \<^const>\<open>None\<close> is the branch that returns -1.\<close>

definition system_call_handler :: "int \<Rightarrow> sys_fn option" where
  "system_call_handler eax = (if eax < 1 then None else if eax > 10 then None else Some (jump_table ! nat eax))"

section \<open>The calls a program makes\<close>

record 's syscalls =
  ece391_execute :: "u8 list \<Rightarrow> 's \<Rightarrow> (int \<times> 's) option"
  ece391_read :: "int \<Rightarrow> u8 list \<Rightarrow> int \<Rightarrow> 's \<Rightarrow> (int \<times> u8 list \<times> 's) option"
  ece391_write :: "int \<Rightarrow> u8 list \<Rightarrow> int \<Rightarrow> 's \<Rightarrow> (int \<times> 's) option"
  ece391_open :: "u8 list \<Rightarrow> 's \<Rightarrow> (int \<times> 's) option"
  ece391_close :: "int \<Rightarrow> 's \<Rightarrow> (int \<times> 's) option"
  ece391_getargs :: "u8 list \<Rightarrow> int \<Rightarrow> 's \<Rightarrow> (int \<times> u8 list \<times> 's) option"
  ece391_vidmap :: "u32 \<Rightarrow> 's \<Rightarrow> (int \<times> 's) option"
  int80 :: "int \<Rightarrow> 's \<Rightarrow> (int \<times> 's) option"

text \<open>String literals, without and with a newline, and \<open>ece391_fdputs\<close>.\<close>

definition lit :: "string \<Rightarrow> u8 list" where "lit s = bytes s @ [0]"
definition lit_ln :: "string \<Rightarrow> u8 list" where "lit_ln s = bytes s @ [10, 0]"

definition ece391_fdputs :: "'s syscalls \<Rightarrow> int \<Rightarrow> u8 list \<Rightarrow> 's \<Rightarrow> 's option" where
  "ece391_fdputs c fd str s =
     do {
       n \<leftarrow> ece391_strlen str;
       (_, s) \<leftarrow> ece391_write c fd str (int n) s;
       Some s
     }"

section \<open>The calls of the kernel\<close>

text \<open>
  What surrounds the modelled code: the device answers, the uninitialised buffers of \<open>sys_execute\<close>,
  the addresses of \<open>page_table\<close> and \<open>video_table\<close>, how deep the kernel stack is and what the base pointer is when
  a call runs, what the machine code at an entry point does, and what a call made
  with whatever the argument registers hold does.
\<close>

record environment =
  env_dev :: device
  env_header :: "u8 list"
  env_entry :: "u8 list"
  env_junk :: u8
  env_page_table :: u32
  env_video_table :: u32
  env_depth :: u32
  env_ebp :: u32
  env_run :: "u32 \<Rightarrow> irq list \<times> kernel \<Rightarrow> (int \<times> irq list \<times> kernel) option"
  env_raw :: "sys_fn \<Rightarrow> irq list \<times> kernel \<Rightarrow> (int \<times> irq list \<times> kernel) option"

definition in_call :: "environment \<Rightarrow> kernel \<Rightarrow> kernel" where
  "in_call E s = enter_kernel (tss_esp0 s - env_depth E) (env_ebp E) s"

definition call_result :: "fault + 'r \<Rightarrow> 'r option" where
  "call_result r = (case r of Inl _ \<Rightarrow> None | Inr x \<Rightarrow> Some x)"

text \<open>
  A program that was started runs until its \<open>main\<close> returns; \<open>_start\<close> then calls \<open>ece391_halt\<close> with
  the value, of which the kernel takes the low byte.
\<close>

definition call_execute :: "environment \<Rightarrow> u8 list \<Rightarrow> irq list \<times> kernel \<Rightarrow> (int \<times> irq list \<times> kernel) option" where
  "call_execute E command st =
     do {
       let (es, s) = st;
       (r, s) \<leftarrow> call_result (sys_execute (env_header E) (env_entry E) (Some command) (in_call E s));
       case r of
         Exec_ret r \<Rightarrow> Some (r, es, s)
       | Exec_enter entry_pt \<Rightarrow>
         do {
           (status, es, s) \<leftarrow> env_run E entry_pt (es, s);
           (r, s) \<leftarrow> call_result (sys_halt (env_header E) (env_entry E) (word_of_int status) (in_call E s));
           case r of Halt_resume r \<Rightarrow> Some (r, es, s) | _ \<Rightarrow> None
         }
     }"

definition kernel_calls :: "environment \<Rightarrow> (irq list \<times> kernel) syscalls" where
  "kernel_calls E =
     \<lparr>ece391_execute = call_execute E,
      ece391_read = (\<lambda>fd buf n (es, s).
        do {
          (r, b, s, es) \<leftarrow> call_result (sys_read (irq_handler (env_dev E) (env_header E) (env_entry E) (env_junk E)) es fd
            (Some buf) n (in_call E s));
          Some (r, the b, es, s)
        }),
      ece391_write = (\<lambda>fd buf n (es, s).
        do { (r, s) \<leftarrow> call_result (sys_write (env_dev E) fd (Some buf) n (in_call E s)); Some (r, es, s) }),
      ece391_open = (\<lambda>name (es, s).
        do { (r, s) \<leftarrow> call_result (sys_open (Some name) (in_call E s)); Some (r, es, s) }),
      ece391_close = (\<lambda>fd (es, s).
        do { (r, s) \<leftarrow> call_result (sys_close fd (in_call E s)); Some (r, es, s) }),
      ece391_getargs = (\<lambda>buf n (es, s).
        do { (r, b) \<leftarrow> call_result (sys_getargs (Some buf) n (in_call E s)); Some (r, the b, es, in_call E s) }),
      ece391_vidmap = (\<lambda>p (es, s).
        do { (r, s) \<leftarrow> call_result (sys_vidmap (env_page_table E) (env_video_table E) p (in_call E s)); Some (r, es, s) }),
      int80 = (\<lambda>num (es, s).
        case system_call_handler num of None \<Rightarrow> Some (-1, es, in_call E s) | Some f \<Rightarrow> env_raw E f (es, s))\<rparr>"

section \<open>What programs rely on\<close>

text \<open>An open descriptor: a file's content and the position in it, a directory and the position, or the clock.\<close>

datatype stream = File "u8 list" nat | Dir nat | Clock | Device

locale user_system =
  fixes c :: "'s syscalls"
    and ok :: "'s \<Rightarrow> bool"
    and screen :: "'s \<Rightarrow> 'v"
    and put :: "u8 \<Rightarrow> 'v \<Rightarrow> 'v"
    and fds :: "'s \<Rightarrow> int \<Rightarrow> stream option"
    and args :: "'s \<Rightarrow> u8 list"
    and lookup :: "u8 list \<Rightarrow> stream option"
    and names :: "u8 list list"
  assumes write_out: "ok s \<Longrightarrow> 0 \<le> n \<Longrightarrow> n \<le> int (length buf) \<Longrightarrow>
      \<exists>t. ece391_write c 1 buf n s = Some (n, t) \<and> ok t \<and> fds t = fds s \<and> args t = args s
        \<and> screen t = fold put (take (nat n) buf) (screen s)"
    and open_found: "ok s \<Longrightarrow> 0 \<in> set name \<Longrightarrow> lookup (cstr name) = Some x \<Longrightarrow> 2 \<le> d \<Longrightarrow> d < 8 \<Longrightarrow> fds s d = None \<Longrightarrow>
      \<exists>fd t. ece391_open c name s = Some (fd, t) \<and> 2 \<le> fd \<and> fd < 8 \<and> fds s fd = None \<and> ok t
        \<and> fds t = (fds s)(fd \<mapsto> x) \<and> args t = args s \<and> screen t = screen s"
    and open_missing: "ok s \<Longrightarrow> 0 \<in> set name \<Longrightarrow> lookup (cstr name) = None \<Longrightarrow>
      \<exists>t. ece391_open c name s = Some (-1, t) \<and> ok t \<and> fds t = fds s \<and> args t = args s \<and> screen t = screen s"
    and read_file: "ok s \<Longrightarrow> fds s fd = Some (File F p) \<Longrightarrow> 0 \<le> n \<Longrightarrow> n < 2 ^ 31 \<Longrightarrow> nat n \<le> length buf \<Longrightarrow>
      r = min (nat n) (length F - p) \<Longrightarrow>
      \<exists>t. ece391_read c fd buf n s = Some (int r, take r (drop p F) @ drop r buf, t) \<and> ok t
        \<and> fds t = (fds s)(fd \<mapsto> File F (p + r)) \<and> args t = args s \<and> screen t = screen s"
    and read_dir: "ok s \<Longrightarrow> fds s fd = Some (Dir p) \<Longrightarrow> 0 \<le> n \<Longrightarrow> 32 \<le> length buf \<Longrightarrow> p \<le> length names \<Longrightarrow>
      \<exists>t. ece391_read c fd buf n s =
          (if p < length names
           then Some (int (length (names ! p)), names ! p @ replicate (32 - length (names ! p)) 0 @ drop 32 buf, t)
           else Some (0, buf, t))
        \<and> ok t \<and> fds t = (fds s)(fd \<mapsto> Dir (Suc p)) \<and> args t = args s \<and> screen t = screen s"
    and close_fd: "ok s \<Longrightarrow> fds s fd = Some x \<Longrightarrow>
      \<exists>t. ece391_close c fd s = Some (0, t) \<and> ok t \<and> fds t = (fds s)(fd := None) \<and> args t = args s \<and> screen t = screen s"
    and getargs: "ok s \<Longrightarrow> 128 \<le> length buf \<Longrightarrow> 0 \<le> n \<Longrightarrow>
      \<exists>b t. ece391_getargs c buf n s = Some (if args s = [] then -1 else 0, b, t) \<and> length b = length buf
        \<and> (args s \<noteq> [] \<longrightarrow> 0 \<in> set b \<and> cstr b = args s) \<and> ok t \<and> fds t = fds s \<and> args t = args s \<and> screen t = screen s"
    and name_length: "w \<in> set names \<Longrightarrow> length w \<le> 32"
    and name_no_nul: "w \<in> set names \<Longrightarrow> 0 \<notin> set w"
begin

lemma fdputs_out:
  assumes "ok s" and "0 \<in> set str"
  shows "\<exists>t. ece391_fdputs c 1 str s = Some t \<and> ok t \<and> fds t = fds s \<and> args t = args s
    \<and> screen t = fold put (cstr str) (screen s)"
proof -
  have "take (length (cstr str)) str = cstr str" using cstr_split [OF assms(2)] by (metis append_eq_conv_conj)
  moreover have "length (cstr str) \<le> length str" by (rule length_cstr_le)
  ultimately show ?thesis
    using write_out [OF assms(1), of "int (length (cstr str))" str] assms(2)
    by (auto simp: ece391_fdputs_def ece391_strlen_eq)
qed

end

section \<open>The kernel as a provider\<close>

text \<open>
  The kernel offers these calls to the process in slot \<open>p\<close>: the image has an entry type the kernel
  knows for every name, the kernel stack is the process's, the standard descriptors and the operations
  tables are set up. The program sees the descriptors as streams over the image, its argument
  string, and the console.
\<close>

definition wf_image :: "fsys \<Rightarrow> bool" where
  "wf_image f \<longleftrightarrow> unat (dir_count f) < 2 ^ 31 \<and> list_all (\<lambda>k. filetype (dir_entry f k) \<le> 2) [0..<unat (dir_count f)]"

definition fd_stream :: "fsys \<Rightarrow> fd_entry \<Rightarrow> stream option" where
  "fd_stream f e =
     (if flags e = 0 then None
      else if flags e = 1 \<and> fd_operations e = file_operations \<and> wf_file f (inode e)
          \<and> length (file_content f (inode e)) < 2 ^ 31 \<and> unat (file_position e) \<le> length (file_content f (inode e))
        then Some (File (file_content f (inode e)) (unat (file_position e)))
      else if flags e = 1 \<and> fd_operations e = dir_operations then Some (Dir (unat (file_position e)))
      else if flags e = 1 \<and> fd_operations e = rtc_operations then Some Clock
      else Some Device)"

definition process_fds :: "fsys \<Rightarrow> nat \<Rightarrow> irq list \<times> kernel \<Rightarrow> int \<Rightarrow> stream option" where
  "process_fds f p st fd =
     (if 2 \<le> fd \<and> fd < 8 then fd_stream f (fd_arr (pcb_at (snd st) (pcb_addr (int p))) ! nat fd) else None)"

definition process_args :: "nat \<Rightarrow> irq list \<times> kernel \<Rightarrow> u8 list" where
  "process_args p st = cstr (argument (pcb_at (snd st) (pcb_addr (int p))))"

definition image_lookup :: "fsys \<Rightarrow> u8 list \<Rightarrow> stream option" where
  "image_lookup f name =
     (case find (\<lambda>k. dir_name f k = name) [0..<unat (dir_count f)] of
        None \<Rightarrow> None
      | Some k \<Rightarrow> fd_stream f (opened_fd (dir_entry f k) clear_fd))"

definition image_names :: "fsys \<Rightarrow> u8 list list" where
  "image_names f = map (dir_name f) [0..<unat (dir_count f)]"

definition console_of :: "irq list \<times> kernel \<Rightarrow> console" where
  "console_of st = console.truncate (snd st)"

text \<open>What the calls of process \<open>p\<close> leave alone: the process table, the paging structures, the programs'
  memory, and the control blocks, of its own all but the descriptors.\<close>

type_synonym rest = "int list \<times> paging \<times> (u32 \<Rightarrow> u8 list) \<times> (u32 \<Rightarrow> pcb)"

definition rest_of :: "nat \<Rightarrow> kernel \<Rightarrow> rest" where
  "rest_of p s = (processes s, paging s, frame_at s,
     (pcb_at s)(pcb_addr (int p) := (pcb_at s (pcb_addr (int p)))\<lparr>fd_arr := []\<rparr>))"

definition process_ok :: "environment \<Rightarrow> fsys \<Rightarrow> nat \<Rightarrow> rest \<Rightarrow> input \<Rightarrow> irq list \<times> kernel \<Rightarrow> bool" where
  "process_ok E f p K I st \<longleftrightarrow>
     (let s = snd st; q = pcb_at s (pcb_addr (int p))
      in wf_image f \<and> fs s = f \<and> p < 6 \<and> tss_esp0 s = EIGHTMB - EIGHTKB * of_nat p - 4 \<and> env_depth E \<le> 0x1000
        \<and> length (fd_arr q) = 8 \<and> fd_operations (fd_arr q ! 0) = std_operations \<and> fd_operations (fd_arr q ! 1) = std_operations
        \<and> ops_table s = ops_table (sys_init s) \<and> length (argument q) = 128 \<and> 0 \<in> set (argument q)
        \<and> rest_of p s = K \<and> pending I st)"

lemma truncate_frames [simp]:
  "console.truncate (upd_pcb p f s) = console.truncate s" "console.truncate (in_call E s) = console.truncate s"
  by (simp_all add: console.defs upd_pcb_def in_call_def enter_kernel_def)

lemma stack_ok_depth:
  assumes "tss_esp0 s = EIGHTMB - EIGHTKB * of_nat p - 4" and "p < 6" and "d \<le> 0x1000"
  shows "stack_ok (tss_esp0 s - d) s"
proof -
  have "p = 0 \<or> p = 1 \<or> p = 2 \<or> p = 3 \<or> p = 4 \<or> p = 5" using assms(2) by linarith
  then have "\<exists>k. tss_esp0 s = k \<and> 0x1000 \<le> k" using assms(1) by (elim disjE) simp_all
  then obtain k where k: "tss_esp0 s = k" "0x1000 \<le> k" by blast
  have "d \<le> k" using assms(3) k(2) by (rule order_trans)
  then have "unat (k - d) = unat k - unat d" "unat (k - 0x1000) = unat k - 0x1000"
    using k(2) by (simp_all add: unat_sub)
  then show ?thesis using assms(3) by (simp add: stack_ok_def k word_le_nat_alt)
qed

lemma process_okD:
  assumes "process_ok E f p K I st"
  shows "get_pcb (in_call E (snd st)) = pcb_addr (int p)" "cur_pcb (in_call E (snd st)) = pcb_at (snd st) (pcb_addr (int p))"
    "fs (in_call E (snd st)) = f" "ops_table (in_call E (snd st)) = ops_table (sys_init (snd st))"
    "pcb_at (in_call E (snd st)) = pcb_at (snd st)"
proof -
  have "stack_ok (tss_esp0 (snd st) - env_depth E) (snd st)"
    using assms unfolding process_ok_def Let_def by (intro stack_ok_depth [of _ p]) auto
  then show g: "get_pcb (in_call E (snd st)) = pcb_addr (int p)"
    using assms unfolding process_ok_def Let_def in_call_def by (intro get_pcb_enter) auto
  show "pcb_at (in_call E (snd st)) = pcb_at (snd st)" by (simp add: in_call_def enter_kernel_def)
  then show "cur_pcb (in_call E (snd st)) = pcb_at (snd st) (pcb_addr (int p))" using g by simp
  show "fs (in_call E (snd st)) = f" "ops_table (in_call E (snd st)) = ops_table (sys_init (snd st))"
    using assms by (simp_all add: process_ok_def Let_def in_call_def enter_kernel_def)
qed

lemma sys_init_ops [simp]:
  "ops_table (sys_init s) std_operations = \<lparr>read_function = Terminal_fn, write_function = Terminal_fn,
     open_function = Terminal_fn, close_function = Terminal_fn\<rparr>"
  "ops_table (sys_init s) dir_operations = \<lparr>read_function = Dir_fn, write_function = Dir_fn,
     open_function = Dir_fn, close_function = Dir_fn\<rparr>"
  "ops_table (sys_init s) file_operations = \<lparr>read_function = File_fn, write_function = File_fn,
     open_function = File_fn, close_function = File_fn\<rparr>"
  "ops_table (sys_init s) rtc_operations = \<lparr>read_function = Rtc_fn, write_function = Rtc_fn,
     open_function = Rtc_fn, close_function = Rtc_fn\<rparr>"
  by (simp_all add: sys_init_def)

text \<open>The states the calls of a process lead to: only a descriptor from 2 on changed, or only the console.\<close>

lemma in_call_fields [simp]:
  "tss_esp0 (in_call E s) = tss_esp0 s" "fs (in_call E s) = fs s" "pcb_at (in_call E s) = pcb_at s"
  "ops_table (in_call E s) = ops_table s" "processes (in_call E s) = processes s" "paging (in_call E s) = paging s"
  "frame_at (in_call E s) = frame_at s"
  by (simp_all add: in_call_def enter_kernel_def)

lemma rest_of_calls [simp]:
  "rest_of p (upd_pcb (pcb_addr (int p)) (upd_fd fd g) s) = rest_of p s"
  "rest_of p (in_call E s) = rest_of p s"
  by (simp_all add: rest_of_def upd_pcb_def upd_fd_def in_call_def enter_kernel_def)

lemma pending_calls [simp]:
  "pending I (es, upd_pcb a g s) = pending I (es, s)" "pending I (es, in_call E s) = pending I (es, s)"
  by (intro pending_cong; simp add: terminal.defs upd_pcb_def in_call_def enter_kernel_def)+

lemma process_ok_upd_fd:
  assumes "process_ok E f p K I (es, s)" and "2 \<le> fd"
  shows "process_ok E f p K I (es, upd_pcb (pcb_addr (int p)) (upd_fd fd g) (in_call E s))"
  using assms by (auto simp: process_ok_def Let_def nth_list_update sys_init_def)

lemma process_ok_in_call: "process_ok E f p K I (es, s) \<Longrightarrow> process_ok E f p K I (es, in_call E s)"
  by (auto simp: process_ok_def Let_def sys_init_def)

lemma process_ok_print:
  assumes "process_ok E f p K I (es, s)"
  shows "process_ok E f p K I (es, fold putc bs (in_call E s))"
proof -
  have "dev_only (in_call E s) (fold putc bs (in_call E s))" using fold_putc [of bs "in_call E s"] by (simp add: dev_only_def)
  from dev_only_fields [OF this] show ?thesis
    using assms by (simp add: process_ok_def Let_def sys_init_def rest_of_def pending_print)
qed

lemma process_okE:
  assumes "process_ok E f p K I (es, s)"
  obtains q where "pcb_at s (pcb_addr (int p)) = q" and "wf_image f" and "fs s = f" and "p < 6"
    and "length (fd_arr q) = 8" and "fd_operations (fd_arr q ! 0) = std_operations" and "fd_operations (fd_arr q ! 1) = std_operations"
    and "ops_table s = ops_table (sys_init s)" and "length (argument q) = 128" and "0 \<in> set (argument q)"
    and "get_pcb (in_call E s) = pcb_addr (int p)"
  using assms process_okD(1) [OF assms] by (simp add: process_ok_def Let_def)

lemma kernel_write_out:
  assumes "process_ok E f p K I st" and "0 \<le> n" and "n \<le> int (length buf)"
  shows "\<exists>t. ece391_write (kernel_calls E) 1 buf n st = Some (n, t) \<and> process_ok E f p K I t
    \<and> process_fds f p t = process_fds f p st \<and> process_args p t = process_args p st
    \<and> console_of t = fold putc (take (nat n) buf) (console_of st)"
proof -
  obtain es s where st: "st = (es, s)" by (cases st)
  from process_okE [OF assms(1) [unfolded st]] obtain q where q: "pcb_at s (pcb_addr (int p)) = q"
    "fd_operations (fd_arr q ! 1) = std_operations" "ops_table s = ops_table (sys_init s)" "get_pcb (in_call E s) = pcb_addr (int p)"
    by metis
  let ?u = "in_call E s"
  have w: "sys_write (env_dev E) 1 (Some buf) n ?u = Inr (n, fold putc (take (nat n) buf) ?u)"
    using assms(2,3) q sys_init_ops(1) [of s] by (simp add: sys_write_def Let_def terminal_write_def of_option_def)
  have "dev_only ?u (fold putc (take (nat n) buf) ?u)" using fold_putc [of _ ?u] by (simp add: dev_only_def)
  note d = dev_only_fields [OF this]
  show ?thesis unfolding st
    by (rule exI [of _ "(es, fold putc (take (nat n) buf) ?u)"])
      (use w assms(1) st in \<open>simp add: kernel_calls_def call_result_def process_ok_print d process_fds_def fun_eq_iff process_args_def
        console_of_def truncate_fold_putc\<close>)
qed

lemma process_fds_upd:
  assumes "2 \<le> fd" "fd < 8" "length (fd_arr (pcb_at s (pcb_addr (int p)))) = 8"
  shows "process_fds f p (es, upd_pcb (pcb_addr (int p)) (upd_fd fd g) (in_call E s)) =
    (process_fds f p (es, s))(fd := fd_stream f (g (fd_arr (pcb_at s (pcb_addr (int p))) ! nat fd)))"
proof (rule ext)
  fix k
  have "nat k = nat fd \<longleftrightarrow> k = fd" if "2 \<le> k" using that assms(1) by auto
  with assms show "process_fds f p (es, upd_pcb (pcb_addr (int p)) (upd_fd fd g) (in_call E s)) k =
    ((process_fds f p (es, s))(fd := fd_stream f (g (fd_arr (pcb_at s (pcb_addr (int p))) ! nat fd)))) k"
    by (auto simp: process_fds_def nth_list_update)
qed

text \<open>A call that changed one descriptor.\<close>

lemma fd_change:
  fixes g :: "fd_entry \<Rightarrow> fd_entry"
  assumes "process_ok E f p K I (es, s)" and "2 \<le> fd" "fd < 8"
  defines "t \<equiv> (es, upd_pcb (pcb_addr (int p)) (upd_fd fd g) (in_call E s))"
  shows "process_ok E f p K I t" "process_fds f p t = (process_fds f p (es, s))(fd := fd_stream f (g (fd_arr (pcb_at s (pcb_addr (int p))) ! nat fd)))"
    "process_args p t = process_args p (es, s)" "console_of t = console_of (es, s)"
proof -
  have "length (fd_arr (pcb_at s (pcb_addr (int p)))) = 8" using assms(1) by (simp add: process_ok_def Let_def)
  with process_fds_upd [OF assms(2,3)]
  show "process_fds f p t = (process_fds f p (es, s))(fd := fd_stream f (g (fd_arr (pcb_at s (pcb_addr (int p))) ! nat fd)))"
    unfolding t_def by blast
  show "process_ok E f p K I t" unfolding t_def using assms(1,2) by (rule process_ok_upd_fd)
  show "process_args p t = process_args p (es, s)" "console_of t = console_of (es, s)"
    by (simp_all add: t_def process_args_def console_of_def)
qed

lemma fd_stream_opened:
  assumes "filetype d \<le> 2"
  shows "fd_stream f (opened_fd d e) = fd_stream f (opened_fd d clear_fd)"
proof -
  have "unat (filetype d) = 0 \<or> unat (filetype d) = 1 \<or> unat (filetype d) = 2"
    using assms by (simp add: word_le_nat_alt) linarith
  then have "filetype d = 0 \<or> filetype d = 1 \<or> filetype d = 2"
    by (auto simp: word_unat_eq_iff)
  then show ?thesis by (auto simp: fd_stream_def)
qed

lemma kernel_open_found:
  assumes "process_ok E f p K I st" and "0 \<in> set name" and "image_lookup f (cstr name) = Some x"
    and "2 \<le> d" "d < 8" "process_fds f p st d = None"
  shows "\<exists>fd t. ece391_open (kernel_calls E) name st = Some (fd, t) \<and> 2 \<le> fd \<and> fd < 8 \<and> process_fds f p st fd = None
    \<and> process_ok E f p K I t \<and> process_fds f p t = (process_fds f p st)(fd \<mapsto> x) \<and> process_args p t = process_args p st
    \<and> console_of t = console_of st"
proof -
  obtain es s where st: "st = (es, s)" by (cases st)
  from process_okE [OF assms(1) [unfolded st]] obtain q where q: "pcb_at s (pcb_addr (int p)) = q" "wf_image f" "fs s = f"
    "get_pcb (in_call E s) = pcb_addr (int p)"
    by metis
  from assms(3) obtain k where k: "find (\<lambda>k. dir_name f k = cstr name) [0..<unat (dir_count f)] = Some k"
    and x: "fd_stream f (opened_fd (dir_entry f k) clear_fd) = Some x"
    by (auto simp: image_lookup_def split: option.splits)
  have kt: "filetype (dir_entry f k) \<le> 2" using k q(2) by (auto simp: find_Some_iff wf_image_def list_all_iff)
  have fx: "fd_stream f (opened_fd (dir_entry f k) e) = Some x" for e using fd_stream_opened [OF kt] x by metis
  let ?i = "free_fd (fd_arr q) 2" and ?u = "in_call E s"
  have "flags (fd_arr q ! nat d) = 0" using assms(4-6) by (simp add: process_fds_def st q fd_stream_def split: if_splits)
  then have i: "2 \<le> ?i" "?i < 8" "flags (fd_arr q ! ?i) = 0"
  proof -
    note fp = free_fd_props [of 2 "fd_arr q"]
    show "2 \<le> ?i" using fp by simp
    have "\<not> (2 \<le> nat d \<and> nat d < ?i)" using fp \<open>flags (fd_arr q ! nat d) = 0\<close> by auto
    then show "?i < 8" using assms(4,5) fp by auto
    then show "flags (fd_arr q ! ?i) = 0" using fp by simp
  qed
  let ?t = "(es, upd_pcb (pcb_addr (int p)) (upd_fd (int ?i) (opened_fd (dir_entry f k))) ?u)"
  have "ece391_open (kernel_calls E) name st = Some (int ?i, ?t)"
    using i sys_open_eq [OF assms(2), of ?u] k q by (simp add: st kernel_calls_def call_result_def)
  moreover have "process_fds f p st (int ?i) = None" using i by (simp add: st process_fds_def q fd_stream_def)
  ultimately show ?thesis
    using i fd_change [OF assms(1) [unfolded st], of "int ?i" "opened_fd (dir_entry f k)"]
    by (intro exI [of _ "int ?i"] exI [of _ ?t]) (simp add: st fx)
qed

lemma kernel_open_missing:
  assumes "process_ok E f p K I st" and "0 \<in> set name" and "image_lookup f (cstr name) = None"
  shows "\<exists>t. ece391_open (kernel_calls E) name st = Some (-1, t) \<and> process_ok E f p K I t
    \<and> process_fds f p t = process_fds f p st \<and> process_args p t = process_args p st \<and> console_of t = console_of st"
proof -
  obtain es s where st: "st = (es, s)" by (cases st)
  have "find (\<lambda>k. dir_name f k = cstr name) [0..<unat (dir_count f)] = None"
    using assms(3) by (auto simp: image_lookup_def fd_stream_def split: option.splits if_splits)
  then have "ece391_open (kernel_calls E) name st = Some (-1, es, in_call E s)"
    using sys_open_eq [OF assms(2), of "in_call E s"] assms(1)
    by (simp add: st kernel_calls_def call_result_def process_ok_def Let_def)
  then show ?thesis using process_ok_in_call [OF assms(1) [unfolded st]]
    by (auto simp: st process_fds_def process_args_def console_of_def fun_eq_iff)
qed

lemma kernel_read_file:
  assumes "process_ok E f p K I st" and "process_fds f p st fd = Some (File F k)" and "0 \<le> n" and "n < 2 ^ 31"
    and "nat n \<le> length buf" and "r = min (nat n) (length F - k)"
  shows "\<exists>t. ece391_read (kernel_calls E) fd buf n st = Some (int r, take r (drop k F) @ drop r buf, t) \<and> process_ok E f p K I t
    \<and> process_fds f p t = (process_fds f p st)(fd \<mapsto> File F (k + r)) \<and> process_args p t = process_args p st \<and> console_of t = console_of st"
proof -
  obtain es s where st: "st = (es, s)" by (cases st)
  from process_okE [OF assms(1) [unfolded st]] obtain q where q: "pcb_at s (pcb_addr (int p)) = q" "fs s = f"
    "length (fd_arr q) = 8" "ops_table s = ops_table (sys_init s)" "get_pcb (in_call E s) = pcb_addr (int p)"
    by metis
  let ?e = "fd_arr q ! nat fd" and ?u = "in_call E s"
  have e: "2 \<le> fd" "fd < 8" "flags ?e = 1" "fd_operations ?e = file_operations" "wf_file f (inode ?e)" "F = file_content f (inode ?e)"
    "length F < 2 ^ 31" "k \<le> length F" "unat (file_position ?e) = k"
    using assms(2) by (auto simp: process_fds_def st q fd_stream_def split: if_splits)
  have pos: "file_position ?e = of_nat k" using e(9) by auto
  have "open_file fd (inode ?e) k ?u"
    using e pos q sys_init_ops(3) [of s] by (simp add: open_file_def)
  moreover have "k + nat n < 2 ^ 32" using e(7,8) assms(4) by simp
  ultimately have rd: "sys_read h es fd (Some buf) n ?u =
      Inr (int r, Some (take r (drop k F) @ drop r buf), upd_pcb (pcb_addr (int p)) (upd_fd fd (\<lambda>e. e\<lparr>file_position := file_position e + word_of_int (int r)\<rparr>)) ?u, es)" for h
    using sys_read_open_file_eq(2) [of fd "inode ?e" k ?u n buf h es] e(5,6,8) assms(3,5,6) q by simp
  have "unat (of_nat k + of_nat r :: u32) = k + r"
    using e(7,8) assms(6) by (simp flip: of_nat_add add: unat_of_nat_u32)
  then have "fd_stream f (?e\<lparr>file_position := file_position ?e + word_of_int (int r)\<rparr>) = Some (File F (k + r))"
    using e pos assms(6) by (simp add: fd_stream_def) linarith
  then show ?thesis
    using rd fd_change [OF assms(1) [unfolded st] e(1,2), of "\<lambda>e. e\<lparr>file_position := file_position e + word_of_int (int r)\<rparr>"]
    by (intro exI [of _ "(es, upd_pcb (pcb_addr (int p)) (upd_fd fd (\<lambda>e. e\<lparr>file_position := file_position e + word_of_int (int r)\<rparr>)) ?u)"])
      (simp add: st kernel_calls_def call_result_def q)
qed

lemma kernel_read_dir:
  assumes "process_ok E f p K I st" and "process_fds f p st fd = Some (Dir k)" and "0 \<le> n" and "32 \<le> length buf"
    and "k \<le> length (image_names f)"
  shows "\<exists>t. ece391_read (kernel_calls E) fd buf n st =
      (if k < length (image_names f)
       then Some (int (length (image_names f ! k)), image_names f ! k @ replicate (32 - length (image_names f ! k)) 0 @ drop 32 buf, t)
       else Some (0, buf, t))
    \<and> process_ok E f p K I t \<and> process_fds f p t = (process_fds f p st)(fd \<mapsto> Dir (Suc k)) \<and> process_args p t = process_args p st
    \<and> console_of t = console_of st"
proof -
  obtain es s where st: "st = (es, s)" by (cases st)
  from process_okE [OF assms(1) [unfolded st]] obtain q where q: "pcb_at s (pcb_addr (int p)) = q" "wf_image f" "fs s = f"
    "length (fd_arr q) = 8" "ops_table s = ops_table (sys_init s)" "get_pcb (in_call E s) = pcb_addr (int p)"
    by metis
  let ?e = "fd_arr q ! nat fd" and ?u = "in_call E s"
  let ?g = "\<lambda>e :: fd_entry. e\<lparr>file_position := file_position e + 1\<rparr>"
  have e: "2 \<le> fd" "fd < 8" "flags ?e = 1" "fd_operations ?e = dir_operations" "unat (file_position ?e) = k"
    using assms(2) by (auto simp: process_fds_def st q fd_stream_def split: if_splits)
  have pos: "file_position ?e = of_nat k" using e(5) by auto
  have k: "k < 2 ^ 32 - 1" using assms(5) q(2) by (simp add: image_names_def wf_image_def)
  have od: "open_dir fd k ?u" using e pos q sys_init_ops(2) [of s] by (simp add: open_dir_def)
  have rd: "sys_read h es fd (Some buf) n ?u =
    (if k < length (image_names f)
     then Inr (int (length (image_names f ! k)), Some (image_names f ! k @ replicate (32 - length (image_names f ! k)) 0 @ drop 32 buf),
       upd_pcb (pcb_addr (int p)) (upd_fd fd ?g) ?u, es)
     else Inr (0, Some buf, upd_pcb (pcb_addr (int p)) (upd_fd fd ?g) ?u, es))" for h
    using sys_read_open_dir(2) [OF od k assms(3,4), of h es] unfolding in_call_fields q(3,6)
    by (simp add: image_names_def dir_entry_def)
  have "unat (of_nat k + 1 :: u32) = Suc k"
    using k unat_of_nat_u32 [of "Suc k"] by (simp add: add.commute)
  then have "fd_stream f (?g ?e) = Some (Dir (Suc k))" using e pos by (simp add: fd_stream_def)
  then show ?thesis
    using rd fd_change [OF assms(1) [unfolded st] e(1,2), of ?g]
    by (intro exI [of _ "(es, upd_pcb (pcb_addr (int p)) (upd_fd fd ?g) ?u)"]) (simp add: st kernel_calls_def call_result_def q)
qed

lemma kernel_close_fd:
  assumes "process_ok E f p K I st" and "process_fds f p st fd = Some x"
  shows "\<exists>t. ece391_close (kernel_calls E) fd st = Some (0, t) \<and> process_ok E f p K I t
    \<and> process_fds f p t = (process_fds f p st)(fd := None) \<and> process_args p t = process_args p st \<and> console_of t = console_of st"
proof -
  obtain es s where st: "st = (es, s)" by (cases st)
  from process_okE [OF assms(1) [unfolded st]] obtain q where q: "pcb_at s (pcb_addr (int p)) = q" "length (fd_arr q) = 8"
    "ops_table s = ops_table (sys_init s)" "get_pcb (in_call E s) = pcb_addr (int p)"
    by metis
  let ?u = "in_call E s" and ?g = "\<lambda>e :: fd_entry. e\<lparr>fd_operations := dir_operations, flags := 0\<rparr>"
  have e: "2 \<le> fd" "fd < 8" "flags (fd_arr q ! nat fd) \<noteq> 0"
    using assms(2) by (auto simp: process_fds_def st q fd_stream_def split: if_splits)
  have eq: "upd_pcb a (upd_fd fd (\<lambda>e. e\<lparr>flags := 0\<rparr>)) (upd_pcb a (upd_fd fd (\<lambda>e. e\<lparr>fd_operations := dir_operations\<rparr>)) v) =
      upd_pcb a (upd_fd fd ?g) v" if "nat fd < length (fd_arr (pcb_at v a))" for a and v :: kernel
    using that by (simp add: upd_pcb_def upd_fd_def)
  have "ece391_close (kernel_calls E) fd st = Some (0, es, upd_pcb (pcb_addr (int p)) (upd_fd fd ?g) ?u)"
    using e q sys_init_ops(2) [of s] eq [of ?u "pcb_addr (int p)"]
    by (simp add: st kernel_calls_def call_result_def sys_close_def Let_def dir_close_def)
  moreover have "fd_stream f (?g y) = None" for y by (simp add: fd_stream_def)
  ultimately show ?thesis
    using fd_change [OF assms(1) [unfolded st] e(1,2), of ?g] by (simp add: st q)
qed

lemma kernel_getargs:
  assumes "process_ok E f p K I st" and "128 \<le> length buf" and "0 \<le> n"
  shows "\<exists>b t. ece391_getargs (kernel_calls E) buf n st = Some (if process_args p st = [] then -1 else 0, b, t) \<and> length b = length buf
    \<and> (process_args p st \<noteq> [] \<longrightarrow> 0 \<in> set b \<and> cstr b = process_args p st) \<and> process_ok E f p K I t
    \<and> process_fds f p t = process_fds f p st \<and> process_args p t = process_args p st \<and> console_of t = console_of st"
proof -
  obtain es s where st: "st = (es, s)" by (cases st)
  from process_okE [OF assms(1) [unfolded st]] obtain q where q: "pcb_at s (pcb_addr (int p)) = q"
    "length (argument q) = 128" "0 \<in> set (argument q)" "get_pcb (in_call E s) = pcb_addr (int p)"
    by metis
  let ?a = "argument q" and ?t = "(es, in_call E s)"
  have z: "?a ! 0 = 0 \<longleftrightarrow> cstr ?a = []" using q(2) by (cases ?a) (auto simp: cstr_def)
  have cp: "fold (\<lambda>i b. b[i := ?a ! i]) [0..<128] buf = ?a @ drop 128 buf"
    using fold_list_array [of 128 buf "\<lambda>i. ?a ! i"] assms(2) q(2) map_nth [of ?a] by (simp del: upt_rec_numeral)
  have cs: "cstr (?a @ drop 128 buf) = cstr ?a"
    by (subst (1 2) cstr_split [OF q(3)]) simp
  have "ece391_getargs (kernel_calls E) buf n st =
      (if cstr ?a = [] then Some (-1, buf, ?t) else Some (0, ?a @ drop 128 buf, ?t))"
    using assms(2,3) q z by (simp add: st kernel_calls_def call_result_def sys_getargs_def cp of_option_def del: upt_rec_numeral)
  then show ?thesis
    using q cs assms(2) process_ok_in_call [OF assms(1) [unfolded st]]
    by (simp add: st process_args_def process_fds_def fun_eq_iff console_of_def)
qed

lemma image_name_length: "w \<in> set (image_names f) \<Longrightarrow> length w \<le> 32"
  by (auto simp: image_names_def dir_name_def)

lemma image_name_no_nul: "w \<in> set (image_names f) \<Longrightarrow> 0 \<notin> set w"
  by (auto simp: image_names_def dir_name_def dest!: in_set_takeD)

interpretation kernel_user: user_system "kernel_calls E" "process_ok E f p K I" console_of putc "process_fds f p" "process_args p"
  "image_lookup f" "image_names f"
  by (unfold_locales; rule kernel_write_out kernel_open_found kernel_open_missing kernel_read_file kernel_read_dir
      kernel_close_fd kernel_getargs image_name_length image_name_no_nul; assumption)

end
