(* ===== verification/User_Demo.thy ===== *)
theory User_Demo
  imports User_Calls
begin

text \<open>
  A machine on which the user programs run: the image holds the directory entry \<open>.\<close>, the text file
  \<open>poem\<close> and a program \<open>cat\<close>, the process in slot 0 has its standard descriptors and one argument. The witnesses of
  the user programs evaluate on it.
\<close>

definition poem :: "u8 list" where "poem = bytes ''fish'' @ [10] @ bytes ''sea'' @ [10]"

definition poem_mem :: memory where
  "poem_mem = (\<lambda>a. if 16388 \<le> uint a then 1 else ((\<lambda>_. 0)(0 := 3, 4 := 2, 8 := 2, 64 := 46, 96 := 1,
     128 := 112, 129 := 111, 130 := 101, 131 := 109, 160 := 2, 192 := 99, 193 := 97, 194 := 116, 224 := 2, 228 := 1,
     4096 := 9, 8192 := 40, 8196 := 1,
     12288 := 102, 12289 := 105, 12290 := 115, 12291 := 104, 12292 := 10, 12293 := 115, 12294 := 101, 12295 := 97, 12296 := 10,
     16384 := 0x7F, 16385 := 0x45, 16386 := 0x4C, 16387 := 0x46)) a)"

definition cat_elf :: "u8 list" where "cat_elf = [0x7F, 0x45, 0x4C, 0x46] @ replicate 36 1"

definition poem_fs :: fsys where "poem_fs = fsystem_init poem_mem 0"

definition poem_pcb :: "string \<Rightarrow> pcb" where
  "poem_pcb w = demo_pcb\<lparr>fd_arr := clear_fd\<lparr>fd_operations := std_operations\<rparr> # clear_fd\<lparr>fd_operations := std_operations\<rparr>
       # replicate 6 clear_fd,
     argument := bytes w @ replicate (128 - length w) 0\<rparr>"

definition poem_state :: "string \<Rightarrow> irq list \<times> kernel" where
  "poem_state w = ([], sys_init (demo_kernel\<lparr>fs := poem_fs, pcb_at := \<lambda>_. poem_pcb w\<rparr>))"

definition poem_env :: environment where
  "poem_env = \<lparr>env_dev = \<lambda>_ _. 0, env_header = replicate 40 0, env_entry = replicate 4 0, env_junk = 0, env_page_table = 0x405000, env_video_table = 0x406000,
     env_depth = 0x100, env_ebp = 0, env_run = \<lambda>_ _. None, env_raw = \<lambda>_ _. None\<rparr>"

lemma poem_fs_fields:
  "dir_count poem_fs = 3" "boot_inode_count poem_fs = 2" "data_count poem_fs = 2"
  "inode_length poem_fs 0 = 9" "data_block_num poem_fs 0 0 = 0" "inode_length poem_fs 1 = 40" "data_block_num poem_fs 1 0 = 1"
  "data_block_first poem_fs = 12288" "fs_mem poem_fs = poem_mem"
  "filetype (dir_entry poem_fs 0) = 1" "inode_num (dir_entry poem_fs 1) = 0" "filetype (dir_entry poem_fs 1) = 2"
  "inode_num (dir_entry poem_fs 2) = 1" "filetype (dir_entry poem_fs 2) = 2"
  by (simp_all add: poem_fs_def fsystem_init_def dir_count_def boot_inode_count_def data_count_def
      inode_length_def data_block_num_def read_u32_def poem_mem_def dir_entry_def direntry_addr_def)

lemmas poem_fs_facts = poem_fs_fields poem_fs_fields(11,12) [unfolded One_nat_def] poem_fs_fields(13,14) [unfolded numeral_2_eq_2]

lemma dir_nameI:
  assumes "take n (direntry_obj f (of_nat k)) = w @ [0]" and "0 \<notin> set w" and "length w \<le> 32"
  shows "dir_name f k = w"
proof -
  let ?o = "direntry_obj f (of_nat k)"
  have "?o = w @ 0 # drop n ?o" using append_take_drop_id [of n ?o] assms(1) by simp
  then have "cstr ?o = w" using cstr_append_nul [OF assms(2), of "drop n ?o"] by simp
  then show ?thesis using assms(3) by (simp add: dir_name_def)
qed

lemma poem_dir_name: "dir_name poem_fs 0 = bytes ''.''" "dir_name poem_fs 1 = bytes ''poem''" "dir_name poem_fs 2 = bytes ''cat''"
proof -
  have "take 2 (direntry_obj poem_fs 0) = [46, 0]" "take 5 (direntry_obj poem_fs 1) = [112, 111, 101, 109, 0]"
    "take 4 (direntry_obj poem_fs 2) = [99, 97, 116, 0]"
    by (simp_all add: direntry_obj_def obj_at_def take_map upt_conv_Cons direntry_addr_def poem_fs_def fsystem_init_def poem_mem_def)
  then show "dir_name poem_fs 0 = bytes ''.''" "dir_name poem_fs 1 = bytes ''poem''" "dir_name poem_fs 2 = bytes ''cat''"
    using dir_nameI [of 2 poem_fs 0 "bytes ''.''"] dir_nameI [of 5 poem_fs 1 "bytes ''poem''"] dir_nameI [of 4 poem_fs 2 "bytes ''cat''"]
    by (simp_all add: bytes_def)
qed

lemma poem_content: "file_content poem_fs 0 = poem" "file_content poem_fs 1 = cat_elf"
proof -
  have b: "file_byte poem_fs 0 j = poem_mem (12288 + of_nat j)" "file_byte poem_fs 1 j = poem_mem (16384 + of_nat j)" if "j < 4096" for j
    using that by (simp_all add: file_byte_def poem_fs_fields)
  moreover have "[0..<9] = [0, 1, 2, 3, 4, 5, 6, 7, 8 :: nat]" by code_simp
  ultimately have "file_content poem_fs 0 = map (\<lambda>j. poem_mem (12288 + of_nat j)) [0, 1, 2, 3, 4, 5, 6, 7, 8]"
    by (simp add: file_content_def poem_fs_fields)
  also have "\<dots> = poem" by (simp add: poem_mem_def poem_def bytes_def)
  finally show "file_content poem_fs 0 = poem" .
  have "file_content poem_fs 1 = map (\<lambda>j. poem_mem (16384 + of_nat j)) [0..<40]"
    using b(2) by (simp add: file_content_def poem_fs_fields del: upt_rec_numeral)
  also have "\<dots> = cat_elf"
  proof (rule nth_equalityI)
    fix j assume "j < length (map (\<lambda>j. poem_mem (16384 + of_nat j)) [0..<40])"
    then have j: "j < 40" by simp
    have m: "poem_mem (16384 + of_nat j) = 1" if "4 \<le> j"
    proof -
      have "uint (of_nat j :: u32) = int j" using j by (simp add: unsigned_of_nat take_bit_nat_eq_self)
      then have "uint (16384 + of_nat j :: u32) = 16384 + int j" using j by (simp add: uint_word_ariths)
      then show ?thesis using that by (simp add: poem_mem_def)
    qed
    show "map (\<lambda>j. poem_mem (16384 + of_nat j)) [0..<40] ! j = cat_elf ! j"
    proof (cases "j < 4")
      case True
      then have "j = 0 \<or> j = 1 \<or> j = 2 \<or> j = 3" by linarith
      then show ?thesis by (elim disjE) (simp_all add: poem_mem_def cat_elf_def)
    next
      case False
      then show ?thesis using j m by (simp add: cat_elf_def nth_append nth_Cons' del: upt_rec_numeral)
    qed
  qed (simp add: cat_elf_def)
  finally show "file_content poem_fs 1 = cat_elf" .
qed

lemma poem_entries: "[0..<unat (dir_count poem_fs)] = [0, 1, 2]"
proof -
  have "[0..<3] = [0, 1, 2 :: nat]" by code_simp
  then show ?thesis by (simp add: poem_fs_fields del: upt_rec_numeral One_nat_def)
qed

lemma poem_names: "image_names poem_fs = [bytes ''.'', bytes ''poem'', bytes ''cat'']"
  using poem_dir_name by (simp add: image_names_def poem_entries)

lemma poem_length: "length poem = 9" "length cat_elf = 40"
  by (simp_all add: poem_def cat_elf_def bytes_def)

lemma poem_wf: "wf_file poem_fs 0" "wf_file poem_fs 1"
  by (simp_all add: wf_file_def poem_fs_fields)

lemma poem_find: "find (\<lambda>k. dir_name poem_fs k = bytes ''cat'') [0..<unat (dir_count poem_fs)] = Some 2"
proof -
  have "bytes ''.'' \<noteq> bytes ''cat''" "bytes ''poem'' \<noteq> bytes ''cat''" by (simp_all add: bytes_def)
  then show ?thesis unfolding poem_entries using poem_dir_name by simp
qed

lemma poem_lookup:
  "image_lookup poem_fs (bytes ''.'') = Some (Dir 0)" "image_lookup poem_fs (bytes ''poem'') = Some (File poem 0)"
  "image_lookup poem_fs (bytes ''cat'') = Some (File cat_elf 0)"
proof -
  have "fd_stream poem_fs (opened_fd (dir_entry poem_fs 1) clear_fd) = Some (File poem 0)"
    "fd_stream poem_fs (opened_fd (dir_entry poem_fs 2) clear_fd) = Some (File cat_elf 0)"
    using poem_wf by (simp_all add: fd_stream_def poem_fs_facts poem_content poem_length)
  moreover have "fd_stream poem_fs (opened_fd (dir_entry poem_fs 0) clear_fd) = Some (Dir 0)"
    by (simp add: fd_stream_def poem_fs_fields)
  moreover have "bytes ''.'' \<noteq> bytes ''poem''" by (simp add: bytes_def)
  ultimately show "image_lookup poem_fs (bytes ''.'') = Some (Dir 0)" "image_lookup poem_fs (bytes ''poem'') = Some (File poem 0)"
    "image_lookup poem_fs (bytes ''cat'') = Some (File cat_elf 0)"
    using poem_dir_name poem_find by (simp_all add: image_lookup_def poem_entries)
qed

lemma poem_image: "wf_image poem_fs"
  unfolding wf_image_def poem_entries by (simp add: poem_fs_facts)

lemma poem_pcb_fields: "length (fd_arr (poem_pcb w)) = 8" "fd_operations (fd_arr (poem_pcb w) ! 0) = std_operations"
  "fd_operations (fd_arr (poem_pcb w) ! 1) = std_operations" "2 \<le> n \<Longrightarrow> n < 8 \<Longrightarrow> fd_arr (poem_pcb w) ! n = clear_fd"
  "argument (poem_pcb w) = bytes w @ replicate (128 - length w) 0"
  by (simp_all add: poem_pcb_def nth_Cons' numeral_eq_Suc)

lemma poem_state_fields:
  "fs (snd (poem_state w)) = poem_fs" "pcb_at (snd (poem_state w)) = (\<lambda>_. poem_pcb w)" "tss_esp0 (snd (poem_state w)) = 0x7FFFFC"
  "ops_table (sys_init (snd (poem_state w))) = ops_table (snd (poem_state w))"
  by (simp_all add: poem_state_def sys_init_def, simp add: demo_kernel_def terminal.defs kernel.defs)

lemma poem_ok: "length w < 128 \<Longrightarrow> process_ok poem_env poem_fs 0 (rest_of 0 (snd (poem_state w))) Anything (poem_state w)"
  by (simp add: process_ok_def Let_def poem_image poem_state_fields poem_pcb_fields poem_pcb_fields(3) [unfolded One_nat_def]
      poem_env_def bytes_def)

lemma poem_args: "0 \<notin> set (bytes w) \<Longrightarrow> length w < 128 \<Longrightarrow> process_args 0 (poem_state w) = bytes w"
  using cstr_append_nul [of "bytes w" "replicate (127 - length w) 0"] Suc_diff_le [of "length w" 127]
  by (simp add: process_args_def poem_state_fields poem_pcb_fields flip: replicate_Suc)

lemma poem_free: "2 \<le> d \<Longrightarrow> d < 8 \<Longrightarrow> process_fds poem_fs 0 (poem_state w) d = None"
  by (simp add: process_fds_def poem_state_fields poem_pcb_fields fd_stream_def clear_fd_def)

end
