(* ===== verification/User_Files.thy ===== *)
theory User_Files
  imports User_Demo
begin

text \<open>
  The programs \<open>cat\<close> and \<open>ls\<close> (\<^verbatim>\<open>src/syscalls/ece391cat.c\<close>, \<^verbatim>\<open>ece391ls.c\<close>). Their lemmas are proved in the locale \<open>user_system\<close>;
  the theorems are its instances on the kernel's calls. The uninitialised contents of the local
  buffers are parameters.
\<close>

section \<open>cat\<close>

partial_function (option) cat_loop :: "'s syscalls \<Rightarrow> int \<Rightarrow> u8 list \<Rightarrow> 's \<Rightarrow> (int \<times> 's) option" where
  "cat_loop c fd buf s =
     do {
       (cnt, buf, s) \<leftarrow> ece391_read c fd buf 1024 s;
       if cnt \<noteq> 0 then
         if cnt = -1 then
           do { s \<leftarrow> ece391_fdputs c 1 (lit_ln ''file read failed'') s; Some (3, s) }
         else
           do {
             (r, s) \<leftarrow> ece391_write c 1 buf cnt s;
             if r = -1 then Some (3, s) else cat_loop c fd buf s
           }
       else Some (0, s)
     }"

definition cat :: "'s syscalls \<Rightarrow> u8 list \<Rightarrow> 's \<Rightarrow> (int \<times> 's) option" where
  "cat c buf s =
     do {
       (r, buf, s) \<leftarrow> ece391_getargs c buf 1024 s;
       if r \<noteq> 0 then
         do { s \<leftarrow> ece391_fdputs c 1 (lit_ln ''could not read arguments'') s; Some (3, s) }
       else
         do {
           (fd, s) \<leftarrow> ece391_open c buf s;
           if fd = -1 then
             do { s \<leftarrow> ece391_fdputs c 1 (lit_ln ''file not found'') s; Some (2, s) }
           else cat_loop c fd buf s
         }
     }"

section \<open>ls\<close>

partial_function (option) ls_loop :: "'s syscalls \<Rightarrow> int \<Rightarrow> u8 list \<Rightarrow> 's \<Rightarrow> (int \<times> 's) option" where
  "ls_loop c fd buf s =
     do {
       (cnt, buf, s) \<leftarrow> ece391_read c fd buf 32 s;
       if cnt \<noteq> 0 then
         if cnt = -1 then
           do { s \<leftarrow> ece391_fdputs c 1 (lit_ln ''directory entry read failed'') s; Some (3, s) }
         else
           do {
             buf \<leftarrow> wr buf (nat cnt) 10;
             (r, s) \<leftarrow> ece391_write c 1 buf (cnt + 1) s;
             if r = -1 then Some (3, s) else ls_loop c fd buf s
           }
       else Some (0, s)
     }"

definition ls :: "'s syscalls \<Rightarrow> u8 list \<Rightarrow> 's \<Rightarrow> (int \<times> 's) option" where
  "ls c buf s =
     do {
       (fd, s) \<leftarrow> ece391_open c (lit ''.'') s;
       if fd = -1 then
         do { s \<leftarrow> ece391_fdputs c 1 (lit_ln ''directory open failed'') s; Some (2, s) }
       else ls_loop c fd buf s
     }"

section \<open>Literals\<close>

lemma cstr_lit [simp]: "0 \<notin> set (bytes s) \<Longrightarrow> cstr (lit s) = bytes s" "0 \<notin> set (bytes s) \<Longrightarrow> cstr (lit_ln s) = bytes s @ [10]"
  using cstr_append_nul [of "bytes s" "[]"] cstr_append_nul [of "bytes s @ [10]" "[]"] by (simp_all add: lit_def lit_ln_def)

lemma nul_in_lit [simp]: "0 \<in> set (lit s)" "0 \<in> set (lit_ln s)"
  by (simp_all add: lit_def lit_ln_def)

context user_system
begin

lemma cat_loop_prints:
  assumes "ok s" and "fds s fd = Some (File F p)" and "p \<le> length F" and "length buf = 1024"
  shows "\<exists>t. cat_loop c fd buf s = Some (0, t) \<and> ok t \<and> screen t = fold put (drop p F) (screen s)"
  using assms
proof (induction "length F - p" arbitrary: p s buf rule: less_induct)
  case less
  let ?r = "min 1024 (length F - p)"
  from read_file [OF less.prems(1,2), of 1024 buf ?r] less.prems(4) obtain t where
    t: "ece391_read c fd buf 1024 s = Some (int ?r, take ?r (drop p F) @ drop ?r buf, t)" "ok t"
    "fds t = (fds s)(fd \<mapsto> File F (p + ?r))" "screen t = screen s" by auto
  show ?case
  proof (cases "?r = 0")
    case True
    then have "drop p F = []" using less.prems(3) by simp
    with True t show ?thesis by (subst cat_loop.simps) simp
  next
    case False
    let ?b = "take ?r (drop p F) @ drop ?r buf"
    have tk: "take ?r ?b = take ?r (drop p F)" using less.prems(3) by simp
    have len: "length ?b = 1024" using less.prems(4) by simp
    from write_out [OF t(2), of "int ?r" ?b] obtain u where
      u: "ece391_write c 1 ?b (int ?r) t = Some (int ?r, u)" "ok u" "fds u = fds t"
      "screen u = fold put (take ?r (drop p F)) (screen t)"
      using tk len by auto
    have m: "length F - (p + ?r) < length F - p" using False by linarith
    have pr: "p + ?r \<le> length F" using less.prems(3) by linarith
    have fu: "fds u fd = Some (File F (p + ?r))" using u(3) t(3) by simp
    from less.hyps [OF m u(2) fu pr len] obtain v where
      v: "cat_loop c fd ?b u = Some (0, v)" "ok v" "screen v = fold put (drop (p + ?r) F) (screen u)" by blast
    have "drop p F = take ?r (drop p F) @ drop (p + ?r) F" by (metis append_take_drop_id drop_drop add.commute)
    then have "fold put (drop p F) (screen s) = fold put (drop (p + ?r) F) (screen u)"
      using u(4) t(4) by (metis fold_append comp_apply)
    then show ?thesis using t(1) u(1) v False by (subst cat_loop.simps) simp
  qed
qed

lemma cat_prints:
  assumes "ok s" and "length buf = 1024" and "2 \<le> d" "d < 8" "fds s d = None"
  shows "args s = [] \<Longrightarrow> \<exists>t. cat c buf s = Some (3, t) \<and> ok t \<and> screen t = fold put (bytes ''could not read arguments'' @ [10]) (screen s)"
    and "args s \<noteq> [] \<Longrightarrow> lookup (args s) = None \<Longrightarrow>
      \<exists>t. cat c buf s = Some (2, t) \<and> ok t \<and> screen t = fold put (bytes ''file not found'' @ [10]) (screen s)"
    and "args s \<noteq> [] \<Longrightarrow> lookup (args s) = Some (File F 0) \<Longrightarrow>
      \<exists>t. cat c buf s = Some (0, t) \<and> ok t \<and> screen t = fold put F (screen s)"
proof -
  have b: "128 \<le> length buf" using assms(2) by simp
  from getargs [OF assms(1) b, of 1024] obtain buf' s1 where
    1: "ece391_getargs c buf 1024 s = Some (if args s = [] then -1 else 0, buf', s1)" "length buf' = 1024"
    "args s \<noteq> [] \<longrightarrow> 0 \<in> set buf' \<and> cstr buf' = args s" "ok s1" "fds s1 = fds s" "screen s1 = screen s"
    using assms(2) by auto
  show "\<exists>t. cat c buf s = Some (3, t) \<and> ok t \<and> screen t = fold put (bytes ''could not read arguments'' @ [10]) (screen s)"
    if "args s = []"
    using that 1 fdputs_out [OF 1(4), of "lit_ln ''could not read arguments''"] by (auto simp: cat_def bytes_def)
  show "\<exists>t. cat c buf s = Some (2, t) \<and> ok t \<and> screen t = fold put (bytes ''file not found'' @ [10]) (screen s)"
    if a: "args s \<noteq> []" "lookup (args s) = None"
  proof -
    from open_missing [OF 1(4), of buf'] 1(3) a obtain s2 where
      "ece391_open c buf' s1 = Some (-1, s2)" "ok s2" "screen s2 = screen s1" by auto
    with 1 a show ?thesis using fdputs_out [of s2 "lit_ln ''file not found''"] by (auto simp: cat_def bytes_def)
  qed
  show "\<exists>t. cat c buf s = Some (0, t) \<and> ok t \<and> screen t = fold put F (screen s)"
    if a: "args s \<noteq> []" "lookup (args s) = Some (File F 0)"
  proof -
    from open_found [OF 1(4), of buf' "File F 0" d] 1(3,5) a assms(3-5) obtain fd s2 where
      2: "ece391_open c buf' s1 = Some (fd, s2)" "2 \<le> fd" "ok s2" "fds s2 fd = Some (File F 0)" "screen s2 = screen s1" by auto
    from cat_loop_prints [OF 2(3,4) _ 1(2)] 1 2 a show ?thesis by (auto simp: cat_def)
  qed
qed

end

definition listing :: "u8 list list \<Rightarrow> u8 list" where
  "listing ws = concat (map (\<lambda>w. w @ [10]) ws)"

lemma listing_Cons [simp]: "listing (w # ws) = w @ 10 # listing ws" and listing_Nil [simp]: "listing [] = []"
  by (simp_all add: listing_def)

context user_system
begin

lemma ls_loop_lists:
  assumes "ok s" and "fds s fd = Some (Dir p)" and "p \<le> length names" and "length buf = 33"
  shows "\<exists>t. ls_loop c fd buf s = Some (0, t) \<and> ok t
    \<and> screen t = fold put (listing (takeWhile (\<lambda>w. w \<noteq> []) (drop p names))) (screen s)"
  using assms
proof (induction "length names - p" arbitrary: p s buf)
  case 0
  then have p: "\<not> p < length names" "drop p names = []" by simp_all
  from read_dir [OF 0(2,3), of 32 buf] 0(4,5) p obtain t where
    "ece391_read c fd buf 32 s = Some (0, buf, t)" "ok t" "screen t = screen s" by auto
  then show ?case by (subst ls_loop.simps) (simp add: p)
next
  case (Suc k)
  let ?w = "names ! p"
  have p: "p < length names" using Suc.hyps(2) by simp
  then have d: "drop p names = ?w # drop (Suc p) names" by (simp add: Cons_nth_drop_Suc)
  have wl: "length ?w \<le> 32" using p by (intro name_length) simp
  let ?b = "?w @ replicate (32 - length ?w) 0 @ drop 32 buf"
  from read_dir [OF Suc.prems(1,2), of 32 buf] Suc.prems(3,4) p obtain t where
    t: "ece391_read c fd buf 32 s = Some (int (length ?w), ?b, t)" "ok t" "fds t = (fds s)(fd \<mapsto> Dir (Suc p))" "screen t = screen s"
    by auto
  show ?case
  proof (cases "?w = []")
    case True
    then show ?thesis using t d by (subst ls_loop.simps) simp
  next
    case False
    have len: "length ?b = 33" using wl Suc.prems(4) by simp
    let ?c = "?b[length ?w := 10]"
    have tk: "take (Suc (length ?w)) ?c = ?w @ [10]"
      using wl len by (simp add: take_Suc_conv_app_nth)
    from write_out [OF t(2), of "int (length ?w) + 1" ?c] obtain u where
      u: "ece391_write c 1 ?c (int (length ?w) + 1) t = Some (int (length ?w) + 1, u)" "ok u" "fds u = fds t"
      "screen u = fold put (?w @ [10]) (screen t)"
      using tk len wl by (auto simp: nat_add_distrib)
    have fu: "fds u fd = Some (Dir (Suc p))" using u(3) t(3) by simp
    have k: "k = length names - Suc p" "Suc p \<le> length names" "length ?c = 33" using Suc.hyps(2) p len by simp_all
    from Suc.hyps(1) [OF k(1) u(2) fu k(2,3)] obtain v where
      v: "ls_loop c fd ?c u = Some (0, v)" "ok v"
      "screen v = fold put (listing (takeWhile (\<lambda>w. w \<noteq> []) (drop (Suc p) names))) (screen u)" by blast
    have "wr ?b (length ?w) 10 = Some ?c" using len wl by (intro wr_Some) linarith
    then have "ls_loop c fd buf s = Some (0, v)"
      using t(1) u(1) v(1) False by (subst ls_loop.simps) simp
    moreover have "screen v = fold put (listing (takeWhile (\<lambda>w. w \<noteq> []) (drop p names))) (screen s)"
      unfolding d using v(3) u(4) t(4) False by simp
    ultimately show ?thesis using v(2) by blast
  qed
qed

lemma ls_lists:
  assumes "ok s" and "length buf = 33" and "2 \<le> d" "d < 8" "fds s d = None" and "lookup (bytes ''.'') = Some (Dir 0)"
  shows "\<exists>t. ls c buf s = Some (0, t) \<and> ok t \<and> screen t = fold put (listing (takeWhile (\<lambda>w. w \<noteq> []) names)) (screen s)"
proof -
  have "cstr (lit ''.'') = bytes ''.''" by (simp add: bytes_def)
  with open_found [OF assms(1), of "lit ''.''" "Dir 0" d] assms(3-6) obtain fd s1 where
    1: "ece391_open c (lit ''.'') s = Some (fd, s1)" "2 \<le> fd" "ok s1" "fds s1 fd = Some (Dir 0)" "screen s1 = screen s" by auto
  from ls_loop_lists [OF 1(3,4) _ assms(2)] 1 show ?thesis by (auto simp: ls_def)
qed

end

section \<open>On the kernel\<close>

text \<open>
  C15: \<open>cat\<close> on the kernel. A process with a free descriptor that runs \<open>cat\<close> with the name of a
  well-formed regular file as its argument prints exactly the bytes of the file and exits with 0, however
  many reads that takes; without an argument it prints a message and exits with 3, and for a name that is
  not in the image it prints a message and exits with 2.
\<close>

theorem cat_prints_file:
  assumes "process_ok E f p K I st" and "length buf = 1024" and "2 \<le> d" "d < 8" "process_fds f p st d = None"
    and "image_lookup f (process_args p st) \<in> {None, Some (File F 0)}"
  shows "\<exists>t. cat (kernel_calls E) buf st =
      Some (if process_args p st = [] then 3 else if image_lookup f (process_args p st) = None then 2 else 0, t)
    \<and> process_ok E f p K I t
    \<and> console_of t = fold putc
        (if process_args p st = [] then bytes ''could not read arguments'' @ [10]
         else if image_lookup f (process_args p st) = None then bytes ''file not found'' @ [10] else F) (console_of st)"
  using kernel_user.cat_prints [OF assms(1-5)] assms(6) by auto

theorem cat_prints_file_witness:
  "\<exists>t. cat (kernel_calls poem_env) (replicate 1024 0) (poem_state ''poem'') = Some (0, t)
    \<and> console_of t = fold putc poem (console_of (poem_state ''poem''))"
  using cat_prints_file [of poem_env poem_fs 0 "rest_of 0 (snd (poem_state ''poem''))" Anything "poem_state ''poem''" "replicate 1024 0" 2 poem] poem_ok [of "''poem''"]
    poem_args [of "''poem''"] poem_free [of 2 "''poem''"] poem_lookup(2)
  by (auto simp: bytes_def)

text \<open>
  C16: \<open>ls\<close> on the kernel. A process with a free descriptor that runs \<open>ls\<close> on an image with a
  directory entry \<open>.\<close> prints the names of the image in order, each on a line, and exits with 0; an entry with an
  empty name ends the listing.
\<close>

theorem ls_lists_image:
  assumes "process_ok E f p K I st" and "length buf = 33" and "2 \<le> d" "d < 8" "process_fds f p st d = None"
    and "image_lookup f (bytes ''.'') = Some (Dir 0)"
  shows "\<exists>t. ls (kernel_calls E) buf st = Some (0, t) \<and> process_ok E f p K I t
    \<and> console_of t = fold putc (listing (takeWhile (\<lambda>w. w \<noteq> []) (image_names f))) (console_of st)"
  using assms by (rule kernel_user.ls_lists)

theorem ls_lists_image_witness:
  "\<exists>t. ls (kernel_calls poem_env) (replicate 33 0) (poem_state []) = Some (0, t)
    \<and> console_of t = fold putc (bytes ''.'' @ [10] @ bytes ''poem'' @ [10] @ bytes ''cat'' @ [10]) (console_of (poem_state []))"
  using ls_lists_image [of poem_env poem_fs 0 "rest_of 0 (snd (poem_state []))" Anything "poem_state []" "replicate 33 0" 2] poem_ok [of "[]"]
    poem_free [of 2 "[]"] poem_lookup(1) poem_names
  by (auto simp: bytes_def)

end
