(* ===== verification/User_Grep.thy ===== *)
theory User_Grep
  imports User_Files
begin

text \<open>
  \<open>grep\<close> (\<^verbatim>\<open>src/syscalls/ece391grep.c\<close>): it reads a file through a buffer of 1024 bytes, keeps
  the incomplete line at the end of the buffer for the next read, and prints every line that contains the
  search string. The specification is \<open>grep_text\<close>, on the lines of the whole file.
\<close>

section \<open>The program\<close>

abbreviation BUFSIZE :: nat where "BUFSIZE \<equiv> 1024"

text \<open>The search for the end of the line, and the search in the line; the string is of signed and the
  data of unsigned characters.\<close>

function line_end_from :: "u8 list \<Rightarrow> nat \<Rightarrow> nat \<Rightarrow> nat option" where
  "line_end_from data lst line_end =
     (if line_end < lst then
        do {
          ch \<leftarrow> rd data line_end;
          if ch \<noteq> 10 then line_end_from data lst (Suc line_end) else Some line_end
        }
      else Some line_end)"
  by pat_completeness auto
termination
  by (relation "measure (\<lambda>(data, lst, line_end). lst - line_end)") auto

function search_line ::
  "'s syscalls \<Rightarrow> u8 list \<Rightarrow> u8 list \<Rightarrow> nat \<Rightarrow> u8 list \<Rightarrow> nat \<Rightarrow> nat \<Rightarrow> nat \<Rightarrow> 's \<Rightarrow> 's option" where
  "search_line c str fname s_len data line_start line_end check s =
     (if check < line_end then
        do {
          s0 \<leftarrow> rd str 0;
          ch \<leftarrow> rd data check;
          hit \<leftarrow> (if sint s0 = uint ch then map_option (\<lambda>r. r = 0) (ece391_strncmp (drop check data) str s_len) else Some False);
          if hit then
            do {
              s \<leftarrow> ece391_fdputs c 1 fname s;
              s \<leftarrow> ece391_fdputs c 1 (lit '':'') s;
              s \<leftarrow> ece391_fdputs c 1 (drop line_start data) s;
              ece391_fdputs c 1 (lit_ln []) s
            }
          else search_line c str fname s_len data line_start line_end (Suc check) s
        }
      else Some s)"
  by pat_completeness auto
termination
  by (relation "measure (\<lambda>(c, str, fname, s_len, data, line_start, line_end, check, s). line_end - check)") auto

declare line_end_from.simps [simp del] search_line.simps [simp del]

text \<open>The loop over the lines in the buffer; it returns the buffer and the new value of \<open>last\<close>.\<close>

partial_function (option) grep_lines ::
  "'s syscalls \<Rightarrow> u8 list \<Rightarrow> u8 list \<Rightarrow> nat \<Rightarrow> int \<Rightarrow> u8 list \<Rightarrow> nat \<Rightarrow> nat \<Rightarrow> 's \<Rightarrow> (u8 list \<times> nat \<times> 's) option" where
  "grep_lines c str fname s_len cnt data lst line_start s =
     do {
       line_end \<leftarrow> line_end_from data lst line_start;
       ch \<leftarrow> rd data line_end;
       if ch \<noteq> 10 \<and> cnt \<noteq> 0 \<and> line_start \<noteq> 0 then
         do {
           data \<leftarrow> wr data line_end 0;
           data \<leftarrow> ece391_strcpy data 0 line_start;
           Some (data, lst - line_start, s)
         }
       else
         do {
           data \<leftarrow> wr data line_end 0;
           s \<leftarrow> search_line c str fname s_len data line_start line_end line_start s;
           let line_start = line_end + 1;
           if line_start \<ge> lst then Some (data, 0, s)
           else grep_lines c str fname s_len cnt data lst line_start s
         }
     }"

text \<open>The loop over the reads, and the whole of \<open>do_one_file\<close>. A read stores at \<open>data + last\<close>.\<close>

partial_function (option) grep_reads ::
  "'s syscalls \<Rightarrow> u8 list \<Rightarrow> u8 list \<Rightarrow> nat \<Rightarrow> int \<Rightarrow> u8 list \<Rightarrow> nat \<Rightarrow> 's \<Rightarrow> (int option \<times> 's) option" where
  "grep_reads c str fname s_len fd data lst s =
     do {
       (cnt, part, s) \<leftarrow> ece391_read c fd (drop lst data) (int BUFSIZE - int lst) s;
       let data = take lst data @ part;
       if cnt = -1 then
         do { s \<leftarrow> ece391_fdputs c 1 (lit_ln ''file read failed'') s; Some (Some (-1), s) }
       else
         do {
           (data, lst, s) \<leftarrow> grep_lines c str fname s_len cnt data (lst + nat cnt) 0 s;
           if cnt = 0 then Some (None, s) else grep_reads c str fname s_len fd data lst s
         }
     }"

definition do_one_file :: "'s syscalls \<Rightarrow> u8 list \<Rightarrow> u8 list \<Rightarrow> u8 list \<Rightarrow> 's \<Rightarrow> (int \<times> 's) option" where
  "do_one_file c data str fname s =
     do {
       s_len \<leftarrow> ece391_strlen str;
       (fd, s) \<leftarrow> ece391_open c fname s;
       if fd = -1 then
         do { s \<leftarrow> ece391_fdputs c 1 (lit_ln ''file open failed'') s; Some (-1, s) }
       else
         do {
           (ret, s) \<leftarrow> grep_reads c str fname s_len fd data 0 s;
           case ret of
             Some r \<Rightarrow> Some (r, s)
           | None \<Rightarrow>
             do {
               (r, s) \<leftarrow> ece391_close c fd s;
               if r = -1 then
                 do { s \<leftarrow> ece391_fdputs c 1 (lit_ln ''file close failed'') s; Some (-1, s) }
               else Some (0, s)
             }
         }
     }"

text \<open>\<open>main\<close>; the buffer of \<open>do_one_file\<close> is uninitialised at every call, so \<open>data\<close> gives its content
  for each file.\<close>

partial_function (option) grep_files ::
  "'s syscalls \<Rightarrow> (u8 list \<Rightarrow> u8 list) \<Rightarrow> u8 list \<Rightarrow> int \<Rightarrow> u8 list \<Rightarrow> 's \<Rightarrow> (int \<times> 's) option" where
  "grep_files c data search fd buf s =
     do {
       (cnt, buf, s) \<leftarrow> ece391_read c fd buf 32 s;
       if cnt \<noteq> 0 then
         if cnt = -1 then
           do { s \<leftarrow> ece391_fdputs c 1 (lit_ln ''directory entry read failed'') s; Some (3, s) }
         else
           do {
             b0 \<leftarrow> rd buf 0;
             if b0 = of_char CHR ''.'' then grep_files c data search fd buf s
             else
               do {
                 buf \<leftarrow> wr buf (nat cnt) 0;
                 (r, s) \<leftarrow> do_one_file c (data buf) search buf s;
                 if r \<noteq> 0 then Some (3, s) else grep_files c data search fd buf s
               }
           }
       else Some (0, s)
     }"

definition grep :: "'s syscalls \<Rightarrow> (u8 list \<Rightarrow> u8 list) \<Rightarrow> u8 list \<Rightarrow> u8 list \<Rightarrow> 's \<Rightarrow> (int \<times> 's) option" where
  "grep c data search buf s =
     do {
       (r, search, s) \<leftarrow> ece391_getargs c search (int BUFSIZE) s;
       if r \<noteq> 0 then
         do { s \<leftarrow> ece391_fdputs c 1 (lit_ln ''could not read argument'') s; Some (3, s) }
       else
         do {
           (fd, s) \<leftarrow> ece391_open c (lit ''.'') s;
           if fd = -1 then
             do { s \<leftarrow> ece391_fdputs c 1 (lit_ln ''directory open failed'') s; Some (2, s) }
           else grep_files c data search fd buf s
         }
     }"

section \<open>Specification\<close>

function lines_of :: "u8 list \<Rightarrow> u8 list list" where
  "lines_of xs =
     (if xs = [] then []
      else takeWhile (\<lambda>b. b \<noteq> 10) xs # lines_of (drop (Suc (length (takeWhile (\<lambda>b. b \<noteq> 10) xs))) xs))"
  by pat_completeness auto
termination
  by (relation "measure length") auto

declare lines_of.simps [simp del]

definition occurs :: "u8 list \<Rightarrow> u8 list \<Rightarrow> bool" where
  "occurs w l \<longleftrightarrow> list_ex (\<lambda>i. take (length w) (drop i l) = w) [0..<length l]"

definition grep_line :: "u8 list \<Rightarrow> u8 list \<Rightarrow> u8 list \<Rightarrow> u8 list" where
  "grep_line w fname l = (if occurs w l then fname @ bytes '':'' @ l @ [10] else [])"

definition grep_text :: "u8 list \<Rightarrow> u8 list \<Rightarrow> u8 list \<Rightarrow> u8 list" where
  "grep_text w fname text = concat (map (grep_line w fname) (lines_of text))"

lemma lines_of_Nil [simp]: "lines_of [] = []"
  by (simp add: lines_of.simps)

lemma lines_of_newline: "10 \<notin> set w \<Longrightarrow> lines_of (w @ 10 # xs) = w # lines_of xs"
proof -
  assume "10 \<notin> set w"
  then have "takeWhile (\<lambda>b. b \<noteq> 10) (w @ 10 # xs) = w" by (subst takeWhile_append2) auto
  then show ?thesis by (subst lines_of.simps) simp
qed

lemma lines_of_last: "10 \<notin> set w \<Longrightarrow> w \<noteq> [] \<Longrightarrow> lines_of w = [w]"
proof -
  assume a: "10 \<notin> set w" "w \<noteq> []"
  then have "takeWhile (\<lambda>b. b \<noteq> 10) w = w" by (auto simp: takeWhile_eq_all_conv)
  with a show ?thesis using lines_of.simps [of w] by (metis drop_all le_SucI lines_of_Nil order_refl)
qed

lemma grep_text_simps:
  "grep_text w fname [] = []"
  "10 \<notin> set l \<Longrightarrow> grep_text w fname (l @ 10 # xs) = grep_line w fname l @ grep_text w fname xs"
  "10 \<notin> set l \<Longrightarrow> l \<noteq> [] \<Longrightarrow> grep_text w fname l = grep_line w fname l"
  by (simp_all add: grep_text_def lines_of_newline lines_of_last)

lemma text_cases:
  obtains (nl) l xs where "T = l @ 10 # xs" and "10 \<notin> set l" | (last) "10 \<notin> set (T :: u8 list)"
  by (metis split_list_first)

section \<open>Lines in the buffer\<close>

lemma line_end_from_eq:
  assumes "lst \<le> length data" and "st + k \<le> lst" and "10 \<notin> set (take k (drop st data))"
    and "st + k = lst \<or> data ! (st + k) = 10"
  shows "line_end_from data lst st = Some (st + k)"
  using assms
proof (induction k arbitrary: st)
  case 0
  then show ?case by (subst line_end_from.simps) auto
next
  case (Suc k)
  then have l: "st < lst" "st < length data" by simp_all
  then have "take (Suc k) (drop st data) = data ! st # take k (drop (Suc st) data)"
    by (simp flip: Cons_nth_drop_Suc)
  with Suc.prems(3) have "data ! st \<noteq> 10" "10 \<notin> set (take k (drop (Suc st) data))" by auto
  moreover from this(2) have "line_end_from data lst (Suc st) = Some (Suc st + k)" using Suc.prems by (intro Suc.IH) auto
  ultimately show ?case using l by (subst line_end_from.simps) simp
qed

lemma sint_ascii: "(b :: u8) < 128 \<Longrightarrow> sint b = uint b"
  by (simp add: sint_uint word_less_def, intro signed_take_bit_int_eq_self)
    (simp_all add: order_trans [OF _ uint_ge_0])

definition ascii_word :: "u8 list \<Rightarrow> bool" where
  "ascii_word w \<longleftrightarrow> w \<noteq> [] \<and> 0 \<notin> set w \<and> hd w < 128"

context user_system
begin

lemma search_line_prints:
  assumes "data = pre @ l @ 0 # post" and "0 \<notin> set l" and "0 \<in> set str" and "ascii_word (cstr str)" and "0 \<in> set fname"
    and "i \<le> length l" and "ok s"
  shows "\<exists>t. search_line c str fname (length (cstr str)) data (length pre) (length pre + length l) (length pre + i) s = Some t
    \<and> ok t \<and> fds t = fds s \<and> args t = args s
    \<and> screen t = fold put (if \<exists>j. i \<le> j \<and> j < length l \<and> take (length (cstr str)) (drop j l) = cstr str
        then cstr fname @ bytes '':'' @ l @ [10] else []) (screen s)"
  using assms(6)
proof (induction "length l - i" arbitrary: i)
  case 0
  then show ?case using assms(7) by (subst search_line.simps) auto
next
  case (Suc k)
  let ?w = "cstr str" and ?m = "\<lambda>j. take (length (cstr str)) (drop j l) = cstr str"
  have i: "i < length l" using Suc.hyps(2) by simp
  have d: "drop (length pre + i) data = drop i l @ 0 # post" using i assms(1) by simp
  have ch: "data ! (length pre + i) = l ! i" using i assms(1) by (simp add: nth_append)
  have w: "?w \<noteq> []" "hd ?w < 128" using assms(4) by (simp_all add: ascii_word_def)
  have s0: "rd str 0 = Some (hd ?w)" using w(1) assms(3) nth_cstr [of 0 str] by (cases str) (auto simp: hd_conv_nth)
  have di: "0 \<notin> set (drop i l)" using assms(2) by (meson in_set_dropD)
  then have cs: "cstr (drop i l @ 0 # post) = drop i l" by simp
  obtain r where r: "ece391_strncmp (drop i l @ 0 # post) str (length ?w) = Some r" "r = 0 \<longleftrightarrow> ?m i"
    using ece391_strncmp_zero_iff [of "drop i l @ 0 # post" str "length ?w"] assms(3) unfolding cs by auto
  have "?m i \<Longrightarrow> hd ?w = l ! i" using i w(1) by (metis hd_drop_conv_nth hd_take length_greater_0_conv)
  then have hit: "(if sint (hd ?w) = uint (l ! i) then map_option (\<lambda>r. r = 0) (ece391_strncmp (drop (length pre + i) data) str (length ?w))
      else Some False) = Some (?m i)"
    using r sint_ascii [OF w(2)] by (auto simp: d)
  have len: "length pre + i < length data" using i assms(1) by simp
  show ?case
  proof (cases "?m i")
    case True
    have ln: "drop (length pre) data = l @ 0 # post" using assms(1) by simp
    from fdputs_out [OF assms(7,5)] obtain s1 where
      1: "ece391_fdputs c 1 fname s = Some s1" "ok s1" "fds s1 = fds s" "args s1 = args s" "screen s1 = fold put (cstr fname) (screen s)" by blast
    from fdputs_out [OF 1(2), of "lit '':''"] obtain s2 where
      2: "ece391_fdputs c 1 (lit '':'') s1 = Some s2" "ok s2" "fds s2 = fds s" "args s2 = args s" "screen s2 = fold put (bytes '':'') (screen s1)"
      using 1 by (auto simp: bytes_def)
    from fdputs_out [OF 2(2), of "l @ 0 # post"] obtain s3 where
      3: "ece391_fdputs c 1 (l @ 0 # post) s2 = Some s3" "ok s3" "fds s3 = fds s" "args s3 = args s" "screen s3 = fold put l (screen s2)"
      using assms(2) 2 by auto
    from fdputs_out [OF 3(2), of "lit_ln []"] obtain s4 where
      4: "ece391_fdputs c 1 (lit_ln []) s3 = Some s4" "ok s4" "fds s4 = fds s" "args s4 = args s" "screen s4 = fold put [10] (screen s3)"
      using 3 by (auto simp: bytes_def)
    have "search_line c str fname (length ?w) data (length pre) (length pre + length l) (length pre + i) s = Some s4"
      using i s0 len hit True 1(1) 2(1) 3(1) 4(1) by (subst search_line.simps) (simp add: ch ln)
    moreover have "\<exists>j\<ge>i. j < length l \<and> ?m j" using True i by blast
    ultimately show ?thesis using 1 2 3 4 by (auto simp: comp_def)
  next
    case False
    have ex: "(\<exists>j\<ge>i. j < length l \<and> ?m j) \<longleftrightarrow> (\<exists>j\<ge>Suc i. j < length l \<and> ?m j)"
      using False by (metis Suc_leD le_neq_implies_less less_eq_Suc_le)
    have k: "k = length l - Suc i" "Suc i \<le> length l" using Suc.hyps(2) i by simp_all
    have "search_line c str fname (length ?w) data (length pre) (length pre + length l) (length pre + i) s =
        search_line c str fname (length ?w) data (length pre) (length pre + length l) (length pre + Suc i) s"
      using i s0 len hit False by (subst search_line.simps) (simp add: ch)
    then show ?thesis using Suc.hyps(1) [OF k] unfolding ex by simp
  qed
qed

lemma search_line_spec:
  assumes "data = pre @ l @ 0 # post" and "0 \<notin> set l" and "0 \<in> set str" and "ascii_word (cstr str)" and "0 \<in> set fname" and "ok s"
  shows "\<exists>t. search_line c str fname (length (cstr str)) data (length pre) (length pre + length l) (length pre) s = Some t
    \<and> ok t \<and> fds t = fds s \<and> args t = args s \<and> screen t = fold put (grep_line (cstr str) (cstr fname) l) (screen s)"
proof -
  have "occurs (cstr str) l \<longleftrightarrow> (\<exists>j\<ge>0. j < length l \<and> take (length (cstr str)) (drop j l) = cstr str)"
    by (auto simp: occurs_def list_ex_iff)
  then show ?thesis using search_line_prints [OF assms(1-5), of 0 s] assms(6) by (simp add: grep_line_def)
qed

end

lemma grep_line_Nil [simp]: "grep_line w fname [] = []"
  by (simp add: grep_line_def occurs_def)

lemma grep_text_last: "10 \<notin> set T \<Longrightarrow> grep_text w fname T = grep_line w fname T"
  by (cases "T = []") (simp_all add: grep_text_simps)

context user_system
begin

text \<open>
  The loop over the buffered lines: what it printed and the \<open>tail\<close> it leaves at the front of the buffer
  stand for the text \<open>T\<close> it was given, whatever \<open>rest\<close> of the file follows, unless the buffer was
  full without a newline.
\<close>

lemma grep_lines_step_last:
  assumes "data = pre @ T @ x # post" and "length data = 1025" and "0 \<notin> set T" and "10 \<notin> set T"
    and "x \<noteq> 10" and "cnt \<noteq> 0" and "pre \<noteq> []"
  shows "grep_lines c str fname n cnt data (length pre + length T) (length pre) s =
    Some (T @ 0 # drop (Suc (length T)) (pre @ T @ 0 # post), length T, s)"
proof -
  let ?d = "pre @ T @ 0 # post"
  have le: "line_end_from data (length pre + length T) (length pre) = Some (length pre + length T)"
    using assms(1,4) by (intro line_end_from_eq) auto
  have w: "wr data (length pre + length T) 0 = Some ?d" using assms(1) by (simp add: list_update_append)
  have "drop (length pre) ?d = T @ 0 # post" by simp
  then have "ece391_strcpy ?d 0 (length pre) = Some (T @ 0 # drop (Suc (length T)) ?d)"
    using ece391_strcpy_down [of "length pre" ?d 0] assms(3) by simp
  then show ?thesis
    using le w assms by (subst grep_lines.simps) (simp add: nth_append)
qed

lemma grep_lines_step_search:
  assumes "data = pre @ l @ x # post" and "length data = 1025" and "0 \<notin> set l" and "10 \<notin> set l" and "ok s"
    and "length pre + length l \<le> lst" and "x = 10 \<or> length pre + length l = lst" and "lst \<le> 1024"
    and "\<not> (x \<noteq> 10 \<and> cnt \<noteq> 0 \<and> pre \<noteq> [])"
    and "0 \<in> set str" and "ascii_word (cstr str)" and "0 \<in> set fname"
  shows "\<exists>t. grep_lines c str fname (length (cstr str)) cnt data lst (length pre) s =
      (if lst \<le> Suc (length pre + length l) then Some (pre @ l @ 0 # post, 0, t)
       else grep_lines c str fname (length (cstr str)) cnt (pre @ l @ 0 # post) lst (Suc (length pre + length l)) t)
    \<and> ok t \<and> fds t = fds s \<and> args t = args s \<and> screen t = fold put (grep_line (cstr str) (cstr fname) l) (screen s)"
proof -
  let ?d = "pre @ l @ 0 # post"
  have le: "line_end_from data lst (length pre) = Some (length pre + length l)"
    using assms(1,2,4,6-8) by (intro line_end_from_eq) (auto simp: nth_append)
  have w: "wr data (length pre + length l) 0 = Some ?d" using assms(1) by (simp add: list_update_append)
  from search_line_spec [OF refl assms(3,10,11,12,5), of pre post] obtain t where
    t: "search_line c str fname (length (cstr str)) ?d (length pre) (length pre + length l) (length pre) s = Some t"
    "ok t" "fds t = fds s" "args t = args s" "screen t = fold put (grep_line (cstr str) (cstr fname) l) (screen s)" by blast
  have "grep_lines c str fname (length (cstr str)) cnt data lst (length pre) s =
      (if lst \<le> Suc (length pre + length l) then Some (?d, 0, t)
       else grep_lines c str fname (length (cstr str)) cnt ?d lst (Suc (length pre + length l)) t)"
    using le w t(1) assms(1,2,9) by (subst grep_lines.simps) (auto simp: nth_append Let_def)
  then show ?thesis using t(2-) by blast
qed

end

text \<open>The buffer between two reads: \<open>tail\<close>, an incomplete line, is at its front.\<close>

definition kept :: "u8 list \<Rightarrow> u8 list \<Rightarrow> bool" where
  "kept tail data \<longleftrightarrow> length data = 1025 \<and> data ! 1024 \<noteq> 10 \<and> take (length tail) data = tail \<and> length tail < 1024
     \<and> 0 \<notin> set tail \<and> 10 \<notin> set tail"

lemma keep_guard:
  fixes data :: "u8 list"
  assumes "data = pre @ l @ x # post" and "length data = 1025" and "data ! 1024 \<noteq> 10"
  shows "(pre @ l @ 0 # post) ! 1024 \<noteq> 10" and "length (pre @ l @ 0 # post) = 1025"
proof -
  have "pre @ l @ 0 # post = data[length pre + length l := 0]" using assms(1) by (simp add: list_update_append)
  moreover have "(data[length pre + length l := 0]) ! 1024 \<noteq> 10"
    using assms(2,3) by (cases "length pre + length l = 1024") simp_all
  ultimately show "(pre @ l @ 0 # post) ! 1024 \<noteq> 10" by simp
  show "length (pre @ l @ 0 # post) = 1025" using assms(1,2) by simp
qed

lemma kept_down:
  assumes "data = pre @ T @ x # post" and "length data = 1025" and "data ! 1024 \<noteq> 10" and "0 \<notin> set T" "10 \<notin> set T"
    and "pre \<noteq> []" and "length pre + length T \<le> 1024"
  shows "kept T (T @ 0 # drop (Suc (length T)) (pre @ T @ 0 # post))"
proof -
  have "length T < 1024" using assms(6,7) by (cases pre) auto
  moreover have "kept T (T @ 0 # drop (Suc (length T)) D)" if "length D = 1025" "D ! 1024 \<noteq> 10" "length T < 1024" for D
  proof -
    have "(T @ 0 # drop (Suc (length T)) D) ! 1024 = D ! 1024" using that by (auto simp: nth_append nth_Cons')
    with that assms(4,5) show ?thesis by (simp add: kept_def)
  qed
  ultimately show ?thesis using keep_guard [OF assms(1-3)] by blast
qed

context user_system
begin

lemma grep_lines_spec:
  assumes "data = pre @ T @ post" and "length data = 1025" and "length pre + length T \<le> 1024" and "0 \<notin> set T" and "ok s"
    and "T \<noteq> [] \<or> pre = []" and "data ! 1024 \<noteq> 10"
    and "rest = [] \<or> cnt \<noteq> 0 \<and> length pre + length T = 1024 \<and> (pre = [] \<longrightarrow> 10 \<in> set T)"
    and str: "0 \<in> set str" "ascii_word (cstr str)" "0 \<in> set fname"
  shows "\<exists>data' tail out t.
    grep_lines c str fname (length (cstr str)) cnt data (length pre + length T) (length pre) s = Some (data', length tail, t)
    \<and> ok t \<and> fds t = fds s \<and> args t = args s \<and> screen t = fold put out (screen s)
    \<and> kept tail data' \<and> (cnt = 0 \<longrightarrow> tail = []) \<and> (\<exists>U. T = U @ tail)
    \<and> grep_text (cstr str) (cstr fname) (T @ rest) = out @ grep_text (cstr str) (cstr fname) (tail @ rest)"
  using assms(1-8)
proof (induction "length T" arbitrary: data pre T s rule: less_induct)
  case less
  let ?g = "grep_text (cstr str) (cstr fname)" and ?lst = "length pre + length T"
  show ?case
  proof (cases T rule: text_cases)
    case (nl l xs)
    have dat: "data = pre @ l @ 10 # xs @ post" using less.prems(1) nl by simp
    have z: "0 \<notin> set l" "0 \<notin> set xs" using less.prems(4) nl by auto
    let ?d = "pre @ l @ 0 # xs @ post" and ?o = "grep_line (cstr str) (cstr fname) l"
    note d = keep_guard [OF dat less.prems(2,7)]
    from grep_lines_step_search [OF dat less.prems(2) z(1) nl(2) less.prems(5), of ?lst cnt str fname] nl(1) less.prems(3) str
    obtain t where t: "grep_lines c str fname (length (cstr str)) cnt data ?lst (length pre) s =
      (if ?lst \<le> Suc (length pre + length l) then Some (?d, 0, t)
       else grep_lines c str fname (length (cstr str)) cnt ?d ?lst (Suc (length pre + length l)) t)"
      "ok t" "fds t = fds s" "args t = args s" "screen t = fold put ?o (screen s)"
      by auto
    show ?thesis
    proof (cases "xs = []")
      case True
      then show ?thesis using t d nl by (intro exI [of _ ?d] exI [of _ "[]"] exI [of _ ?o] exI [of _ t])
          (simp add: grep_text_simps kept_def)
    next
      case False
      have "length xs < length T" "?d = (pre @ l @ [0]) @ xs @ post" "length (pre @ l @ [0]) + length xs \<le> 1024"
        "rest = [] \<or> cnt \<noteq> 0 \<and> length (pre @ l @ [0]) + length xs = 1024 \<and> (pre @ l @ [0] = [] \<longrightarrow> 10 \<in> set xs)"
        using less.prems(3,8) nl(1) by auto
      with less.hyps [of xs ?d "pre @ l @ [0]" t] obtain data' tail out u where
        u: "grep_lines c str fname (length (cstr str)) cnt ?d (length (pre @ l @ [0]) + length xs) (length (pre @ l @ [0])) t = Some (data', length tail, u)"
        "ok u" "fds u = fds t" "args u = args t" "screen u = fold put out (screen t)" "kept tail data'"
        "cnt = 0 \<longrightarrow> tail = []" "\<exists>U. xs = U @ tail" "?g (xs @ rest) = out @ ?g (tail @ rest)"
        using d z(2) t(2) False by blast
      have "?lst = length (pre @ l @ [0]) + length xs" "\<not> ?lst \<le> Suc (length pre + length l)" using nl(1) False by simp_all
      then have "grep_lines c str fname (length (cstr str)) cnt data ?lst (length pre) s = Some (data', length tail, u)"
        using t(1) u(1) by (simp add: add.assoc)
      moreover have "?g (T @ rest) = (?o @ out) @ ?g (tail @ rest)" using nl u(9) by (simp add: grep_text_simps)
      moreover have "\<exists>U. T = U @ tail" using nl(1) u(8) by (metis append.assoc append_Cons)
      ultimately show ?thesis using u t(2-) by (intro exI [of _ data'] exI [of _ tail] exI [of _ "?o @ out"] exI [of _ u]) simp
    qed
  next
    case last
    obtain x post' where post: "post = x # post'" using less.prems(1-3) by (cases post) auto
    have dat: "data = pre @ T @ x # post'" using less.prems(1) post by simp
    show ?thesis
    proof (cases "x \<noteq> 10 \<and> cnt \<noteq> 0 \<and> pre \<noteq> []")
      case True
      then show ?thesis
        using grep_lines_step_last [OF dat less.prems(2,4) last, of cnt str fname "length (cstr str)" s]
          kept_down [OF dat less.prems(2,7,4) last _ less.prems(3)] less.prems(5)
        by (intro exI [of _ "T @ 0 # drop (Suc (length T)) (pre @ T @ 0 # post')"] exI [of _ T] exI [of _ "[]"] exI [of _ s]) simp
    next
      case False
      have r: "rest = []"
      proof (rule ccontr)
        assume "rest \<noteq> []"
        with less.prems(8) have c: "cnt \<noteq> 0" "?lst = 1024" "pre \<noteq> []" using last by auto
        then have "x = data ! 1024" using dat by (simp add: nth_append flip: c(2))
        with False c less.prems(7) show False by simp
      qed
      from grep_lines_step_search [OF dat less.prems(2,4) last less.prems(5), of ?lst cnt str fname] less.prems(3) False str
      obtain t where "grep_lines c str fname (length (cstr str)) cnt data ?lst (length pre) s = Some (pre @ T @ 0 # post', 0, t)"
        "ok t" "fds t = fds s" "args t = args s" "screen t = fold put (grep_line (cstr str) (cstr fname) T) (screen s)"
        by auto
      then show ?thesis
        using keep_guard [OF dat less.prems(2,7)] last r
        by (intro exI [of _ "pre @ T @ 0 # post'"] exI [of _ "[]"] exI [of _ "grep_line (cstr str) (cstr fname) T"] exI [of _ t])
          (simp add: grep_text_last grep_text_simps kept_def)
    qed
  qed
qed

end

text \<open>Any 1024 bytes in a row contain a newline: every line fits into the buffer.\<close>

definition short_lines :: "u8 list \<Rightarrow> bool" where
  "short_lines xs \<longleftrightarrow> list_all (\<lambda>i. 10 \<in> set (take 1024 (drop i xs))) [0..<Suc (length xs) - 1024]"

lemma short_lines_append: "short_lines (xs @ ys) \<Longrightarrow> short_lines ys"
  unfolding short_lines_def list_all_iff
proof (intro ballI)
  fix i
  assume a: "\<forall>i\<in>set [0..<Suc (length (xs @ ys)) - 1024]. 10 \<in> set (take 1024 (drop i (xs @ ys)))" and i: "i \<in> set [0..<Suc (length ys) - 1024]"
  from i have "length xs + i \<in> set [0..<Suc (length (xs @ ys)) - 1024]" by auto
  with a have "10 \<in> set (take 1024 (drop (length xs + i) (xs @ ys)))" by blast
  then show "10 \<in> set (take 1024 (drop i ys))" by simp
qed

lemma short_lines_full: "short_lines xs \<Longrightarrow> 1024 \<le> length xs \<Longrightarrow> 10 \<in> set (take 1024 xs)"
  by (auto simp: short_lines_def list_all_iff dest: bspec [where x = 0])

context user_system
begin

lemma grep_reads_spec:
  assumes "ok s" and "fds s fd = Some (File F p)" and "p \<le> length F" and "0 \<notin> set F" and "kept tail data"
    and "short_lines (tail @ drop p F)"
    and str: "0 \<in> set str" "ascii_word (cstr str)" "0 \<in> set fname"
  shows "\<exists>t. grep_reads c str fname (length (cstr str)) fd data (length tail) s = Some (None, t) \<and> ok t
    \<and> fds t = (fds s)(fd \<mapsto> File F (length F)) \<and> args t = args s
    \<and> screen t = fold put (grep_text (cstr str) (cstr fname) (tail @ drop p F)) (screen s)"
  using assms(1-6)
proof (induction "length F - p" arbitrary: p tail data s rule: less_induct)
  case less
  let ?g = "grep_text (cstr str) (cstr fname)"
  obtain n where n: "n = 1024 - length tail" by blast
  let ?r = "min n (length F - p)"
  let ?T = "tail @ take ?r (drop p F)" and ?rest = "drop (p + ?r) F"
  let ?d = "?T @ drop ?r (drop (length tail) data)"
  have k: "length data = 1025" "data ! 1024 \<noteq> 10" "take (length tail) data = tail" "length tail < 1024" "0 \<notin> set tail"
    using less.prems(5) by (simp_all add: kept_def)
  have nn: "int 1024 - int (length tail) = int n" "n \<le> 1024" "0 < n" "length tail + n = 1024" using k(4) n by simp_all
  have rp: "0 \<le> int n" "int n < 2 ^ 31" "nat (int n) \<le> length (drop (length tail) data)" "?r = min (nat (int n)) (length F - p)"
    using nn(2,4) k(1) by simp_all
  from read_file [OF less.prems(1,2) rp] obtain s1 where
    s1: "ece391_read c fd (drop (length tail) data) (int 1024 - int (length tail)) s =
      Some (int ?r, take ?r (drop p F) @ drop ?r (drop (length tail) data), s1)"
    "ok s1" "fds s1 = (fds s)(fd \<mapsto> File F (p + ?r))" "args s1 = args s" "screen s1 = screen s"
    unfolding nn by blast
  have lT: "length ?T = length tail + ?r" using less.prems(3) by simp
  have len: "length ?d = 1025" "?d ! 1024 \<noteq> 10" using k(1,2) lT nn(4) less.prems(3) by (auto simp: nth_append)
  have z: "0 \<notin> set ?T" using k(5) less.prems(4) by (auto dest!: in_set_takeD in_set_dropD)
  have split: "tail @ drop p F = ?T @ ?rest" by (metis append.assoc append_take_drop_id drop_drop add.commute)
  have rest: "?rest = [] \<or> int ?r \<noteq> 0 \<and> length [] + length ?T = 1024 \<and> ([] = [] \<longrightarrow> 10 \<in> set ?T)"
  proof (cases "length F - p \<le> n")
    case False
    then have "length ?T = 1024" "?r \<noteq> 0" using lT nn by simp_all
    moreover from this have "take 1024 (tail @ drop p F) = ?T" unfolding split by simp
    ultimately show ?thesis using short_lines_full [OF less.prems(6)] False by simp
  qed simp
  have prem: "?d = [] @ ?T @ drop ?r (drop (length tail) data)" "length ([] :: u8 list) + length ?T \<le> 1024"
    "?T \<noteq> [] \<or> [] = ([] :: u8 list)" using lT nn(4) by simp_all
  from grep_lines_spec [OF prem(1) len(1) prem(2) z s1(2) prem(3) len(2) rest str, unfolded list.size add_0_left] obtain data' tail' out u where
    u: "grep_lines c str fname (length (cstr str)) (int ?r) ?d (length ?T) 0 s1 = Some (data', length tail', u)"
    "ok u" "fds u = fds s1" "args u = args s1" "screen u = fold put out (screen s1)" "kept tail' data'" "int ?r = 0 \<longrightarrow> tail' = []"
    "\<exists>U. ?T = U @ tail'" "?g (?T @ ?rest) = out @ ?g (tail' @ ?rest)"
    by blast
  show ?case
  proof (cases "?r = 0")
    case True
    have "?rest = []" using True nn(3) less.prems(3) by auto
    then have "fold put (?g (tail @ drop p F)) (screen s) = screen u"
      unfolding split u(9) using u(5,7) s1(5) True by (simp add: grep_text_simps)
    moreover have "p = length F" using True nn(3) less.prems(3) by auto
    moreover have "grep_reads c str fname (length (cstr str)) fd data (length tail) s = Some (None, u)"
      using s1(1) u(1) k(3) lT True by (subst grep_reads.simps) simp
    ultimately show ?thesis using u s1 less.prems(2) True by auto
  next
    case False
    have "length F - (p + ?r) < length F - p" using False by linarith
    moreover have "fds u fd = Some (File F (p + ?r))" "p + ?r \<le> length F" using u(3) s1(3) less.prems(3) by simp_all
    moreover have "short_lines (tail' @ ?rest)"
      using less.prems(6) u(8) unfolding split by (metis append.assoc short_lines_append)
    ultimately obtain v where
      v: "grep_reads c str fname (length (cstr str)) fd data' (length tail') u = Some (None, v)" "ok v"
      "fds v = (fds u)(fd \<mapsto> File F (length F))" "args v = args u" "screen v = fold put (?g (tail' @ ?rest)) (screen u)"
      using less.hyps [of "p + ?r" u tail' data'] u(2,6) less.prems(4) by blast
    have "grep_reads c str fname (length (cstr str)) fd data (length tail) s = Some (None, v)"
      using s1(1) u(1) v(1) k(3) lT by (subst grep_reads.simps) (simp add: False)
    moreover have "screen v = fold put (?g (tail @ drop p F)) (screen s)"
      unfolding split u(9) using v(5) u(5) s1(5) by simp
    ultimately show ?thesis using v u s1 by auto
  qed
qed

end

section \<open>A file and the whole image\<close>

definition text_stream :: "stream option \<Rightarrow> bool" where
  "text_stream x \<longleftrightarrow> (case x of Some (File F p) \<Rightarrow> p = 0 \<and> 0 \<notin> set F \<and> short_lines F | _ \<Rightarrow> False)"

definition stream_text :: "stream option \<Rightarrow> u8 list" where
  "stream_text x = (case x of Some (File F p) \<Rightarrow> F | _ \<Rightarrow> [])"

definition buffer_ok :: "u8 list \<Rightarrow> bool" where
  "buffer_ok data \<longleftrightarrow> length data = 1025 \<and> data ! 1024 \<noteq> 10"

definition dotted :: "u8 list \<Rightarrow> bool" where
  "dotted w \<longleftrightarrow> w ! 0 = of_char CHR ''.''"

definition grep_image :: "(u8 list \<Rightarrow> stream option) \<Rightarrow> u8 list \<Rightarrow> u8 list list \<Rightarrow> u8 list" where
  "grep_image look w ws = concat (map (\<lambda>n. if dotted n then [] else grep_text w n (stream_text (look n))) ws)"

lemma grep_image_simps [simp]:
  "grep_image look w [] = []"
  "grep_image look w (n # ws) = (if dotted n then [] else grep_text w n (stream_text (look n))) @ grep_image look w ws"
  by (simp_all add: grep_image_def)

context user_system
begin

lemma do_one_file_prints:
  assumes "ok s" and "buffer_ok data" and str: "0 \<in> set str" "ascii_word (cstr str)" "0 \<in> set fname"
    and "text_stream (lookup (cstr fname))" and "2 \<le> d" "d < 8" "fds s d = None"
  shows "\<exists>t. do_one_file c data str fname s = Some (0, t) \<and> ok t \<and> fds t = fds s \<and> args t = args s
    \<and> screen t = fold put (grep_text (cstr str) (cstr fname) (stream_text (lookup (cstr fname)))) (screen s)"
proof -
  from assms(6) obtain F where F: "lookup (cstr fname) = Some (File F 0)" "0 \<notin> set F" "short_lines F"
    by (auto simp: text_stream_def split: option.splits stream.splits)
  from open_found [OF assms(1,5) F(1) assms(7-9)] obtain fd s1 where
    1: "ece391_open c fname s = Some (fd, s1)" "2 \<le> fd" "fds s fd = None" "ok s1" "fds s1 = (fds s)(fd \<mapsto> File F 0)"
    "args s1 = args s" "screen s1 = screen s" by blast
  have k: "kept [] data" using assms(2) by (simp add: kept_def buffer_ok_def)
  have fd: "fds s1 fd = Some (File F 0)" using 1(5) by simp
  have sh: "short_lines ([] @ drop 0 F)" using F(3) by simp
  from grep_reads_spec [OF 1(4) fd le0 F(2) k sh str] obtain s2 where
    2: "grep_reads c str fname (length (cstr str)) fd data 0 s1 = Some (None, s2)" "ok s2"
    "fds s2 = (fds s1)(fd \<mapsto> File F (length F))" "args s2 = args s1"
    "screen s2 = fold put (grep_text (cstr str) (cstr fname) F) (screen s1)" by auto
  have "fds s2 fd = Some (File F (length F))" using 2(3) by simp
  from close_fd [OF 2(2) this] obtain t where
    t: "ece391_close c fd s2 = Some (0, t)" "ok t" "fds t = (fds s2)(fd := None)" "args t = args s2" "screen t = screen s2" by blast
  have "do_one_file c data str fname s = Some (0, t)"
    using 1(1,2) 2(1) t(1) str(1) by (simp add: do_one_file_def ece391_strlen_eq)
  moreover have "fds t = fds s" using t(3) 2(3) 1(3,5) by (auto simp: fun_eq_iff)
  ultimately show ?thesis using t 2 1 F(1) by (simp add: stream_text_def)
qed

lemma grep_files_prints:
  assumes "ok s" and "fds s fd = Some (Dir p)" and "p \<le> length names" and "length buf = 33"
    and "2 \<le> d" "d < 8" "fds s d = None"
    and "\<And>w. buffer_ok (data w)" and "0 \<in> set str" "ascii_word (cstr str)"
    and "list_all (\<lambda>n. dotted n \<or> text_stream (lookup n)) (takeWhile (\<lambda>w. w \<noteq> []) (drop p names))"
  shows "\<exists>t. grep_files c data str fd buf s = Some (0, t) \<and> ok t
    \<and> screen t = fold put (grep_image lookup (cstr str) (takeWhile (\<lambda>w. w \<noteq> []) (drop p names))) (screen s)"
  using assms(1-4,7,11)
proof (induction "length names - p" arbitrary: p s buf)
  case 0
  then have p: "\<not> p < length names" "drop p names = []" by simp_all
  from read_dir [OF 0(2,3), of 32 buf] 0(4,5) p obtain t where
    "ece391_read c fd buf 32 s = Some (0, buf, t)" "ok t" "screen t = screen s" by auto
  then show ?case by (subst grep_files.simps) (simp add: p)
next
  case (Suc k)
  let ?w = "names ! p"
  have p: "p < length names" using Suc.hyps(2) by simp
  then have d: "drop p names = ?w # drop (Suc p) names" by (simp add: Cons_nth_drop_Suc)
  have wl: "length ?w \<le> 32" "0 \<notin> set ?w" using p by (auto intro: name_length simp: name_no_nul)
  let ?b = "?w @ replicate (32 - length ?w) 0 @ drop 32 buf"
  from read_dir [OF Suc.prems(1,2), of 32 buf] Suc.prems(3,4) p obtain t where
    t: "ece391_read c fd buf 32 s = Some (int (length ?w), ?b, t)" "ok t" "fds t = (fds s)(fd \<mapsto> Dir (Suc p))" "screen t = screen s"
    by auto
  have len: "length ?b = 33" using wl Suc.prems(4) by simp
  have k: "k = length names - Suc p" "Suc p \<le> length names" using Suc.hyps(2) p by simp_all
  have td: "fds t fd = Some (Dir (Suc p))" "fds t d = None" using t(3) Suc.prems(2,5) by auto
  show ?case
  proof (cases "?w = []")
    case True
    then show ?thesis using t d by (subst grep_files.simps) simp
  next
    case False
    have b0: "rd ?b 0 = Some (?w ! 0)" using False len by (simp add: nth_append)
    have all: "dotted ?w \<or> text_stream (lookup ?w)"
      "list_all (\<lambda>n. dotted n \<or> text_stream (lookup n)) (takeWhile (\<lambda>w. w \<noteq> []) (drop (Suc p) names))"
      using Suc.prems(6) False unfolding d by simp_all
    show ?thesis
    proof (cases "dotted ?w")
      case True
      from Suc.hyps(1) [OF k(1) t(2) td(1) k(2) len td(2) all(2)] obtain v where
        v: "grep_files c data str fd ?b t = Some (0, v)" "ok v"
        "screen v = fold put (grep_image lookup (cstr str) (takeWhile (\<lambda>w. w \<noteq> []) (drop (Suc p) names))) (screen t)" by blast
      have "grep_files c data str fd buf s = Some (0, v)"
        using t(1) b0 v(1) False True by (subst grep_files.simps) (simp add: dotted_def)
      then show ?thesis using v(2,3) t(4) True False unfolding d by simp
    next
      case nd: False
      let ?c = "?b[length ?w := 0]"
      have w: "wr ?b (length ?w) 0 = Some ?c" using len wl by (intro wr_Some) linarith
      have c: "?c = ?w @ 0 # drop (Suc (length ?w)) ?b" using len wl by (simp add: upd_conv_take_nth_drop)
      have z: "0 \<in> set ?c" "cstr ?c = ?w" unfolding c using wl(2) by simp_all
      have lc: "length ?c = 33" using len by simp
      have "text_stream (lookup (cstr ?c))" using all(1) nd z(2) by simp
      from do_one_file_prints [OF t(2) assms(8)[of ?c] assms(9,10) z(1) this assms(5,6) td(2)] obtain u where
        u: "do_one_file c (data ?c) str ?c t = Some (0, u)" "ok u" "fds u = fds t"
        "screen u = fold put (grep_text (cstr str) ?w (stream_text (lookup ?w))) (screen t)"
        unfolding z(2) by blast
      have ud: "fds u fd = Some (Dir (Suc p))" "fds u d = None" using td u(3) by simp_all
      from Suc.hyps(1) [OF k(1) u(2) ud(1) k(2) lc ud(2) all(2)] obtain v where
        v: "grep_files c data str fd ?c u = Some (0, v)" "ok v"
        "screen v = fold put (grep_image lookup (cstr str) (takeWhile (\<lambda>w. w \<noteq> []) (drop (Suc p) names))) (screen u)" by blast
      have "grep_files c data str fd buf s = Some (0, v)"
        using t(1) b0 w u(1) v(1) False nd by (subst grep_files.simps) (simp add: dotted_def)
      then show ?thesis using v(2,3) u(4) t(4) nd False unfolding d by simp
    qed
  qed
qed

lemma grep_prints:
  assumes "ok s" and "length search = 1024" and "length buf = 33" and "\<And>w. buffer_ok (data w)"
    and "2 \<le> d" "d < 8" "fds s d = None" "2 \<le> e" "e < 8" "fds s e = None" "d \<noteq> e"
    and "lookup (bytes ''.'') = Some (Dir 0)" and "ascii_word (args s)"
    and "list_all (\<lambda>n. dotted n \<or> text_stream (lookup n)) (takeWhile (\<lambda>w. w \<noteq> []) names)"
  shows "\<exists>t. grep c data search buf s = Some (0, t) \<and> ok t
    \<and> screen t = fold put (grep_image lookup (args s) (takeWhile (\<lambda>w. w \<noteq> []) names)) (screen s)"
proof -
  have a: "args s \<noteq> []" using assms(13) by (auto simp: ascii_word_def)
  have b: "128 \<le> length search" using assms(2) by simp
  from getargs [OF assms(1) b, of 1024] a obtain str s1 where
    1: "ece391_getargs c search 1024 s = Some (0, str, s1)" "0 \<in> set str" "cstr str = args s" "ok s1" "fds s1 = fds s" "screen s1 = screen s"
    by auto
  have "cstr (lit ''.'') = bytes ''.''" by (simp add: bytes_def)
  with open_found [OF 1(4), of "lit ''.''" "Dir 0" d] assms(5-7,12) 1(5) obtain fd s2 where
    2: "ece391_open c (lit ''.'') s1 = Some (fd, s2)" "2 \<le> fd" "fds s fd = None" "ok s2" "fds s2 = (fds s)(fd \<mapsto> Dir 0)" "screen s2 = screen s1" by auto
  have fd: "fds s2 fd = Some (Dir 0)" using 2(5) by simp
  have aw: "ascii_word (cstr str)" using assms(13) 1(3) by simp
  obtain g where g: "2 \<le> g" "g < 8" "fds s2 g = None"
    using assms(5-11) 2(5) by (cases "fd = d") auto
  have al: "list_all (\<lambda>n. dotted n \<or> text_stream (lookup n)) (takeWhile (\<lambda>w. w \<noteq> []) (drop 0 names))" using assms(14) by simp
  from grep_files_prints [where data = data, OF 2(4) fd le0 assms(3) g assms(4) 1(2) aw al] obtain t where
    t: "grep_files c data str fd buf s2 = Some (0, t)" "ok t"
    "screen t = fold put (grep_image lookup (cstr str) (takeWhile (\<lambda>w. w \<noteq> []) names)) (screen s2)" by auto
  have "grep c data search buf s = Some (0, t)" using 1(1) 2(1,2) t(1) by (simp add: grep_def)
  then show ?thesis using t 1 2 by simp
qed

end


section \<open>On the kernel\<close>

text \<open>
  C10: \<open>grep\<close> on the kernel. On an image of text files (no NUL bytes, no 1024 bytes without a newline) a
  process with two free descriptors and an ASCII search string prints, file by file and in the order of the
  lines, every line that contains the string after the file's name and a colon, and exits with 0; the lines that
  straddle two reads of the 1024-byte buffer are found like the others. Names that begin with a dot are skipped.
\<close>

theorem grep_prints_matching_lines:
  assumes "process_ok E f p K I st" and "length search = 1024" and "length buf = 33" and "\<And>w. buffer_ok (data w)"
    and "2 \<le> d" "d < 8" "process_fds f p st d = None" "2 \<le> e" "e < 8" "process_fds f p st e = None" "d \<noteq> e"
    and "image_lookup f (bytes ''.'') = Some (Dir 0)" and "ascii_word (process_args p st)"
    and "list_all (\<lambda>n. dotted n \<or> text_stream (image_lookup f n)) (takeWhile (\<lambda>w. w \<noteq> []) (image_names f))"
  shows "\<exists>t. grep (kernel_calls E) data search buf st = Some (0, t) \<and> process_ok E f p K I t
    \<and> console_of t = fold putc (grep_image (image_lookup f) (process_args p st) (takeWhile (\<lambda>w. w \<noteq> []) (image_names f)))
        (console_of st)"
  using assms by (rule kernel_user.grep_prints)

lemma lines_of_poem: "lines_of poem = [bytes ''fish'', bytes ''sea'']"
  using lines_of_newline [of "bytes ''fish''" "bytes ''sea'' @ [10]"] lines_of_newline [of "bytes ''sea''" "[]"]
  by (simp add: poem_def bytes_def)

theorem grep_prints_matching_lines_witness:
  "\<exists>t. grep (kernel_calls poem_env) (\<lambda>_. replicate 1025 0) (replicate 1024 0) (replicate 33 0) (poem_state ''se'') = Some (0, t)
    \<and> console_of t = fold putc (bytes ''poem:sea'' @ [10]) (console_of (poem_state ''se''))"
proof -
  have t: "text_stream (image_lookup poem_fs (bytes ''poem''))" "text_stream (image_lookup poem_fs (bytes ''cat''))"
    by (simp_all add: poem_lookup text_stream_def short_lines_def poem_length) (simp_all add: poem_def cat_elf_def bytes_def)
  have a: "process_args 0 (poem_state ''se'') = bytes ''se''" "ascii_word (bytes ''se'')"
    by (simp_all add: poem_args bytes_def ascii_word_def)
  have d: "dotted (bytes ''.'')" "\<not> dotted (bytes ''poem'')" "\<not> dotted (bytes ''cat'')" by (simp_all add: dotted_def bytes_def)
  have n: "takeWhile (\<lambda>w. w \<noteq> []) (image_names poem_fs) = [bytes ''.'', bytes ''poem'', bytes ''cat'']" by (simp add: poem_names bytes_def)
  have l: "lines_of cat_elf = [cat_elf]" by (intro lines_of_last) (simp_all add: cat_elf_def)
  have "grep_line (bytes ''se'') n (bytes ''fish'') = []" "grep_line (bytes ''se'') n (bytes ''sea'') = n @ bytes '':sea'' @ [10]" for n
    by (simp_all add: grep_line_def occurs_def bytes_def upt_conv_Cons)
  moreover have "\<not> occurs (bytes ''se'') cat_elf"
  proof -
    have "115 \<notin> set cat_elf" by (simp add: cat_elf_def)
    moreover have "115 \<in> set cat_elf" if "take 2 (drop i cat_elf) = [115, 101]" for i
      using that in_set_takeD in_set_dropD by (metis list.set_intros(1))
    ultimately show ?thesis by (auto simp: occurs_def list_ex_iff bytes_def numeral_2_eq_2)
  qed
  ultimately have g: "grep_image (image_lookup poem_fs) (bytes ''se'') [bytes ''.'', bytes ''poem'', bytes ''cat''] = bytes ''poem:sea'' @ [10]"
    using d by (simp add: stream_text_def poem_lookup grep_text_def lines_of_poem l grep_line_def [of _ _ cat_elf]) (simp add: bytes_def)
  show ?thesis
    using grep_prints_matching_lines [of poem_env poem_fs 0 "rest_of 0 (snd (poem_state ''se''))" Anything "poem_state ''se''" "replicate 1024 0" "replicate 33 0" "\<lambda>_. replicate 1025 0" 2 3]
      poem_ok [of "''se''"] poem_free [of 2 "''se''"] poem_free [of 3 "''se''"] poem_lookup(1) t d
    unfolding a(1) n g by (auto simp: buffer_ok_def a(2))
qed

end
