(* ===== verification/User_Run.thy ===== *)
theory User_Run
  imports User_Grep
begin

text \<open>
  Running a program from another: what \<open>ece391_execute\<close> does for its caller when the started program is
  one whose behaviour is known. It joins \<open>sys_execute\<close>, the program's own calls, and \<open>sys_halt\<close>.
\<close>

section \<open>What starting and halting leave alone\<close>

lemma truncate_exec [simp]:
  "terminal.truncate (exec_pcb i s) = terminal.truncate s" "terminal.truncate (set_program_page q s) = terminal.truncate s"
  "terminal.truncate (s\<lparr>frame_at := m\<rparr>) = terminal.truncate (s :: 'a kernel_scheme)"
  "terminal.truncate (s\<lparr>processes := ps\<rparr>) = terminal.truncate s" "terminal.truncate (upd_pcb a g s) = terminal.truncate s"
  by (simp_all add: terminal.defs exec_pcb_def upd_pcb_def Let_def set_program_page_def)

lemma ops_table_exec [simp]:
  "ops_table (exec_pcb i s) = ops_table s" "ops_table (set_program_page q s) = ops_table s" "ops_table (upd_pcb a g s) = ops_table s"
  by (simp_all add: exec_pcb_def upd_pcb_def Let_def set_program_page_def)

lemma ops_inited: "ops_table s = ops_table (sys_init s) \<Longrightarrow> ops_table t = ops_table s \<Longrightarrow> ops_table t = ops_table (sys_init t)"
proof -
  assume a: "ops_table s = ops_table (sys_init s)" "ops_table t = ops_table s"
  have "ops_table (sys_init t) = ops_table (sys_init s)" using a(2) by (simp add: sys_init_def)
  then show ?thesis by (simp only: a(2) a(1) [symmetric])
qed

lemma sys_execute_keeps:
  assumes "sys_execute hb eb (Some command) s = Inr (Exec_enter e, t)"
  shows "terminal.truncate t = terminal.truncate s" "ops_table t = ops_table s" "fs t = fs s"
proof -
  let ?i = "free_slot (processes s) 0"
  from assms obtain ab s0 s1 and d :: dentry where
    prep: "exec_prepare command ?i (s\<lparr>processes := (processes s)[?i := 1]\<rparr>) = Some (ab, s0)"
    and load: "exec_load (inode_num d) ?i s0 = Some s1" and t: "t = exec_pcb ?i s1"
    by (auto simp: sys_execute_def Let_def bind_eq_Some_conv split: if_splits option.splits)
  from prep have s0: "terminal.truncate s0 = terminal.truncate s" "ops_table s0 = ops_table s" "fs s0 = fs s"
    by (auto simp: exec_prepare_def Let_def bind_eq_Some_conv)
  from load have s1: "terminal.truncate s1 = terminal.truncate s0" "ops_table s1 = ops_table s0" "fs s1 = fs s0"
    by (auto simp: exec_load_def Let_def bind_eq_Some_conv)
  show "terminal.truncate t = terminal.truncate s" "ops_table t = ops_table s" "fs t = fs s"
    by (simp_all add: t s0 s1)
qed

lemma sys_halt_keeps:
  assumes "sys_halt hb eb status u = Inr (Halt_resume r, v)" and "get_pcb u \<noteq> 0" and "proc_num (cur_pcb u) \<noteq> 0"
  shows "terminal.truncate v = terminal.truncate u" "ops_table v = ops_table u" "fs v = fs u" "frame_at v = frame_at u"
    "length (page_dir (paging v)) = length (page_dir (paging u))"
    "pcb_at v = (pcb_at u)(get_pcb u := (cur_pcb u)\<lparr>fd_arr := fold (\<lambda>i fds. fds[i := clear_fd]) [0..<8] (fd_arr (cur_pcb u))\<rparr>)"
proof -
  have v: "v = snd (halt_restore status (get_pcb u) (halt_close u))" using assms by (simp add: sys_halt_child)
  show "terminal.truncate v = terminal.truncate u" unfolding v
    by (simp add: halt_restore_def halt_close_def Let_def terminal.defs set_program_page_def upd_pcb_def)
  show "ops_table v = ops_table u" "fs v = fs u" "frame_at v = frame_at u"
    "length (page_dir (paging v)) = length (page_dir (paging u))" unfolding v
    by (simp_all add: halt_restore_def halt_close_def Let_def)
  show "pcb_at v = (pcb_at u)(get_pcb u := (cur_pcb u)\<lparr>fd_arr := fold (\<lambda>i fds. fds[i := clear_fd]) [0..<8] (fd_arr (cur_pcb u))\<rparr>)"
    unfolding v by (simp add: halt_restore_def halt_close_def Let_def upd_pcb_def del: upt_rec_numeral)
qed

section \<open>Running a program\<close>

text \<open>
  The argument the started process sees: the rest of the command line, or, without a space, whatever the
  control block of the slot still holds.
\<close>

definition passed_args :: "u8 list \<Rightarrow> nat \<Rightarrow> kernel \<Rightarrow> u8 list" where
  "passed_args command i s =
     (if length (command_word (cstr command)) < length (cstr command) then command_args (cstr command)
      else cstr (argument (pcb_at s (pcb_addr (int i)))))"

text \<open>A process that may start programs, and a slot whose descriptors are closed.\<close>

definition caller_ok :: "nat \<Rightarrow> kernel \<Rightarrow> bool" where
  "caller_ok p s \<longleftrightarrow> processes s ! 0 \<noteq> 0 \<and> processes s ! p \<noteq> 0 \<and> proc_num (pcb_at s (pcb_addr (int p))) = int p"

definition slot_clean :: "nat \<Rightarrow> kernel \<Rightarrow> bool" where
  "slot_clean i s \<longleftrightarrow> (let q = pcb_at s (pcb_addr (int i))
     in list_all (\<lambda>k. flags (fd_arr q ! k) = 0) [2..<8] \<and> 0 \<in> set (argument q))"

definition slot_ready :: "nat \<Rightarrow> kernel \<Rightarrow> bool" where
  "slot_ready i s \<longleftrightarrow> slot_clean i s \<and> length (argument (pcb_at s (pcb_addr (int i)))) = 128
     \<and> length (fd_arr (pcb_at s (pcb_addr (int i)))) = 8 \<and> length (frame_at s (program_frame (int i))) = 0x400000
     \<and> length (page_dir (paging s)) = 1024"

lemma fold_clear_fds: "length fds = 8 \<Longrightarrow> fold (\<lambda>i fds. fds[i := clear_fd]) [0..<8] fds = replicate 8 clear_fd"
  by (simp add: fold_list_array map_replicate_const del: upt_rec_numeral)

lemma startable_in_call [simp]: "startable command i k ino (in_call E s) = startable command i k ino s"
  by (simp add: startable_def)

lemma started_process:
  assumes "process_ok E f p K I (es, s)" and "startable command i k ino s" and "slot_clean i s"
    and "length (env_header E) = 40" "length (env_entry E) = 4"
  obtains e t where "sys_execute (env_header E) (env_entry E) (Some command) (in_call E s) = Inr (Exec_enter e, t)"
    and "e = le_word (take 4 (drop 24 (file_content f ino)))"
    and "process_ok E f i (rest_of i t) I (es, t)" and "process_args i (es, t) = passed_args command i s"
    and "\<And>d. process_fds f i (es, t) d = None"
    and "\<And>a. a \<noteq> pcb_addr (int i) \<Longrightarrow> pcb_at t a = pcb_at s a"
    and "length (page_dir (paging t)) = 1024" and "proc_num (pcb_at t (pcb_addr (int i))) = int i"
    and "length (frame_at t (program_frame (int i))) = 0x400000"
proof -
  let ?pa = "pcb_addr (int i)" and ?c = "cstr command" and ?u = "in_call E s"
  have st: "startable command i k ino ?u" using assms(2) by simp
  have d: "i < 6" "length (fd_arr (pcb_at s ?pa)) = 8" "length (argument (pcb_at s ?pa)) = 128" "length (page_dir (paging s)) = 1024"
    "length (command_args ?c) < 128"
    using assms(2) unfolding startable_def by blast+
  have fE: "fs s = f" "env_depth E \<le> 0x1000" "wf_image f" "ops_table s = ops_table (sys_init s)"
    using assms(1) by (simp_all add: process_ok_def Let_def)
  obtain s1 where
    ex: "sys_execute (env_header E) (env_entry E) (Some command) ?u = Inr (Exec_enter (le_word (take 4 (drop 24 (file_content f ino)))), exec_pcb i s1)"
    and fr: "frame_at s1 = (frame_at s)(program_frame (int i) :=
      take 0x48000 (frame_at s (program_frame (int i))) @ file_content f ino @ drop (0x48000 + length (file_content f ino)) (frame_at s (program_frame (int i))))"
    and pd: "page_dir (paging s1) = (page_dir (paging s))[32 := program_entry (int i)]"
    and pcb: "pcb_at s1 = (pcb_at s)(?pa := (pcb_at s ?pa)\<lparr>argument :=
      if length (command_word ?c) < length ?c then command_args ?c @ 0 # drop (Suc (length (command_args ?c))) (argument (pcb_at s ?pa))
      else argument (pcb_at s ?pa)\<rparr>)"
    by (rule sys_execute_startable [OF st assms(4,5), unfolded in_call_fields fE(1)]) (rule that; assumption)
  let ?t = "exec_pcb i s1"
  note keep = sys_execute_keeps [OF ex]
  have ops: "ops_table ?t = ops_table (sys_init ?t)" by (rule ops_inited [OF fE(4)], rule trans [OF keep(2)]) simp
  have fd: "length (fd_arr (pcb_at s1 ?pa)) = 8" using d(2) by (simp add: pcb)
  have nc: "0 \<notin> set (command_args ?c)"
    using nul_notin_cstr [of command] by (auto simp: command_args_def dest: in_set_dropD)
  have arg: "argument (pcb_at ?t ?pa) = argument (pcb_at s1 ?pa)" "length (argument (pcb_at s1 ?pa)) = 128" "0 \<in> set (argument (pcb_at s1 ?pa))"
    using d(3,5) assms(3) by (simp_all add: exec_pcb_new(5) pcb slot_clean_def Let_def)
  have fda: "length (fd_arr (pcb_at ?t ?pa)) = 8" "\<And>n. flags (fd_arr (pcb_at ?t ?pa) ! n) = flags (fd_arr (pcb_at s ?pa) ! n)"
    using fd pcb by (auto simp: exec_pcb_def Let_def nth_list_update)
  have pend: "pending I (es, ?t)" using pending_cong [OF keep(1)] assms(1) by (simp add: process_ok_def Let_def)
  have ok: "process_ok E f i (rest_of i ?t) I (es, ?t)"
    unfolding process_ok_def Let_def using fE d(1) fda(1) exec_pcb_new(7,8) [OF fd] ops arg keep(3) pend by simp
  have args: "process_args i (es, ?t) = passed_args command i s"
    using arg(1) nc by (simp add: process_args_def passed_args_def pcb)
  have free: "process_fds f i (es, ?t) d = None" for d
  proof -
    have "flags (fd_arr (pcb_at s ?pa) ! nat d) = 0" if "2 \<le> d" "d < 8"
    proof -
      have "nat d \<in> set [2..<8]" using that by (auto simp del: upt_rec_numeral)
      then show ?thesis using assms(3) unfolding slot_clean_def Let_def list_all_iff by blast
    qed
    then show ?thesis using fda(2) by (simp add: process_fds_def fd_stream_def)
  qed
  have "pcb_at ?t a = pcb_at s a" if "a \<noteq> ?pa" for a using that by (subst pcb_at_exec_pcb) (simp add: pcb)
  moreover have "length (page_dir (paging ?t)) = 1024" using pd d(4) by simp
  moreover have "length (frame_at ?t (program_frame (int i))) = 0x400000"
  proof -
    have "length (file_content f ino) \<le> 0x400000 - 0x48000" "length (frame_at s (program_frame (int i))) = 0x400000"
      using assms(2) fE(1) unfolding startable_def by blast+
    then show ?thesis by (simp add: fr)
  qed
  ultimately show ?thesis using that [OF ex refl ok args free] exec_pcb_new(1) [of i s1] by blast
qed

text \<open>The caller of a program that prints \<open>out\<close> and returns \<open>status\<close>.\<close>

lemma execute_runs:
  assumes caller: "process_ok E f p K I (es, s)" "caller_ok p s" and slot: "startable command i k ino s" "slot_clean i s"
    and bufs: "length (env_header E) = 40" "length (env_entry E) = 4"
    and main: "\<And>L st. process_ok E f i L I st \<Longrightarrow> process_args i st = passed_args command i s \<Longrightarrow> (\<And>d. process_fds f i st d = None) \<Longrightarrow>
      \<exists>t. env_run E (le_word (take 4 (drop 24 (file_content f ino)))) st = Some (status, t) \<and> process_ok E f i L J t
        \<and> console_of t = fold putc out (console_of st)"
  shows "\<exists>t. call_execute E command (es, s) = Some (status mod 256, t) \<and> process_ok E f p (rest_of p (snd t)) J t
    \<and> console_of t = fold putc out (console_of (es, s)) \<and> process_fds f p t = process_fds f p (es, s)
    \<and> process_args p t = process_args p (es, s) \<and> processes (snd t) = processes s
    \<and> pcb_at (snd t) (pcb_addr (int p)) = pcb_at s (pcb_addr (int p)) \<and> slot_ready i (snd t)"
proof -
  let ?u = "in_call E s"
  have p: "p < 6" "get_pcb ?u = pcb_addr (int p)" using caller(1) process_okD(1) [OF caller(1)] by (simp_all add: process_ok_def Let_def)
  have len: "length (processes s) = 6" and i: "i < 6" "i = free_slot (processes s) 0" using slot(1) unfolding startable_def by blast+
  have r: "runs (int p) ?u" using p caller(2) len by (simp add: runs_def caller_ok_def)
  have z: "processes ?u ! 0 \<noteq> 0" using caller(2) by (simp add: caller_ok_def)
  have "processes s ! i = 0" using free_slot_props [of 0 "processes s"] i by simp
  then have i0: "i \<noteq> 0" "i \<noteq> p" using caller(2) unfolding caller_ok_def by metis+
  have ne: "pcb_addr (int p) \<noteq> pcb_addr (int i)" using pcb_addr_inj [of "int i" "int p"] i(1) p(1) i0(2) by auto
  obtain e t where ex: "sys_execute (env_header E) (env_entry E) (Some command) ?u = Inr (Exec_enter e, t)"
    and e: "e = le_word (take 4 (drop 24 (file_content f ino)))"
    and t: "process_ok E f i (rest_of i t) I (es, t)" "process_args i (es, t) = passed_args command i s"
      "\<And>d. process_fds f i (es, t) d = None" "\<And>a. a \<noteq> pcb_addr (int i) \<Longrightarrow> pcb_at t a = pcb_at s a" "length (page_dir (paging t)) = 1024"
    and pn: "proc_num (pcb_at t (pcb_addr (int i))) = int i"
    and fr: "length (frame_at t (program_frame (int i))) = 0x400000"
    by (rule started_process [OF caller(1) slot bufs]) (rule that; assumption)
  from main [OF t(1-3)] obtain es1 u where
    run: "env_run E e (es, t) = Some (status, es1, u)" "process_ok E f i (rest_of i t) J (es1, u)"
    "console_of (es1, u) = fold putc out (console_of (es, t))" unfolding e by auto
  let ?h = "in_call E u"
  have rest: "processes u = processes t" "paging u = paging t" "frame_at u = frame_at t"
    "(pcb_at u)(pcb_addr (int i) := (pcb_at u (pcb_addr (int i)))\<lparr>fd_arr := []\<rparr>)
      = (pcb_at t)(pcb_addr (int i) := (pcb_at t (pcb_addr (int i)))\<lparr>fd_arr := []\<rparr>)"
    using run(2) by (simp_all add: process_ok_def Let_def rest_of_def)
  have q: "(pcb_at u (pcb_addr (int i)))\<lparr>fd_arr := []\<rparr> = (pcb_at t (pcb_addr (int i)))\<lparr>fd_arr := []\<rparr>"
    "\<And>a. a \<noteq> pcb_addr (int i) \<Longrightarrow> pcb_at u a = pcb_at t a"
    using fun_cong [OF rest(4)] by (metis fun_upd_apply)+
  have own: "proc_num (pcb_at u (pcb_addr (int i))) = proc_num (pcb_at t (pcb_addr (int i)))"
    "parent_proc_num (pcb_at u (pcb_addr (int i))) = parent_proc_num (pcb_at t (pcb_addr (int i)))"
    "esp (pcb_at u (pcb_addr (int i))) = esp (pcb_at t (pcb_addr (int i)))" "ebp (pcb_at u (pcb_addr (int i))) = ebp (pcb_at t (pcb_addr (int i)))"
    using q(1) by (cases "pcb_at u (pcb_addr (int i))"; cases "pcb_at t (pcb_addr (int i))"; simp)+
  have g: "get_pcb ?h = pcb_addr (int i)" "fs u = f" "ops_table u = ops_table (sys_init u)"
    using run(2) process_okD(1) [OF run(2)] by (simp_all add: process_ok_def Let_def)
  have gt: "get_pcb (t\<lparr>kernel_esp := tss_esp0 t\<rparr>) = pcb_addr (int i)"
    using t(1) get_pcb_esp0 [OF i(1), of t] by (simp add: process_ok_def Let_def)
  have m: "uint (word_of_int status :: u8) = status mod 256" by (simp add: uint_word_of_int)
  from execute_halt_round_trip [OF ex r z, of ?h "env_header E" "env_entry E" "word_of_int status"] obtain v where
    v: "sys_halt (env_header E) (env_entry E) (word_of_int status) ?h = Inr (Halt_resume (status mod 256), v)"
    "tss_esp0 v = EIGHTMB - EIGHTKB * of_nat p - 4" "pcb_at v (pcb_addr (int p)) = pcb_at u (pcb_addr (int p))" "processes v = processes s"
    using g(1) gt own rest t(5) unfolding m by auto
  have "get_pcb ?h \<noteq> 0" "proc_num (cur_pcb ?h) \<noteq> 0"
    using g(1) own(1) pn i0(1) i(1) pcb_addr_nonzero [of "int i"] by simp_all
  note keep = sys_halt_keeps [OF v(1) this]
  have same: "pcb_at v (pcb_addr (int p)) = pcb_at s (pcb_addr (int p))" using v(3) q(2) t(4) ne by metis
  have ops: "ops_table v = ops_table (sys_init v)" by (rule ops_inited [OF g(3)], rule trans [OF keep(2)]) simp
  have "slot_ready i v"
  proof -
    have q: "length (fd_arr (pcb_at u (pcb_addr (int i)))) = 8" "length (argument (pcb_at u (pcb_addr (int i)))) = 128"
      "0 \<in> set (argument (pcb_at u (pcb_addr (int i))))"
      using run(2) by (simp_all add: process_ok_def Let_def)
    have "pcb_at v (pcb_addr (int i)) = (pcb_at u (pcb_addr (int i)))\<lparr>fd_arr := replicate 8 clear_fd\<rparr>"
      using keep(6) fold_clear_fds [OF q(1)] by (simp add: g(1) del: upt_rec_numeral)
    moreover have "flags clear_fd = 0" by (simp add: clear_fd_def)
    ultimately show ?thesis using q(2,3) fr rest(2,3) t(5) keep(4,5) by (simp add: slot_ready_def slot_clean_def)
  qed
  moreover have pend: "pending J (es1, v)" using pending_cong [OF keep(1)] run(2) by (simp add: process_ok_def Let_def)
  moreover have "process_ok E f p (rest_of p v) J (es1, v)"
    using caller(1) same v(2) ops g(2) keep(3) pend unfolding process_ok_def Let_def by simp
  moreover have "console_of (es1, v) = fold putc out (console_of (es, s))"
    using truncate_terminal(1) [OF keep(1)] run(3) truncate_terminal(1) [OF sys_execute_keeps(1) [OF ex]] by (simp add: console_of_def)
  moreover have "call_execute E command (es, s) = Some (status mod 256, es1, v)"
    using ex run(1) v(1) by (simp add: call_execute_def call_result_def)
  ultimately show ?thesis
    using same v(4) by (auto simp: process_fds_def process_args_def fun_eq_iff)
qed

text \<open>The programs only use the calls of the kernel, not what \<open>ece391_execute\<close> would run.\<close>

lemma process_ok_env_run [simp]: "process_ok (E\<lparr>env_run := r\<rparr>) = process_ok E"
  by (simp add: fun_eq_iff process_ok_def)

text \<open>
  C8: a process runs \<open>cat\<close> on a file. When a process executes a command line that starts \<open>cat\<close> in a free slot
  with the name of a well-formed file, the call returns 0 to it, the bytes of the file are on the
  console, the process table and the caller's descriptors and arguments are what they were, and it can go on making calls.
\<close>

theorem execute_cat:
  assumes "process_ok E f p K I (es, s)" "caller_ok p s" and "startable command i k ino s" "slot_clean i s"
    and "length (env_header E) = 40" "length (env_entry E) = 4" and "length buf = 1024"
    and "passed_args command i s \<noteq> []" and "image_lookup f (passed_args command i s) = Some (File F 0)"
  shows "\<exists>t. call_execute (E\<lparr>env_run := \<lambda>_. cat (kernel_calls E) buf\<rparr>) command (es, s) = Some (0, t)
    \<and> console_of t = fold putc F (console_of (es, s)) \<and> process_ok E f p (rest_of p (snd t)) I t
    \<and> processes (snd t) = processes s \<and> process_fds f p t = process_fds f p (es, s) \<and> process_args p t = process_args p (es, s)"
proof -
  let ?E = "E\<lparr>env_run := \<lambda>_. cat (kernel_calls E) buf\<rparr>"
  have "\<exists>t. env_run ?E e st = Some (0, t) \<and> process_ok ?E f i L I t \<and> console_of t = fold putc F (console_of st)"
    if "process_ok ?E f i L I st" "process_args i st = passed_args command i s" "\<And>d. process_fds f i st d = None" for L st e
    using kernel_user.cat_prints(3) [of E f i L I st buf 2 F] that assms(7-9) by simp
  note main = this
  have a: "process_ok ?E f p K I (es, s)" "length (env_header ?E) = 40" "length (env_entry ?E) = 4" using assms(1,5,6) by simp_all
  have "\<exists>t. call_execute ?E command (es, s) = Some (0 mod 256, t) \<and> process_ok ?E f p (rest_of p (snd t)) I t
    \<and> console_of t = fold putc F (console_of (es, s)) \<and> process_fds f p t = process_fds f p (es, s)
    \<and> process_args p t = process_args p (es, s) \<and> processes (snd t) = processes s
    \<and> pcb_at (snd t) (pcb_addr (int p)) = pcb_at s (pcb_addr (int p)) \<and> slot_ready i (snd t)"
    by (rule execute_runs [OF a(1) assms(2-4) a(2,3)], rule main)
  then show ?thesis unfolding process_ok_env_run mod_0 by blast
qed

lemma poem_startable: "length w < 128 \<Longrightarrow> startable (bytes ''cat poem'' @ [0]) 1 2 1 (snd (poem_state w))"
proof -
  assume len: "length w < 128"
  let ?c = "bytes ''cat poem'' @ [0]"
  have c: "cstr ?c = bytes ''cat poem''" "0 \<in> set ?c" using cstr_append_nul [of "bytes ''cat poem''" "[]"] by (simp_all add: bytes_def)
  have w: "command_word (bytes ''cat poem'') = bytes ''cat''" "command_args (bytes ''cat poem'') = bytes ''poem''"
    by (simp_all add: command_word_def command_args_def bytes_def)
  have s: "processes (snd (poem_state w)) = [1, 0, 0, 0, 0, 0]" "length (page_dir (paging (snd (poem_state w)))) = 1024"
    "frame_at (snd (poem_state w)) = (\<lambda>_. replicate 0x400000 0)"
    by (simp_all add: poem_state_def sys_init_def)
  show ?thesis
    unfolding startable_def c(1) w s poem_state_fields poem_pcb_fields
    using len c(2) poem_find poem_wf(2) by (simp add: free_slot.simps poem_content poem_fs_facts poem_length cat_elf_def bytes_def)
qed

theorem execute_cat_witness:
  "\<exists>t. call_execute (poem_env\<lparr>env_run := \<lambda>_. cat (kernel_calls poem_env) (replicate 1024 0)\<rparr>) (bytes ''cat poem'' @ [0]) (poem_state []) = Some (0, t)
    \<and> console_of t = fold putc poem (console_of (poem_state []))"
proof -
  let ?s = "snd (poem_state [])" and ?c = "bytes ''cat poem'' @ [0]"
  have st: "poem_state [] = ([], ?s)" by (simp add: poem_state_def)
  have c: "cstr ?c = bytes ''cat poem''" using cstr_append_nul [of "bytes ''cat poem''" "[]"] by (simp add: bytes_def)
  have p: "passed_args ?c 1 ?s = bytes ''poem''"
    unfolding passed_args_def c by (simp add: command_word_def command_args_def bytes_def)
  have "caller_ok 0 ?s" by (simp add: caller_ok_def poem_state_fields) (simp add: poem_state_def sys_init_def poem_pcb_def)
  moreover have "slot_clean 1 ?s" by (simp add: slot_clean_def poem_state_fields poem_pcb_fields clear_fd_def)
  moreover have "length (env_header poem_env) = 40" "length (env_entry poem_env) = 4" by (simp_all add: poem_env_def)
  moreover have "bytes ''poem'' \<noteq> []" by (simp add: bytes_def)
  ultimately show ?thesis
    using execute_cat [of poem_env poem_fs 0 "rest_of 0 ?s" Anything "[]" ?s ?c 1 2 1 "replicate 1024 0" poem] poem_ok [of "[]"] st
      poem_startable [of "[]"] poem_lookup(2) unfolding p by (metis length_replicate list.size(3) zero_less_numeral)
qed

end
