(* ===== verification/User_Shell.thy ===== *)
theory User_Shell
  imports User_Run
begin

text \<open>
  The programs that talk to the user: \<open>hello\<close>, \<open>testprint\<close>, \<open>counter\<close> and the shell
  (\<^verbatim>\<open>src/syscalls/ece391hello.c\<close>, \<^verbatim>\<open>ece391testprint.c\<close>, \<^verbatim>\<open>ece391counter.c\<close>,
  \<^verbatim>\<open>ece391shell.c\<close>). The locale \<open>interactive_system\<close> adds the lines that are typed.
\<close>

section \<open>The programs\<close>

abbreviation apostrophe :: string where "apostrophe \<equiv> [CHR 0x27]"

definition testprint :: "'s syscalls \<Rightarrow> 's \<Rightarrow> (int \<times> 's) option" where
  "testprint c s =
     do {
       s \<leftarrow> ece391_fdputs c 1 (lit_ln ''Hello, if this ran, the program was correct. Yay!'') s;
       Some (0, s)
     }"

definition hello :: "'s syscalls \<Rightarrow> u8 list \<Rightarrow> 's \<Rightarrow> (int \<times> 's) option" where
  "hello c buf s =
     do {
       s \<leftarrow> ece391_fdputs c 1 (lit (''Hi, what'' @ apostrophe @ ''s your name? '')) s;
       (cnt, buf, s) \<leftarrow> ece391_read c 0 buf 1023 s;
       if cnt = -1 then
         do { s \<leftarrow> ece391_fdputs c 1 (lit_ln (''Can'' @ apostrophe @ ''t read name from keyboard.'')) s; Some (3, s) }
       else
         do {
           buf \<leftarrow> wr buf (nat cnt) 0;
           s \<leftarrow> ece391_fdputs c 1 (lit ''Hello, '') s;
           s \<leftarrow> ece391_fdputs c 1 buf s;
           Some (0, s)
         }
     }"

lemma counter_measure: "i < mx \<Longrightarrow> unat (mx - (i + 1)) < unat (mx - i)" for i mx :: u32
proof -
  assume "i < mx"
  then have "mx - i \<noteq> 0" by auto
  then have "unat (mx - i - 1) < unat (mx - i)" by (rule measure_unat)
  then show ?thesis by (simp add: diff_diff_eq)
qed

text \<open>The counting loop of \<open>counter\<close>; \<open>i\<close> and \<open>max\<close> are unsigned.\<close>

function counter_loop :: "'s syscalls \<Rightarrow> u32 \<Rightarrow> u32 \<Rightarrow> u8 list \<Rightarrow> 's \<Rightarrow> 's option" where
  "counter_loop c i mx buf s =
     (if i < mx then
        do {
          buf \<leftarrow> ece391_itoa (i + 1) buf 10;
          s \<leftarrow> ece391_fdputs c 1 buf s;
          s \<leftarrow> ece391_fdputs c 1 (lit_ln []) s;
          counter_loop c (i + 1) mx buf s
        }
      else Some s)"
  by pat_completeness auto
termination
  by (relation "measure (\<lambda>(c, i, mx, buf, s). unat (mx - i))") (auto simp: counter_measure)

declare counter_loop.simps [simp del]

definition counter :: "'s syscalls \<Rightarrow> u8 list \<Rightarrow> 's \<Rightarrow> (int \<times> 's) option" where
  "counter c buf s =
     do {
       s \<leftarrow> ece391_fdputs c 1 (lit_ln ''Enter the Test Number: (0): 100, (1): 10000, (2): 100000'') s;
       (cnt, buf, s) \<leftarrow> ece391_read c 0 buf 1023 s;
       if cnt = -1 then
         do { s \<leftarrow> ece391_fdputs c 1 (lit_ln (''Can'' @ apostrophe @ ''t read the number from keyboard.'')) s; Some (3, s) }
       else
         do {
           buf \<leftarrow> wr buf (nat cnt) 0;
           n \<leftarrow> ece391_strlen buf;
           b0 \<leftarrow> rd buf 0;
           if n > 2 \<or> n = 2 \<and> (b0 < of_char CHR ''0'' \<or> b0 > of_char CHR ''2'') then
             do { s \<leftarrow> ece391_fdputs c 1 (lit_ln ''Wrong Choice!'') s; Some (0, s) }
           else
             do {
               let mx = (if b0 = of_char CHR ''0'' then 100
                         else if b0 = of_char CHR ''1'' then 10000
                         else if b0 = of_char CHR ''2'' then 100000 else 0);
               s \<leftarrow> counter_loop c 0 mx buf s;
               Some (0, s)
             }
         }
     }"

text \<open>The shell: running a command, and the loop, which ends when the user types \<open>exit\<close> or the keyboard cannot be read.\<close>

definition shell_run :: "'s syscalls \<Rightarrow> u8 list \<Rightarrow> 's \<Rightarrow> 's option" where
  "shell_run c buf s =
     do {
       (rval, s) \<leftarrow> ece391_execute c buf s;
       if rval = -1 then ece391_fdputs c 1 (lit_ln ''no such command'') s
       else if rval = 256 then ece391_fdputs c 1 (lit_ln ''program terminated by exception'') s
       else if rval \<noteq> 0 then ece391_fdputs c 1 (lit_ln ''program terminated abnormally'') s
       else Some s
     }"

partial_function (option) shell_loop :: "'s syscalls \<Rightarrow> u8 list \<Rightarrow> 's \<Rightarrow> (int \<times> 's) option" where
  "shell_loop c buf s =
     do {
       s \<leftarrow> ece391_fdputs c 1 (lit ''391OS> '') s;
       (cnt, buf, s) \<leftarrow> ece391_read c 0 buf 1023 s;
       if cnt = -1 then
         do { s \<leftarrow> ece391_fdputs c 1 (lit_ln ''read from keyboard failed'') s; Some (3, s) }
       else
         do {
           nl \<leftarrow> (if cnt > 0 then map_option (\<lambda>b. b = 10) (rd buf (nat (cnt - 1))) else Some False);
           let cnt = (if nl then cnt - 1 else cnt);
           buf \<leftarrow> wr buf (nat cnt) 0;
           r \<leftarrow> ece391_strcmp buf (lit ''exit'');
           if r = 0 then Some (0, s)
           else
             do {
               b0 \<leftarrow> rd buf 0;
               if b0 = 0 then shell_loop c buf s
               else do { s \<leftarrow> shell_run c buf s; shell_loop c buf s }
             }
         }
     }"

definition shell :: "'s syscalls \<Rightarrow> u8 list \<Rightarrow> 's \<Rightarrow> (int \<times> 's) option" where
  "shell c buf s =
     do {
       s \<leftarrow> ece391_fdputs c 1 (lit_ln ''Starting 391 Shell'') s;
       shell_loop c buf s
     }"

section \<open>Programs with input\<close>

text \<open>
  The predicate \<open>ok\<close> now also says which lines will be typed; for any such list the system is a
  \<open>user_system\<close>.
\<close>

locale interactive_system =
  fixes c :: "'s syscalls"
    and ok :: "u8 list list \<Rightarrow> 's \<Rightarrow> bool"
    and screen :: "'s \<Rightarrow> 'v"
    and put :: "u8 \<Rightarrow> 'v \<Rightarrow> 'v"
    and echo :: "u8 list \<Rightarrow> 'v \<Rightarrow> 'v"
    and fds :: "'s \<Rightarrow> int \<Rightarrow> stream option"
    and args :: "'s \<Rightarrow> u8 list"
    and lookup :: "u8 list \<Rightarrow> stream option"
    and names :: "u8 list list"
  assumes sys: "user_system c (ok lns) screen put fds args lookup names"
    and read_line: "ok (l # lns) s \<Longrightarrow> int (length l) < n \<Longrightarrow> nat n \<le> length buf \<Longrightarrow>
      \<exists>t. ece391_read c 0 buf n s = Some (int (length l) + 1, l @ 10 # drop (Suc (length l)) buf, t) \<and> ok lns t
        \<and> fds t = fds s \<and> args t = args s \<and> screen t = echo l (screen s)"
    and line_text: "ok (l # lns) s \<Longrightarrow> 0 \<notin> set l \<and> length l \<le> 125"

sublocale interactive_system \<subseteq> user: user_system c "ok lns" screen put fds args lookup names for lns
  by (rule sys)

lemma wr_line:
  assumes "length l + 1 < length buf"
  shows "wr (l @ 10 # drop (Suc (length l)) buf) (length l) 0 = Some (l @ 0 # drop (Suc (length l)) buf)"
    "\<exists>rest. wr (l @ 10 # drop (Suc (length l)) buf) (Suc (length l)) 0 = Some (l @ 10 # 0 # rest) \<and> length rest + length l + 2 = length buf"
proof -
  show "wr (l @ 10 # drop (Suc (length l)) buf) (length l) 0 = Some (l @ 0 # drop (Suc (length l)) buf)"
    using assms by simp
  obtain x xs where x: "drop (Suc (length l)) buf = x # xs" using assms by (metis Cons_nth_drop_Suc Suc_eq_plus1)
  then have "length (x # xs) = length buf - Suc (length l)" by (metis length_drop)
  then show "\<exists>rest. wr (l @ 10 # drop (Suc (length l)) buf) (Suc (length l)) 0 = Some (l @ 10 # 0 # rest) \<and> length rest + length l + 2 = length buf"
    unfolding x using assms by (intro exI [of _ xs]) (auto simp: list_update_append)
qed

definition counting :: "nat \<Rightarrow> nat \<Rightarrow> u8 list" where
  "counting i mx = concat (map (\<lambda>k. radix_repr 10 (Suc k) @ [10]) [i..<mx])"

lemma counting_step: "i < mx \<Longrightarrow> counting i mx = radix_repr 10 (Suc i) @ 10 # counting (Suc i) mx"
  by (simp add: counting_def upt_conv_Cons)

lemma counting_done [simp]: "mx \<le> i \<Longrightarrow> counting i mx = []"
  by (simp add: counting_def)

definition counter_text :: "u8 list \<Rightarrow> u8 list" where
  "counter_text l =
     (if l = [] then []
      else if l = bytes ''0'' then counting 0 100
      else if l = bytes ''1'' then counting 0 10000
      else if l = bytes ''2'' then counting 0 100000
      else bytes ''Wrong Choice!'' @ [10])"

lemma counter_text_choice:
  fixes l :: "u8 list"
  defines "b \<equiv> (l @ [10]) ! 0"
  shows "Suc (length l) > 2 \<or> Suc (length l) = 2 \<and> (b < 48 \<or> b > 50) \<Longrightarrow> counter_text l = bytes ''Wrong Choice!'' @ [10]"
    and "\<not> (Suc (length l) > 2 \<or> Suc (length l) = 2 \<and> (b < 48 \<or> b > 50)) \<Longrightarrow>
      counter_text l = counting 0 (unat ((if b = 48 then 100 else if b = 49 then 10000 else if b = 50 then 100000 else 0) :: u32))"
proof -
  assume a: "Suc (length l) > 2 \<or> Suc (length l) = 2 \<and> (b < 48 \<or> b > 50)"
  then have "l \<noteq> []" "l \<noteq> bytes ''0''" "l \<noteq> bytes ''1''" "l \<noteq> bytes ''2''" by (auto simp: b_def bytes_def)
  then show "counter_text l = bytes ''Wrong Choice!'' @ [10]" by (simp add: counter_text_def)
next
  assume a: "\<not> (Suc (length l) > 2 \<or> Suc (length l) = 2 \<and> (b < 48 \<or> b > 50))"
  show "counter_text l = counting 0 (unat ((if b = 48 then 100 else if b = 49 then 10000 else if b = 50 then 100000 else 0) :: u32))"
  proof (cases l)
    case Nil
    then show ?thesis by (simp add: counter_text_def b_def)
  next
    case (Cons d ds)
    then have l: "l = [d]" "b = d" "\<not> d < 48" "\<not> d > 50" using a by (auto simp: b_def)
    have "unat d = 48 \<or> unat d = 49 \<or> unat d = 50" using l(3,4) by (simp add: word_less_nat_alt) linarith
    then have "d = 48 \<or> d = 49 \<or> d = 50" by (auto simp: word_unat_eq_iff)
    then show ?thesis using l(1,2) by (elim disjE) (simp_all add: counter_text_def bytes_def)
  qed
qed

context interactive_system
begin

lemma hello_greets:
  assumes "ok (l # lns) s" and "length buf = 1024"
  shows "\<exists>t. hello c buf s = Some (0, t) \<and> ok lns t
    \<and> screen t = fold put (bytes ''Hello, '' @ l @ [10]) (echo l (fold put (bytes (''Hi, what'' @ apostrophe @ ''s your name? '')) (screen s)))"
proof -
  have l: "0 \<notin> set l" "length l \<le> 125" using line_text [OF assms(1)] by auto
  from user.fdputs_out [OF assms(1), of "lit (''Hi, what'' @ apostrophe @ ''s your name? '')"] obtain s1 where
    1: "ece391_fdputs c 1 (lit (''Hi, what'' @ apostrophe @ ''s your name? '')) s = Some s1" "ok (l # lns) s1"
    "screen s1 = fold put (bytes (''Hi, what'' @ apostrophe @ ''s your name? '')) (screen s)" by (auto simp: bytes_def)
  from read_line [OF 1(2), of 1023 buf] l assms(2) obtain s2 where
    2: "ece391_read c 0 buf 1023 s1 = Some (int (length l) + 1, l @ 10 # drop (Suc (length l)) buf, s2)" "ok lns s2"
    "screen s2 = echo l (screen s1)" by auto
  from wr_line(2) [of l buf] l assms(2) obtain rest where
    w: "wr (l @ 10 # drop (Suc (length l)) buf) (Suc (length l)) 0 = Some (l @ 10 # 0 # rest)" by auto
  from user.fdputs_out [OF 2(2), of "lit ''Hello, ''"] obtain s3 where
    3: "ece391_fdputs c 1 (lit ''Hello, '') s2 = Some s3" "ok lns s3" "screen s3 = fold put (bytes ''Hello, '') (screen s2)"
    by (auto simp: bytes_def)
  have "cstr (l @ 10 # 0 # rest) = l @ [10]" using cstr_append_nul [of "l @ [10]" rest] l(1) by simp
  with user.fdputs_out [OF 3(2), of "l @ 10 # 0 # rest"] obtain s4 where
    4: "ece391_fdputs c 1 (l @ 10 # 0 # rest) s3 = Some s4" "ok lns s4" "screen s4 = fold put (l @ [10]) (screen s3)" by auto
  have "nat (int (length l) + 1) = Suc (length l)" by simp
  then have "hello c buf s = Some (0, s4)" using 1(1) 2(1) w 3(1) 4(1) by (simp add: hello_def)
  then show ?thesis using 1(3) 2(3) 3(3) 4(2,3) by (simp only: fold_append comp_apply) blast
qed

lemma counter_loop_counts:
  assumes "ok lns s" and "12 \<le> length buf" and "unat mx \<le> 100000"
  shows "\<exists>t. counter_loop c i mx buf s = Some t \<and> ok lns t \<and> screen t = fold put (counting (unat i) (unat mx)) (screen s)"
  using assms
proof (induction "unat (mx - i)" arbitrary: i buf s rule: less_induct)
  case less
  show ?case
  proof (cases "i < mx")
    case False
    then show ?thesis using less.prems(1) by (subst counter_loop.simps) (simp add: word_le_nat_alt word_less_nat_alt)
  next
    case True
    have lt: "unat i < unat mx" using True by (simp add: word_less_nat_alt)
    then have i1: "unat (i + 1) = Suc (unat i)" using less.prems(3) by (simp add: unat_word_ariths)
    have len: "length (radix_repr 10 (Suc (unat i))) < length buf"
      using length_digits_le [of 10 "Suc (unat i)" 6] lt less.prems(2,3) by (simp add: radix_repr_def)
    obtain b where b: "itoa (i + 1) buf 10 = Some b" "cstr b = radix_repr 10 (Suc (unat i))" "length b = length buf"
      using itoa_eq [of 10 "i + 1" buf] len by (auto simp: i1)
    then have z: "0 \<in> set b" using len cstr_no_nul [of b] by (metis less_irrefl)
    from user.fdputs_out [OF less.prems(1) z] obtain s1 where
      1: "ece391_fdputs c 1 b s = Some s1" "ok lns s1" "screen s1 = fold put (cstr b) (screen s)" by blast
    from user.fdputs_out [OF 1(2), of "lit_ln []"] obtain s2 where
      2: "ece391_fdputs c 1 (lit_ln []) s1 = Some s2" "ok lns s2" "screen s2 = put 10 (screen s1)" by (auto simp: bytes_def)
    have lb: "12 \<le> length b" using b(3) less.prems(2) by simp
    from less.hyps [OF counter_measure [OF True] 2(2) lb less.prems(3)] obtain t where
      t: "counter_loop c (i + 1) mx b s2 = Some t" "ok lns t" "screen t = fold put (counting (Suc (unat i)) (unat mx)) (screen s2)"
      unfolding i1 by blast
    have "counter_loop c i mx buf s = Some t"
      using True b(1) 1(1) 2(1) t(1) by (subst counter_loop.simps) (simp add: ece391_itoa_itoa)
    moreover have "screen t = fold put (counting (unat i) (unat mx)) (screen s)"
      using t(3) 2(3) 1(3) b(2) counting_step [OF lt] by simp
    ultimately show ?thesis using t(2) by blast
  qed
qed

lemma counter_counts:
  assumes "ok (l # lns) s" and "length buf = 1024"
  shows "\<exists>t. counter c buf s = Some (0, t) \<and> ok lns t
    \<and> screen t = fold put (counter_text l)
        (echo l (fold put (bytes ''Enter the Test Number: (0): 100, (1): 10000, (2): 100000'' @ [10]) (screen s)))"
proof -
  let ?p = "''Enter the Test Number: (0): 100, (1): 10000, (2): 100000''"
  have l: "0 \<notin> set l" "length l \<le> 125" using line_text [OF assms(1)] by auto
  have np: "0 \<notin> set (bytes ?p)" by (simp add: bytes_def)
  from user.fdputs_out [OF assms(1), of "lit_ln ?p"] np obtain s1 where
    1: "ece391_fdputs c 1 (lit_ln ?p) s = Some s1" "ok (l # lns) s1" "screen s1 = fold put (bytes ?p @ [10]) (screen s)" by auto
  from read_line [OF 1(2), of 1023 buf] l assms(2) obtain s2 where
    2: "ece391_read c 0 buf 1023 s1 = Some (int (length l) + 1, l @ 10 # drop (Suc (length l)) buf, s2)" "ok lns s2"
    "screen s2 = echo l (screen s1)" by auto
  from wr_line(2) [of l buf] l assms(2) obtain rest where
    w: "wr (l @ 10 # drop (Suc (length l)) buf) (Suc (length l)) 0 = Some (l @ 10 # 0 # rest)" "length rest + length l + 2 = 1024" by auto
  let ?b = "l @ 10 # 0 # rest"
  have "cstr ?b = l @ [10]" using cstr_append_nul [of "l @ [10]" rest] l(1) by simp
  then have n: "ece391_strlen ?b = Some (Suc (length l))" by (simp add: ece391_strlen_eq)
  have nt: "nat (int (length l) + 1) = Suc (length l)" by simp
  have st: "counter c buf s =
      (let b0 = ?b ! 0 in if Suc (length l) > 2 \<or> Suc (length l) = 2 \<and> (b0 < 48 \<or> b0 > 50)
       then do { s \<leftarrow> ece391_fdputs c 1 (lit_ln ''Wrong Choice!'') s2; Some (0, s) }
       else do { s \<leftarrow> counter_loop c 0 (if b0 = 48 then 100 else if b0 = 49 then 10000 else if b0 = 50 then 100000 else 0) ?b s2; Some (0, s) })"
    using 1(1) 2(1) w(1) n nt by (auto simp: counter_def Let_def)
  have lb: "12 \<le> length ?b" using w(2) by simp
  have b0: "(l @ [10]) ! 0 = ?b ! 0" by (cases l) simp_all
  have run: "\<exists>t. counter_loop c 0 mx ?b s2 = Some t \<and> ok lns t \<and> screen t = fold put (counting 0 (unat mx)) (screen s2)" if "unat mx \<le> 100000" for mx
    using counter_loop_counts [OF 2(2) lb that, of 0] by simp
  from user.fdputs_out [OF 2(2), of "lit_ln ''Wrong Choice!''"] obtain s3 where
    3: "ece391_fdputs c 1 (lit_ln ''Wrong Choice!'') s2 = Some s3" "ok lns s3" "screen s3 = fold put (bytes ''Wrong Choice!'' @ [10]) (screen s2)"
    by (auto simp: bytes_def)
  show ?thesis
  proof (cases "Suc (length l) > 2 \<or> Suc (length l) = 2 \<and> (?b ! 0 < 48 \<or> ?b ! 0 > 50)")
    case True
    then have "counter c buf s = Some (0, s3)" using st 3(1) by (simp add: Let_def)
    moreover have "counter_text l = bytes ''Wrong Choice!'' @ [10]" using counter_text_choice(1) [OF True [folded b0]] .
    ultimately show ?thesis using 3(2,3) 2(3) 1(3) by simp
  next
    case False
    let ?mx = "(if ?b ! 0 = 48 then 100 else if ?b ! 0 = 49 then 10000 else if ?b ! 0 = 50 then 100000 else 0) :: u32"
    have "unat ?mx \<le> 100000" by simp
    from run [OF this] obtain t where
      t: "counter_loop c 0 ?mx ?b s2 = Some t" "ok lns t" "screen t = fold put (counting 0 (unat ?mx)) (screen s2)" by blast
    have "counter c buf s = Some (0, t)" using st t(1) False by (simp only: Let_def if_False bind.bind_lunit)
    moreover have "counter_text l = counting 0 (unat ?mx)" using counter_text_choice(2) [OF False [folded b0]] unfolding b0 .
    ultimately show ?thesis using t(2,3) 2(3) 1(3) by simp
  qed
qed

end

section \<open>A shell session\<close>

text \<open>
  The session the user sees: for every typed line the prompt, the echo, and, unless the line is empty, what the
  command prints and the shell's remark on its result; \<open>exit\<close> ends it. \<open>run\<close> gives a command's result and output.
\<close>

definition remark :: "int \<Rightarrow> u8 list" where
  "remark r =
     (if r = -1 then bytes ''no such command'' @ [10]
      else if r = 256 then bytes ''program terminated by exception'' @ [10]
      else if r \<noteq> 0 then bytes ''program terminated abnormally'' @ [10]
      else [])"

fun shell_session ::
  "(u8 \<Rightarrow> 'v \<Rightarrow> 'v) \<Rightarrow> (u8 list \<Rightarrow> 'v \<Rightarrow> 'v) \<Rightarrow> (u8 list \<Rightarrow> int \<times> u8 list) \<Rightarrow> u8 list list \<Rightarrow> 'v \<Rightarrow> 'v" where
  "shell_session put echo run [] v = v"
| "shell_session put echo run (l # lns) v =
     (let v = echo l (fold put (bytes ''391OS> '') v)
      in if l = bytes ''exit'' then v
         else if l = [] then shell_session put echo run lns v
         else shell_session put echo run lns (fold put (remark (fst (run l))) (fold put (snd (run l)) v)))"

context interactive_system
begin

lemma shell_run_out:
  assumes "ece391_execute c buf s = Some (r, u)" and "ok lns u"
  shows "\<exists>t. shell_run c buf s = Some t \<and> ok lns t \<and> screen t = fold put (remark r) (screen u)"
proof -
  have "\<exists>t. ece391_fdputs c 1 (lit_ln m) u = Some t \<and> ok lns t \<and> screen t = fold put (bytes m @ [10]) (screen u)" if "0 \<notin> set (bytes m)" for m
    using user.fdputs_out [OF assms(2), of "lit_ln m"] that by auto
  note p = this [of "''no such command''"] this [of "''program terminated by exception''"] this [of "''program terminated abnormally''"]
  show ?thesis using p assms unfolding remark_def shell_run_def by (simp add: bytes_def)
qed

lemma shell_line_read:
  assumes "ok (l # lns) s" and "length buf = 1024"
  obtains b t where "b = l @ 0 # drop (Suc (length l)) buf" and "length b = 1024" and "ok lns t"
    and "screen t = echo l (fold put (bytes ''391OS> '') (screen s))"
    and "shell_loop c buf s =
      (if l = bytes ''exit'' then Some (0, t) else if l = [] then shell_loop c b t
       else do { s \<leftarrow> shell_run c b t; shell_loop c b s })"
proof -
  have l: "0 \<notin> set l" "length l \<le> 125" using line_text [OF assms(1)] by auto
  from user.fdputs_out [OF assms(1), of "lit ''391OS> ''"] obtain s1 where
    1: "ece391_fdputs c 1 (lit ''391OS> '') s = Some s1" "ok (l # lns) s1" "screen s1 = fold put (bytes ''391OS> '') (screen s)"
    by (auto simp: bytes_def)
  let ?rest = "drop (Suc (length l)) buf"
  from read_line [OF 1(2), of 1023 buf] l assms(2) obtain s2 where
    2: "ece391_read c 0 buf 1023 s1 = Some (int (length l) + 1, l @ 10 # ?rest, s2)" "ok lns s2" "screen s2 = echo l (screen s1)" by auto
  have w: "wr (l @ 10 # ?rest) (length l) 0 = Some (l @ 0 # ?rest)" using l assms(2) by simp
  have nl: "rd (l @ 10 # ?rest) (nat (int (length l) + 1 - 1)) = Some 10" by simp
  have ce: "cstr (lit ''exit'') = bytes ''exit''" "cstr (l @ 0 # ?rest) = l" using l(1) by (simp_all add: bytes_def)
  obtain r where r: "ece391_strcmp (l @ 0 # ?rest) (lit ''exit'') = Some r" "r = 0 \<longleftrightarrow> l = bytes ''exit''"
    using ece391_strcmp_zero_iff [of "l @ 0 # ?rest" "lit ''exit''"] ce by auto
  have b0: "rd (l @ 0 # ?rest) 0 = Some (if l = [] then 0 else hd l)" "l \<noteq> [] \<Longrightarrow> hd l \<noteq> 0"
    using l(1) by (cases l; auto)+
  have sh: "shell_loop c buf s =
      (if l = bytes ''exit'' then Some (0, s2) else if l = [] then shell_loop c (l @ 0 # ?rest) s2
       else do { s \<leftarrow> shell_run c (l @ 0 # ?rest) s2; shell_loop c (l @ 0 # ?rest) s })"
    using 1(1) 2(1) w nl r b0 by (subst shell_loop.simps) (simp add: Let_def cong: if_cong)
  have "length (l @ 0 # ?rest) = 1024" using l(2) assms(2) by simp
  moreover have "screen s2 = echo l (fold put (bytes ''391OS> '') (screen s))" using 2(3) 1(3) by simp
  ultimately show ?thesis using that [OF refl _ 2(2) _ sh] by blast
qed

lemma shell_loop_session:
  assumes "ok lns s" and "bytes ''exit'' \<in> set lns" and "length buf = 1024"
    and exec: "\<And>l ms rest s. l \<in> set lns \<Longrightarrow> l \<noteq> [] \<Longrightarrow> l \<noteq> bytes ''exit'' \<Longrightarrow> ok ms s \<Longrightarrow>
      \<exists>t. ece391_execute c (l @ 0 # rest) s = Some (fst (run l), t) \<and> ok ms t \<and> screen t = fold put (snd (run l)) (screen s)"
  shows "\<exists>t. shell_loop c buf s = Some (0, t) \<and> ok (tl (dropWhile (\<lambda>l. l \<noteq> bytes ''exit'') lns)) t
    \<and> screen t = shell_session put echo run lns (screen s)"
  using assms
proof (induction lns arbitrary: s buf)
  case (Cons l lns)
  let ?J = "tl (dropWhile (\<lambda>l. l \<noteq> bytes ''exit'') lns)"
  obtain b t where b: "b = l @ 0 # drop (Suc (length l)) buf" "length b = 1024"
    and t: "ok lns t" "screen t = echo l (fold put (bytes ''391OS> '') (screen s))"
    and sh: "shell_loop c buf s = (if l = bytes ''exit'' then Some (0, t) else if l = [] then shell_loop c b t
       else do { s \<leftarrow> shell_run c b t; shell_loop c b s })"
    by (rule shell_line_read [OF Cons.prems(1,3)])
  show ?case
  proof (cases "l = bytes ''exit''")
    case True
    then show ?thesis using sh t by simp
  next
    case ne: False
    have ex: "bytes ''exit'' \<in> set lns" using Cons.prems(2) ne by auto
    have ih: "\<exists>u. shell_loop c b s' = Some (0, u) \<and> ok ?J u \<and> screen u = shell_session put echo run lns (screen s')"
      if "ok lns s'" for s'
      by (rule Cons.IH [OF that ex b(2)], rule Cons.prems(4)) auto
    show ?thesis
    proof (cases "l = []")
      case True
      then show ?thesis using ih [OF t(1)] sh ne t(2) by simp
    next
      case False
      from Cons.prems(4) [of l lns t "drop (Suc (length l)) buf"] False ne t(1) obtain u where
        u: "ece391_execute c b t = Some (fst (run l), u)" "ok lns u" "screen u = fold put (snd (run l)) (screen t)" unfolding b(1) by auto
      from shell_run_out [OF u(1,2)] obtain v where
        v: "shell_run c b t = Some v" "ok lns v" "screen v = fold put (remark (fst (run l))) (screen u)" by blast
      have "shell_loop c buf s = shell_loop c b v" unfolding sh using ne False v(1) by simp
      then show ?thesis using ih [OF v(2)] v(3) u(3) t(2) ne False by (simp add: Let_def)
    qed
  qed
qed simp

lemma shell_shows_session:
  assumes "ok lns s" and "bytes ''exit'' \<in> set lns" and "length buf = 1024"
    and exec: "\<And>l ms rest s. l \<in> set lns \<Longrightarrow> l \<noteq> [] \<Longrightarrow> l \<noteq> bytes ''exit'' \<Longrightarrow> ok ms s \<Longrightarrow>
      \<exists>t. ece391_execute c (l @ 0 # rest) s = Some (fst (run l), t) \<and> ok ms t \<and> screen t = fold put (snd (run l)) (screen s)"
  shows "\<exists>t. shell c buf s = Some (0, t) \<and> ok (tl (dropWhile (\<lambda>l. l \<noteq> bytes ''exit'') lns)) t
    \<and> screen t = shell_session put echo run lns (fold put (bytes ''Starting 391 Shell'' @ [10]) (screen s))"
proof -
  from user.fdputs_out [OF assms(1), of "lit_ln ''Starting 391 Shell''"] obtain s1 where
    1: "ece391_fdputs c 1 (lit_ln ''Starting 391 Shell'') s = Some s1" "ok lns s1" "screen s1 = fold put (bytes ''Starting 391 Shell'' @ [10]) (screen s)"
    by (auto simp: bytes_def)
  show ?thesis using shell_loop_session [OF 1(2) assms(2-4)] 1(1,3) by (simp add: shell_def)
qed

end

section \<open>The keyboard as a provider\<close>

lemma kernel_read_line:
  assumes "process_ok E f p K (Lines ((ks, l) # kls)) st" and "int (length l) < n" and "nat n \<le> length buf"
  shows "\<exists>t. ece391_read (kernel_calls E) 0 buf n st = Some (int (length l) + 1, l @ 10 # drop (Suc (length l)) buf, t)
    \<and> process_ok E f p K (Lines kls) t \<and> process_fds f p t = process_fds f p st \<and> process_args p t = process_args p st
    \<and> console_of t = echo_line l (console_of st)"
proof -
  obtain es s where st: "st = (es, s)" by (cases st)
  let ?u = "in_call E s" and ?h = "irq_handler (env_dev E) (env_header E) (env_entry E) (env_junk E)"
  from process_okE [OF assms(1) [unfolded st]] obtain q where q: "pcb_at s (pcb_addr (int p)) = q"
    "fd_operations (fd_arr q ! 0) = std_operations" "ops_table s = ops_table (sys_init s)" "get_pcb ?u = pcb_addr (int p)" by metis
  have pend: "pending (Lines ((ks, l) # kls)) (es, ?u)" using assms(1) by (simp add: st process_ok_def Let_def)
  have ln: "length l < nat n" using assms(2) by linarith
  from terminal_read_pending [OF pend ln assms(3), of "env_dev E" "env_header E" "env_entry E" "env_junk E"] obtain t where
    t: "terminal_read ?h es buf n ?u = Some (int (length l + 1), l @ [10] @ drop (Suc (length l)) buf, t, typed kls)"
    "pending (Lines kls) (typed kls, t)" "console.truncate t = echo_line l (console.truncate ?u)" "dev_only ?u t" by blast
  have o: "read_function (ops_table s std_operations) = Terminal_fn" using fun_cong [OF q(3)] sys_init_ops(1) [of s] by simp
  have rd: "ece391_read (kernel_calls E) 0 buf n st = Some (int (length l) + 1, l @ 10 # drop (Suc (length l)) buf, typed kls, t)"
    using t(1) q o assms(2) by (simp add: st kernel_calls_def call_result_def sys_read_def Let_def of_option_def)
  note d = dev_only_fields [OF t(4)]
  have ops: "ops_table t = ops_table (sys_init t)" by (rule ops_inited [OF q(3)]) (simp add: d)
  have "process_ok E f p K (Lines kls) (typed kls, t)"
    using assms(1) t(2) ops unfolding process_ok_def Let_def st by (simp add: d rest_of_def)
  then show ?thesis
    using rd t(3) by (simp add: st process_fds_def process_args_def fun_eq_iff console_of_def d)
qed

lemma pending_lines: "pending (Lines ((ks, l) # kls)) st \<Longrightarrow> 0 \<notin> set l \<and> length l \<le> 125"
proof -
  assume "pending (Lines ((ks, l) # kls)) st"
  then have "list_all2 (key_gives (snd st)) ks l" "length l \<le> 125" by (simp_all add: pending_def)
  then show ?thesis by (induction rule: list_all2_induct) (auto simp: key_gives_def)
qed

text \<open>
  A process for which the lines \<open>lns\<close> are typed, while \<open>G\<close> holds of what its own calls leave alone.
\<close>

definition session_ok :: "environment \<Rightarrow> fsys \<Rightarrow> nat \<Rightarrow> (rest \<Rightarrow> bool) \<Rightarrow> u8 list list \<Rightarrow> irq list \<times> kernel \<Rightarrow> bool" where
  "session_ok E f p G lns st \<longleftrightarrow> (\<exists>K kls. (G K \<and> map snd kls = lns) \<and> process_ok E f p K (Lines kls) st)"

text \<open>A system whose states are those of several systems.\<close>

lemma user_system_ex:
  assumes "\<And>i j. user_system c (ok i j) screen put fds args lookup names"
  shows "user_system c (\<lambda>s. \<exists>i j. P i j \<and> ok i j s) screen put fds args lookup names"
proof unfold_locales
  fix s n buf name x d fd F p r and w :: "u8 list"
  note laws = user_system.write_out user_system.open_found user_system.open_missing user_system.read_file user_system.read_dir
    user_system.close_fd user_system.getargs
  show "w \<in> set names \<Longrightarrow> length w \<le> 32" "w \<in> set names \<Longrightarrow> 0 \<notin> set w"
    using user_system.name_length [OF assms] user_system.name_no_nul [OF assms] by blast+
  assume "\<exists>i j. P i j \<and> ok i j s"
  then obtain i j where i: "P i j" "ok i j s" by blast
  note L = laws [OF assms i(2)]
  show "0 \<le> n \<Longrightarrow> n \<le> int (length buf) \<Longrightarrow> \<exists>t. ece391_write c 1 buf n s = Some (n, t) \<and> (\<exists>i j. P i j \<and> ok i j t)
      \<and> fds t = fds s \<and> args t = args s \<and> screen t = fold put (take (nat n) buf) (screen s)"
    using L(1) i(1) by blast
  show "0 \<in> set name \<Longrightarrow> lookup (cstr name) = Some x \<Longrightarrow> 2 \<le> d \<Longrightarrow> d < 8 \<Longrightarrow> fds s d = None \<Longrightarrow>
      \<exists>fd t. ece391_open c name s = Some (fd, t) \<and> 2 \<le> fd \<and> fd < 8 \<and> fds s fd = None \<and> (\<exists>i j. P i j \<and> ok i j t)
        \<and> fds t = (fds s)(fd \<mapsto> x) \<and> args t = args s \<and> screen t = screen s"
    using L(2) [of name x d] i(1) by blast
  show "0 \<in> set name \<Longrightarrow> lookup (cstr name) = None \<Longrightarrow> \<exists>t. ece391_open c name s = Some (-1, t) \<and> (\<exists>i j. P i j \<and> ok i j t)
      \<and> fds t = fds s \<and> args t = args s \<and> screen t = screen s"
    using L(3) [of name] i(1) by blast
  show "fds s fd = Some (File F p) \<Longrightarrow> 0 \<le> n \<Longrightarrow> n < 2 ^ 31 \<Longrightarrow> nat n \<le> length buf \<Longrightarrow> r = min (nat n) (length F - p) \<Longrightarrow>
      \<exists>t. ece391_read c fd buf n s = Some (int r, take r (drop p F) @ drop r buf, t) \<and> (\<exists>i j. P i j \<and> ok i j t)
        \<and> fds t = (fds s)(fd \<mapsto> File F (p + r)) \<and> args t = args s \<and> screen t = screen s"
    using L(4) [of fd F p n buf r] i(1) by blast
  show "fds s fd = Some (Dir p) \<Longrightarrow> 0 \<le> n \<Longrightarrow> 32 \<le> length buf \<Longrightarrow> p \<le> length names \<Longrightarrow>
      \<exists>t. ece391_read c fd buf n s =
          (if p < length names
           then Some (int (length (names ! p)), names ! p @ replicate (32 - length (names ! p)) 0 @ drop 32 buf, t)
           else Some (0, buf, t))
        \<and> (\<exists>i j. P i j \<and> ok i j t) \<and> fds t = (fds s)(fd \<mapsto> Dir (Suc p)) \<and> args t = args s \<and> screen t = screen s"
    using L(5) [of fd p n buf] i(1) by blast
  show "fds s fd = Some x \<Longrightarrow> \<exists>t. ece391_close c fd s = Some (0, t) \<and> (\<exists>i j. P i j \<and> ok i j t) \<and> fds t = (fds s)(fd := None)
      \<and> args t = args s \<and> screen t = screen s"
    using L(6) [of fd x] i(1) by blast
  show "128 \<le> length buf \<Longrightarrow> 0 \<le> n \<Longrightarrow>
      \<exists>b t. ece391_getargs c buf n s = Some (if args s = [] then -1 else 0, b, t) \<and> length b = length buf
        \<and> (args s \<noteq> [] \<longrightarrow> 0 \<in> set b \<and> cstr b = args s) \<and> (\<exists>i j. P i j \<and> ok i j t) \<and> fds t = fds s \<and> args t = args s \<and> screen t = screen s"
    using L(7) [of buf n] i(1) by blast
qed

interpretation kernel_session: interactive_system "kernel_calls E" "session_ok E f p G" console_of putc echo_line
  "process_fds f p" "process_args p" "image_lookup f" "image_names f"
proof (rule interactive_system.intro)
  fix lns :: "u8 list list" and l buf :: "u8 list" and n :: int and s :: "irq list \<times> kernel"
  show "user_system (kernel_calls E) (session_ok E f p G lns) console_of putc (process_fds f p) (process_args p) (image_lookup f) (image_names f)"
    unfolding session_ok_def by (rule user_system_ex) (rule kernel_user.user_system_axioms)
  assume "session_ok E f p G (l # lns) s"
  then obtain K ks kls where k: "G K" "map snd kls = lns" "process_ok E f p K (Lines ((ks, l) # kls)) s"
    by (auto simp: session_ok_def map_eq_Cons_conv)
  show "0 \<notin> set l \<and> length l \<le> 125" using k(3) pending_lines [of ks l kls s] by (simp add: process_ok_def Let_def)
  show "\<exists>t. ece391_read (kernel_calls E) 0 buf n s = Some (int (length l) + 1, l @ 10 # drop (Suc (length l)) buf, t) \<and> session_ok E f p G lns t
      \<and> process_fds f p t = process_fds f p s \<and> process_args p t = process_args p s \<and> console_of t = echo_line l (console_of s)"
    if "int (length l) < n" "nat n \<le> length buf"
    using kernel_read_line [OF k(3) that] k(1,2) unfolding session_ok_def by blast
qed

end
