(* ===== verification/User_Errors.thy ===== *)
theory User_Errors
  imports User_Files
begin

text \<open>
  The conformance test of the system calls (\<^verbatim>\<open>src/syscalls/ece391syserr.c\<close>): eight tests that make calls
  that must fail. The locale \<open>checked_system\<close> adds what the kernel promises about such calls; the tests are
  proved to pass in it.
\<close>

section \<open>The tests\<close>

text \<open>A call that must return -1, and the line with the verdict.\<close>

definition must_fail :: "'s syscalls \<Rightarrow> string \<Rightarrow> int \<Rightarrow> int \<Rightarrow> 's \<Rightarrow> (int \<times> 's) option" where
  "must_fail c msg r fail s =
     (if r \<noteq> -1 then do { s \<leftarrow> ece391_fdputs c 1 (lit_ln msg) s; Some (2, s) } else Some (fail, s))"

definition verdict :: "'s syscalls \<Rightarrow> string \<Rightarrow> int \<Rightarrow> 's \<Rightarrow> (int \<times> 's) option" where
  "verdict c name fail s =
     do {
       s \<leftarrow> ece391_fdputs c 1 (lit_ln (name @ (if fail \<noteq> 0 then '': FAIL'' else '': PASS''))) s;
       Some (fail, s)
     }"

abbreviation NEG_FD :: int where "NEG_FD \<equiv> -1073741823"
abbreviation BIG_FD :: int where "BIG_FD \<equiv> 1073741823"
abbreviation BIG_NUM :: int where "BIG_NUM \<equiv> 1073741823"
abbreviation NEG_NUM :: int where "NEG_NUM \<equiv> -1073741823"

definition call_sys :: "'s syscalls \<Rightarrow> int \<Rightarrow> 's \<Rightarrow> (int \<times> 's) option" where
  "call_sys c num s = int80 c num s"

definition err_neg_fd :: "'s syscalls \<Rightarrow> u8 list \<Rightarrow> 's \<Rightarrow> (int \<times> 's) option" where
  "err_neg_fd c buf s =
     do {
       (r, buf, s) \<leftarrow> ece391_read c NEG_FD buf 31 s;
       (fail, s) \<leftarrow> must_fail c ''read fail'' r 0 s;
       (r, s) \<leftarrow> ece391_write c NEG_FD buf 31 s;
       (fail, s) \<leftarrow> must_fail c ''write fail'' r fail s;
       (r, s) \<leftarrow> ece391_close c NEG_FD s;
       (fail, s) \<leftarrow> must_fail c ''close fail'' r fail s;
       verdict c ''err_neg_fd'' fail s
     }"

definition err_big_fd :: "'s syscalls \<Rightarrow> u8 list \<Rightarrow> 's \<Rightarrow> (int \<times> 's) option" where
  "err_big_fd c buf s =
     do {
       (r, buf, s) \<leftarrow> ece391_read c BIG_FD buf 31 s;
       (fail, s) \<leftarrow> must_fail c ''read fail'' r 0 s;
       (r, s) \<leftarrow> ece391_write c BIG_FD buf 31 s;
       (fail, s) \<leftarrow> must_fail c ''write fail'' r fail s;
       (r, s) \<leftarrow> ece391_close c BIG_FD s;
       (fail, s) \<leftarrow> must_fail c ''close fail'' r fail s;
       verdict c ''err_big_fd'' fail s
     }"

text \<open>The loops of \<open>err_open_lots\<close>: \<open>k\<close> calls are left, or the descriptors of a list.\<close>

fun open_lots :: "'s syscalls \<Rightarrow> nat \<Rightarrow> int \<Rightarrow> 's \<Rightarrow> (int \<times> 's) option" where
  "open_lots c 0 cnt s = Some (cnt, s)"
| "open_lots c (Suc k) cnt s =
     do {
       (r, s) \<leftarrow> ece391_open c (lit ''.'') s;
       open_lots c k (if r = -1 then cnt + 1 else cnt) s
     }"

fun close_all :: "'s syscalls \<Rightarrow> int list \<Rightarrow> 's \<Rightarrow> 's option" where
  "close_all c [] s = Some s"
| "close_all c (i # is) s = do { (_, s) \<leftarrow> ece391_close c i s; close_all c is s }"

definition err_open_lots :: "'s syscalls \<Rightarrow> 's \<Rightarrow> (int \<times> 's) option" where
  "err_open_lots c s =
     do {
       (cnt, s) \<leftarrow> open_lots c 7 0 s;
       s \<leftarrow> close_all c [2, 3, 4, 5, 6, 7] s;
       if cnt = 1 then do { s \<leftarrow> ece391_fdputs c 1 (lit_ln ''err_open_lots: PASS'') s; Some (0, s) }
       else do { s \<leftarrow> ece391_fdputs c 1 (lit_ln ''err_open_lots: FAIL'') s; Some (2, s) }
     }"

definition err_open :: "'s syscalls \<Rightarrow> 's \<Rightarrow> (int \<times> 's) option" where
  "err_open c s =
     do {
       (r, s) \<leftarrow> ece391_open c (lit ''helloo'') s;
       (fail, s) \<leftarrow> must_fail c ([CHR 0x27] @ ''helloo'' @ [CHR 0x27] @ '' fail'') r 0 s;
       (r, s) \<leftarrow> ece391_open c (lit ''shel'') s;
       (fail, s) \<leftarrow> must_fail c ([CHR 0x27] @ ''shel'' @ [CHR 0x27] @ '' fail'') r fail s;
       (r, s) \<leftarrow> ece391_open c (lit []) s;
       (fail, s) \<leftarrow> must_fail c ''empty string fail'' r fail s;
       verdict c ''err_open'' fail s
     }"

text \<open>The three loops of \<open>err_unopened\<close> over the descriptors.\<close>

fun unopened_close :: "'s syscalls \<Rightarrow> int list \<Rightarrow> int \<Rightarrow> 's \<Rightarrow> (int \<times> 's) option" where
  "unopened_close c [] fail s = Some (fail, s)"
| "unopened_close c (i # is) fail s =
     do {
       (r, s) \<leftarrow> ece391_close c i s;
       (fail, s) \<leftarrow> must_fail c ''close unopened or invalid fd fail'' r fail s;
       unopened_close c is fail s
     }"

fun unopened_read :: "'s syscalls \<Rightarrow> int list \<Rightarrow> u8 list \<Rightarrow> int \<Rightarrow> 's \<Rightarrow> (int \<times> u8 list \<times> 's) option" where
  "unopened_read c [] buf fail s = Some (fail, buf, s)"
| "unopened_read c (i # is) buf fail s =
     do {
       (r, buf, s) \<leftarrow> ece391_read c i buf 31 s;
       (fail, s) \<leftarrow> must_fail c ''read from unopened fd fail'' r fail s;
       unopened_read c is buf fail s
     }"

fun unopened_write :: "'s syscalls \<Rightarrow> int list \<Rightarrow> u8 list \<Rightarrow> int \<Rightarrow> 's \<Rightarrow> (int \<times> 's) option" where
  "unopened_write c [] buf fail s = Some (fail, s)"
| "unopened_write c (i # is) buf fail s =
     do {
       (r, s) \<leftarrow> ece391_write c i buf 31 s;
       (fail, s) \<leftarrow> must_fail c ''write to unopened fd fail'' r fail s;
       unopened_write c is buf fail s
     }"

definition err_unopened :: "'s syscalls \<Rightarrow> u8 list \<Rightarrow> 's \<Rightarrow> (int \<times> 's) option" where
  "err_unopened c buf s =
     do {
       (fail, s) \<leftarrow> unopened_close c [0, 1, 2, 3, 4, 5, 6, 7] 0 s;
       (fail, buf, s) \<leftarrow> unopened_read c [2, 3, 4, 5, 6, 7] buf fail s;
       (fail, s) \<leftarrow> unopened_write c [2, 3, 4, 5, 6, 7] buf fail s;
       verdict c ''err_unopened'' fail s
     }"

definition err_vidmap :: "'s syscalls \<Rightarrow> 's \<Rightarrow> (int \<times> 's) option" where
  "err_vidmap c s =
     do {
       (r, s) \<leftarrow> ece391_vidmap c 0 s;
       (fail, s) \<leftarrow> must_fail c ''Null pointer fail'' r 0 s;
       (r, s) \<leftarrow> ece391_vidmap c 0x400000 s;
       (fail, s) \<leftarrow> must_fail c ''Kernel pointer fail fail'' r fail s;
       verdict c ''err_vidmap'' fail s
     }"

definition err_stdin_out :: "'s syscalls \<Rightarrow> u8 list \<Rightarrow> 's \<Rightarrow> (int \<times> 's) option" where
  "err_stdin_out c buf s =
     do {
       (r, s) \<leftarrow> ece391_write c 0 buf 31 s;
       (fail, s) \<leftarrow> must_fail c ''write to stdin fail'' r 0 s;
       (r, buf, s) \<leftarrow> ece391_read c 1 buf 31 s;
       (fail, s) \<leftarrow> must_fail c ''read from stdout fail'' r fail s;
       verdict c ''err_stdin_out'' fail s
     }"

definition err_syscall_num :: "'s syscalls \<Rightarrow> 's \<Rightarrow> (int \<times> 's) option" where
  "err_syscall_num c s =
     do {
       (r, s) \<leftarrow> call_sys c BIG_NUM s;
       (fail, s) \<leftarrow> must_fail c ''syscall 0 fail'' r 0 s;
       (r, s) \<leftarrow> call_sys c NEG_NUM s;
       (fail, s) \<leftarrow> must_fail c ''big num syscall fail'' r fail s;
       (r, s) \<leftarrow> call_sys c 0 s;
       (fail, s) \<leftarrow> must_fail c ''neg num syscall fail'' r fail s;
       verdict c ''err_syscall_num'' fail s
     }"

text \<open>\<open>main\<close>; the tests' own buffers are uninitialised.\<close>

definition syserr_all :: "'s syscalls \<Rightarrow> u8 list \<Rightarrow> 's \<Rightarrow> (int \<times> 's) option" where
  "syserr_all c tbuf s =
     do {
       (f1, s) \<leftarrow> err_neg_fd c tbuf s;
       (f2, s) \<leftarrow> err_big_fd c tbuf s;
       (f3, s) \<leftarrow> err_open_lots c s;
       (f4, s) \<leftarrow> err_open c s;
       (f5, s) \<leftarrow> err_unopened c tbuf s;
       (f6, s) \<leftarrow> err_vidmap c s;
       (f7, s) \<leftarrow> err_stdin_out c tbuf s;
       (f8, s) \<leftarrow> err_syscall_num c s;
       let fail = f1 + f2 + f3 + f4 + f5 + f6 + f7 + f8;
       s \<leftarrow> ece391_fdputs c 1 ([10] @ lit_ln (if fail \<noteq> 0 then ''Overall Tests: FAIL'' else ''Overall Tests: PASS'')) s;
       Some (fail, s)
     }"

definition syserr :: "'s syscalls \<Rightarrow> u8 list \<Rightarrow> u8 list \<Rightarrow> 's \<Rightarrow> (int \<times> 's) option" where
  "syserr c tbuf buf s =
     do {
       s \<leftarrow> ece391_fdputs c 1 (lit ''Choose from tests 1-8. 0 to run all: '') s;
       (cnt, buf, s) \<leftarrow> ece391_read c 0 buf 127 s;
       if cnt = -1 then do { s \<leftarrow> ece391_fdputs c 1 (lit_ln (''Can'' @ [CHR 0x27] @ ''t read test #'')) s; Some (2, s) }
       else
         do {
           b0 \<leftarrow> rd buf 0;
           let select = uint b0 - 48;
           if select = 0 then syserr_all c tbuf s
           else if select = 1 then err_neg_fd c tbuf s
           else if select = 2 then err_big_fd c tbuf s
           else if select = 3 then err_open_lots c s
           else if select = 4 then err_open c s
           else if select = 5 then err_unopened c tbuf s
           else if select = 6 then err_vidmap c s
           else if select = 7 then err_stdin_out c tbuf s
           else if select = 8 then err_syscall_num c s
           else do { s \<leftarrow> ece391_fdputs c 1 (lit ''Invalid test number. Choose from tests 1-8 or 0'') s; Some (0, s) }
         }
     }"

section \<open>Calls that must fail\<close>

locale checked_system = user_system c ok screen put fds args lookup names
  for c :: "'s syscalls" and ok and screen :: "'s \<Rightarrow> 'v" and put and fds and args and lookup and names +
  fixes closed :: "'s \<Rightarrow> int set"
  assumes bad_read: "ok s \<Longrightarrow> fd < 0 \<or> 7 < fd \<or> fd = 1 \<Longrightarrow>
      \<exists>t. ece391_read c fd buf n s = Some (-1, buf, t) \<and> ok t \<and> fds t = fds s \<and> args t = args s \<and> screen t = screen s"
    and bad_write: "ok s \<Longrightarrow> fd < 1 \<or> 7 < fd \<Longrightarrow>
      \<exists>t. ece391_write c fd buf n s = Some (-1, t) \<and> ok t \<and> fds t = fds s \<and> args t = args s \<and> screen t = screen s"
    and bad_close: "ok s \<Longrightarrow> fd < 2 \<or> 7 < fd \<Longrightarrow>
      \<exists>t. ece391_close c fd s = Some (-1, t) \<and> ok t \<and> fds t = fds s \<and> args t = args s \<and> screen t = screen s \<and> closed t = closed s"
    and close_unopened: "ok s \<Longrightarrow> 2 \<le> fd \<Longrightarrow> fd < 8 \<Longrightarrow> fds s fd = None \<Longrightarrow>
      \<exists>t. ece391_close c fd s = Some (-1, t) \<and> ok t \<and> fds t = fds s \<and> args t = args s \<and> screen t = screen s
        \<and> closed t = insert fd (closed s)"
    and read_closed: "ok s \<Longrightarrow> fd \<in> closed s \<Longrightarrow>
      \<exists>t. ece391_read c fd buf n s = Some (-1, buf, t) \<and> ok t \<and> fds t = fds s \<and> args t = args s \<and> screen t = screen s
        \<and> closed t = closed s"
    and write_closed: "ok s \<Longrightarrow> fd \<in> closed s \<Longrightarrow>
      \<exists>t. ece391_write c fd buf n s = Some (-1, t) \<and> ok t \<and> fds t = fds s \<and> args t = args s \<and> screen t = screen s
        \<and> closed t = closed s"
    and open_full: "ok s \<Longrightarrow> (\<And>d. 2 \<le> d \<Longrightarrow> d < 8 \<Longrightarrow> fds s d \<noteq> None) \<Longrightarrow>
      \<exists>t. ece391_open c name s = Some (-1, t) \<and> ok t \<and> fds t = fds s \<and> args t = args s \<and> screen t = screen s"
    and bad_vidmap: "ok s \<Longrightarrow> a < 0x8000000 \<Longrightarrow>
      \<exists>t. ece391_vidmap c a s = Some (-1, t) \<and> ok t \<and> fds t = fds s \<and> args t = args s \<and> screen t = screen s"
    and bad_number: "ok s \<Longrightarrow> k < 1 \<or> 10 < k \<Longrightarrow>
      \<exists>t. int80 c k s = Some (-1, t) \<and> ok t \<and> fds t = fds s \<and> args t = args s \<and> screen t = screen s"

lemma must_fail_ok [simp]: "must_fail c msg (-1) fail s = Some (fail, s)"
  by (simp add: must_fail_def)

definition pass_line :: "string \<Rightarrow> u8 list" where
  "pass_line name = bytes (name @ '': PASS'') @ [10]"

context checked_system
begin

lemma verdict_pass:
  assumes "ok s" and "0 \<notin> set (bytes name)"
  shows "\<exists>t. verdict c name 0 s = Some (0, t) \<and> ok t \<and> fds t = fds s \<and> args t = args s
    \<and> screen t = fold put (pass_line name) (screen s)"
proof -
  have "0 \<notin> set (bytes (name @ '': PASS''))" using assms(2) by (simp add: bytes_def)
  then show ?thesis using fdputs_out [OF assms(1), of "lit_ln (name @ '': PASS'')"] by (auto simp: verdict_def pass_line_def)
qed

lemma err_neg_fd_passes:
  assumes "ok s"
  shows "\<exists>t. err_neg_fd c buf s = Some (0, t) \<and> ok t \<and> fds t = fds s \<and> args t = args s
    \<and> screen t = fold put (pass_line ''err_neg_fd'') (screen s)"
proof -
  from bad_read [OF assms, of NEG_FD buf 31] obtain s1 where
    1: "ece391_read c NEG_FD buf 31 s = Some (-1, buf, s1)" "ok s1" "fds s1 = fds s" "args s1 = args s" "screen s1 = screen s" by auto
  from bad_write [OF 1(2), of NEG_FD buf 31] obtain s2 where
    2: "ece391_write c NEG_FD buf 31 s1 = Some (-1, s2)" "ok s2" "fds s2 = fds s" "args s2 = args s" "screen s2 = screen s" using 1 by auto
  from bad_close [OF 2(2), of NEG_FD] obtain s3 where
    3: "ece391_close c NEG_FD s2 = Some (-1, s3)" "ok s3" "fds s3 = fds s" "args s3 = args s" "screen s3 = screen s" using 2 by auto
  show ?thesis using verdict_pass [OF 3(2), of "''err_neg_fd''"] 1(1) 2(1) 3 by (simp add: err_neg_fd_def bytes_def)
qed

lemma err_big_fd_passes:
  assumes "ok s"
  shows "\<exists>t. err_big_fd c buf s = Some (0, t) \<and> ok t \<and> fds t = fds s \<and> args t = args s
    \<and> screen t = fold put (pass_line ''err_big_fd'') (screen s)"
proof -
  from bad_read [OF assms, of BIG_FD buf 31] obtain s1 where
    1: "ece391_read c BIG_FD buf 31 s = Some (-1, buf, s1)" "ok s1" "fds s1 = fds s" "args s1 = args s" "screen s1 = screen s" by auto
  from bad_write [OF 1(2), of BIG_FD buf 31] obtain s2 where
    2: "ece391_write c BIG_FD buf 31 s1 = Some (-1, s2)" "ok s2" "fds s2 = fds s" "args s2 = args s" "screen s2 = screen s" using 1 by auto
  from bad_close [OF 2(2), of BIG_FD] obtain s3 where
    3: "ece391_close c BIG_FD s2 = Some (-1, s3)" "ok s3" "fds s3 = fds s" "args s3 = args s" "screen s3 = screen s" using 2 by auto
  show ?thesis using verdict_pass [OF 3(2), of "''err_big_fd''"] 1(1) 2(1) 3 by (simp add: err_big_fd_def bytes_def)
qed

lemma err_vidmap_passes:
  assumes "ok s"
  shows "\<exists>t. err_vidmap c s = Some (0, t) \<and> ok t \<and> fds t = fds s \<and> args t = args s
    \<and> screen t = fold put (pass_line ''err_vidmap'') (screen s)"
proof -
  from bad_vidmap [OF assms, of 0] obtain s1 where
    1: "ece391_vidmap c 0 s = Some (-1, s1)" "ok s1" "fds s1 = fds s" "args s1 = args s" "screen s1 = screen s" by auto
  from bad_vidmap [OF 1(2), of "0x400000"] obtain s2 where
    2: "ece391_vidmap c 0x400000 s1 = Some (-1, s2)" "ok s2" "fds s2 = fds s" "args s2 = args s" "screen s2 = screen s" using 1 by auto
  show ?thesis using verdict_pass [OF 2(2), of "''err_vidmap''"] 1(1) 2 by (simp add: err_vidmap_def bytes_def)
qed

lemma err_stdin_out_passes:
  assumes "ok s"
  shows "\<exists>t. err_stdin_out c buf s = Some (0, t) \<and> ok t \<and> fds t = fds s \<and> args t = args s
    \<and> screen t = fold put (pass_line ''err_stdin_out'') (screen s)"
proof -
  from bad_write [OF assms, of 0 buf 31] obtain s1 where
    1: "ece391_write c 0 buf 31 s = Some (-1, s1)" "ok s1" "fds s1 = fds s" "args s1 = args s" "screen s1 = screen s" by auto
  from bad_read [OF 1(2), of 1 buf 31] obtain s2 where
    2: "ece391_read c 1 buf 31 s1 = Some (-1, buf, s2)" "ok s2" "fds s2 = fds s" "args s2 = args s" "screen s2 = screen s" using 1 by auto
  show ?thesis using verdict_pass [OF 2(2), of "''err_stdin_out''"] 1(1) 2 by (simp add: err_stdin_out_def bytes_def)
qed

lemma err_syscall_num_passes:
  assumes "ok s"
  shows "\<exists>t. err_syscall_num c s = Some (0, t) \<and> ok t \<and> fds t = fds s \<and> args t = args s
    \<and> screen t = fold put (pass_line ''err_syscall_num'') (screen s)"
proof -
  from bad_number [OF assms, of BIG_NUM] obtain s1 where
    1: "int80 c BIG_NUM s = Some (-1, s1)" "ok s1" "fds s1 = fds s" "args s1 = args s" "screen s1 = screen s" by auto
  from bad_number [OF 1(2), of NEG_NUM] obtain s2 where
    2: "int80 c NEG_NUM s1 = Some (-1, s2)" "ok s2" "fds s2 = fds s" "args s2 = args s" "screen s2 = screen s" using 1 by auto
  from bad_number [OF 2(2), of 0] obtain s3 where
    3: "int80 c 0 s2 = Some (-1, s3)" "ok s3" "fds s3 = fds s" "args s3 = args s" "screen s3 = screen s" using 2 by auto
  show ?thesis using verdict_pass [OF 3(2), of "''err_syscall_num''"] 1(1) 2(1) 3
    by (simp add: err_syscall_num_def call_sys_def bytes_def)
qed

lemma err_open_passes:
  assumes "ok s" and "lookup (bytes ''helloo'') = None" "lookup (bytes ''shel'') = None" "lookup [] = None"
  shows "\<exists>t. err_open c s = Some (0, t) \<and> ok t \<and> fds t = fds s \<and> args t = args s
    \<and> screen t = fold put (pass_line ''err_open'') (screen s)"
proof -
  have n: "cstr (lit ''helloo'') = bytes ''helloo''" "cstr (lit ''shel'') = bytes ''shel''" "cstr (lit []) = []"
    by (simp_all add: bytes_def)
  from open_missing [OF assms(1), of "lit ''helloo''"] obtain s1 where
    1: "ece391_open c (lit ''helloo'') s = Some (-1, s1)" "ok s1" "fds s1 = fds s" "args s1 = args s" "screen s1 = screen s"
    using assms(2) n by auto
  from open_missing [OF 1(2), of "lit ''shel''"] obtain s2 where
    2: "ece391_open c (lit ''shel'') s1 = Some (-1, s2)" "ok s2" "fds s2 = fds s" "args s2 = args s" "screen s2 = screen s"
    using assms(3) n 1 by auto
  from open_missing [OF 2(2), of "lit []"] obtain s3 where
    3: "ece391_open c (lit []) s2 = Some (-1, s3)" "ok s3" "fds s3 = fds s" "args s3 = args s" "screen s3 = screen s"
    using assms(4) n 2 by auto
  show ?thesis using verdict_pass [OF 3(2), of "''err_open''"] 1(1) 2(1) 3 by (simp add: err_open_def bytes_def)
qed

end

text \<open>Opening: as many calls fail as there are more calls than free descriptors.\<close>

definition free_fds :: "(int \<Rightarrow> stream option) \<Rightarrow> int set" where
  "free_fds F = {d. 2 \<le> d \<and> d < 8 \<and> F d = None}"

lemma finite_free_fds [simp]: "finite (free_fds F)"
  by (rule finite_subset [of _ "{2..<8}"]) (auto simp: free_fds_def)

lemma free_fds_upd: "d \<in> free_fds F \<Longrightarrow> card (free_fds (F(d \<mapsto> x))) = card (free_fds F) - 1"
proof -
  assume d: "d \<in> free_fds F"
  have "free_fds (F(d \<mapsto> x)) = free_fds F - {d}" by (auto simp: free_fds_def)
  then show ?thesis using d by simp
qed

lemma free_fds_all: "(\<And>d. 2 \<le> d \<Longrightarrow> d < 8 \<Longrightarrow> F d = None) \<Longrightarrow> card (free_fds F) = 6"
proof -
  assume "\<And>d. 2 \<le> d \<Longrightarrow> d < 8 \<Longrightarrow> F d = None"
  then have "free_fds F = {2..<8}" by (auto simp: free_fds_def)
  then show ?thesis by simp
qed

context checked_system
begin

lemma open_lots_counts:
  assumes "ok s" and "lookup (bytes ''.'') = Some x"
  shows "\<exists>t. open_lots c k cnt s = Some (cnt + int (k - card (free_fds (fds s))), t) \<and> ok t \<and> args t = args s \<and> screen t = screen s
    \<and> card (free_fds (fds t)) = card (free_fds (fds s)) - k
    \<and> (\<forall>d. fds t d = fds s d \<or> d \<in> free_fds (fds s) \<and> fds t d = Some x)"
  using assms(1)
proof (induction k arbitrary: cnt s)
  case 0
  then show ?case by auto
next
  case (Suc k)
  have l: "cstr (lit ''.'') = bytes ''.''" by (simp add: bytes_def)
  show ?case
  proof (cases "free_fds (fds s) = {}")
    case True
    then have full: "fds s d \<noteq> None" if "2 \<le> d" "d < 8" for d using that by (auto simp: free_fds_def)
    from open_full [OF Suc.prems full, of "lit ''.''"] obtain s1 where
      1: "ece391_open c (lit ''.'') s = Some (-1, s1)" "ok s1" "fds s1 = fds s" "args s1 = args s" "screen s1 = screen s" by auto
    from Suc.IH [OF 1(2), of "cnt + 1"] 1 True show ?thesis by auto
  next
    case False
    then obtain d where d: "2 \<le> d" "d < 8" "fds s d = None" by (auto simp: free_fds_def)
    from open_found [OF Suc.prems, of "lit ''.''" x d] assms(2) d obtain fd s1 where
      1: "ece391_open c (lit ''.'') s = Some (fd, s1)" "2 \<le> fd" "fd < 8" "fds s fd = None" "ok s1" "fds s1 = (fds s)(fd \<mapsto> x)"
      "args s1 = args s" "screen s1 = screen s" unfolding l by auto
    have fd: "fd \<in> free_fds (fds s)" using 1(2-4) by (simp add: free_fds_def)
    have c: "card (free_fds (fds s1)) = card (free_fds (fds s)) - 1" unfolding 1(6) using fd by (rule free_fds_upd)
    have pos: "0 < card (free_fds (fds s))" using fd by (auto simp: card_gt_0_iff)
    from Suc.IH [OF 1(5), of cnt] obtain t where
      t: "open_lots c k cnt s1 = Some (cnt + int (k - card (free_fds (fds s1))), t)" "ok t" "args t = args s1" "screen t = screen s1"
      "card (free_fds (fds t)) = card (free_fds (fds s1)) - k"
      "\<forall>d. fds t d = fds s1 d \<or> d \<in> free_fds (fds s1) \<and> fds t d = Some x" by auto
    have "k - (card (free_fds (fds s)) - 1) = Suc k - card (free_fds (fds s))" using pos by linarith
    then have o: "open_lots c (Suc k) cnt s = Some (cnt + int (Suc k - card (free_fds (fds s))), t)"
      using 1(1,2) t(1) c by simp
    have "fds t e = fds s e \<or> e \<in> free_fds (fds s) \<and> fds t e = Some x" for e
    proof (cases "e = fd")
      case True
      then show ?thesis using spec [OF t(6), of fd] fd 1(6) by auto
    next
      case False
      then show ?thesis using spec [OF t(6), of e] 1(6) by (auto simp: free_fds_def)
    qed
    then show ?thesis using o t c 1(7,8) pos by auto
  qed
qed

lemma close_all_closes:
  assumes "ok s" and "distinct is" and "\<And>d. d \<in> set is \<Longrightarrow> fds s d \<noteq> None"
  shows "\<exists>t. close_all c is s = Some t \<and> ok t \<and> args t = args s \<and> screen t = screen s
    \<and> fds t = (\<lambda>d. if d \<in> set is then None else fds s d)"
  using assms
proof (induction "is" arbitrary: s)
  case Nil
  then show ?case by auto
next
  case (Cons i js)
  from Cons.prems(3) [of i] obtain x where "fds s i = Some x" by auto
  from close_fd [OF Cons.prems(1) this] obtain s1 where
    1: "ece391_close c i s = Some (0, s1)" "ok s1" "fds s1 = (fds s)(i := None)" "args s1 = args s" "screen s1 = screen s" by blast
  have "distinct js" "\<And>d. d \<in> set js \<Longrightarrow> fds s1 d \<noteq> None" using Cons.prems(2,3) 1(3) by auto
  from Cons.IH [OF 1(2) this] obtain t where
    t: "close_all c js s1 = Some t" "ok t" "args t = args s1" "screen t = screen s1" "fds t = (\<lambda>d. if d \<in> set js then None else fds s1 d)"
    by blast
  have "fds t = (\<lambda>d. if d \<in> set (i # js) then None else fds s d)" using t(5) 1(3) by (auto simp: fun_eq_iff)
  then show ?case using t 1 by auto
qed

lemma err_open_lots_passes:
  assumes "ok s" and "lookup (bytes ''.'') = Some x" and "\<And>d. 2 \<le> d \<Longrightarrow> d < 8 \<Longrightarrow> fds s d = None"
  shows "\<exists>t. err_open_lots c s = Some (0, t) \<and> ok t \<and> fds t = fds s \<and> args t = args s
    \<and> screen t = fold put (pass_line ''err_open_lots'') (screen s)"
proof -
  have six: "card (free_fds (fds s)) = 6" using assms(3) by (rule free_fds_all)
  from open_lots_counts [OF assms(1,2), of 7 0] obtain s1 where
    1: "open_lots c 7 0 s = Some (1, s1)" "ok s1" "args s1 = args s" "screen s1 = screen s" "card (free_fds (fds s1)) = 0"
    "\<And>d. fds s1 d = fds s d \<or> d \<in> free_fds (fds s) \<and> fds s1 d = Some x"
    unfolding six by auto
  have "free_fds (fds s1) = {}" using 1(5) by simp
  then have full: "fds s1 d \<noteq> None" if "2 \<le> d" "d < 8" for d using that by (auto simp: free_fds_def)
  have open': "fds s1 d \<noteq> None" if "d \<in> set [2, 3, 4, 5, 6, 7]" for d using that by (intro full) auto
  have dist: "distinct [2, 3, 4, 5, 6, 7 :: int]" by simp
  from close_all_closes [OF 1(2) dist open'] obtain s2 where
    2: "close_all c [2, 3, 4, 5, 6, 7] s1 = Some s2" "ok s2" "args s2 = args s1" "screen s2 = screen s1"
    "fds s2 = (\<lambda>d. if d \<in> set [2, 3, 4, 5, 6, 7] then None else fds s1 d)" by blast
  have "fds s2 d = fds s d" for d
  proof (cases "d \<in> set [2, 3, 4, 5, 6, 7]")
    case True
    then show ?thesis using 2(5) assms(3) [of d] by auto
  next
    case False
    then have "d \<notin> free_fds (fds s)" by (auto simp: free_fds_def)
    then show ?thesis using 2(5) 1(6) False by auto
  qed
  then have f: "fds s2 = fds s" by (rule ext)
  from fdputs_out [OF 2(2), of "lit_ln ''err_open_lots: PASS''"] obtain s3 where
    "ece391_fdputs c 1 (lit_ln ''err_open_lots: PASS'') s2 = Some s3" "ok s3" "fds s3 = fds s" "args s3 = args s"
    "screen s3 = fold put (pass_line ''err_open_lots'') (screen s)"
    using f 1(3,4) 2(3,4) by (auto simp: pass_line_def bytes_def)
  then show ?thesis using 1(1) 2(1) by (simp add: err_open_lots_def del: close_all.simps)
qed

lemma unopened_close_fails:
  assumes "ok s" and "\<And>d. 2 \<le> d \<Longrightarrow> d < 8 \<Longrightarrow> fds s d = None"
  shows "\<exists>t. unopened_close c is 0 s = Some (0, t) \<and> ok t \<and> fds t = fds s \<and> args t = args s \<and> screen t = screen s
    \<and> closed t = closed s \<union> {d \<in> set is. 2 \<le> d \<and> d < 8}"
  using assms
proof (induction "is" arbitrary: s)
  case Nil
  then show ?case by auto
next
  case (Cons i js)
  have "\<exists>t. ece391_close c i s = Some (-1, t) \<and> ok t \<and> fds t = fds s \<and> args t = args s \<and> screen t = screen s
    \<and> closed t = closed s \<union> {d \<in> {i}. 2 \<le> d \<and> d < 8}"
  proof (cases "2 \<le> i \<and> i < 8")
    case True
    then show ?thesis using close_unopened [OF Cons.prems(1), of i] Cons.prems(2) [of i] by auto
  next
    case False
    then have i: "i < 2 \<or> 7 < i" by linarith
    have "{d \<in> {i}. 2 \<le> d \<and> d < 8} = {}" using False by auto
    then show ?thesis using bad_close [OF Cons.prems(1) i] by (simp only: Un_empty_right)
  qed
  then obtain s1 where
    1: "ece391_close c i s = Some (-1, s1)" "ok s1" "fds s1 = fds s" "args s1 = args s" "screen s1 = screen s"
    "closed s1 = closed s \<union> {d \<in> {i}. 2 \<le> d \<and> d < 8}" by blast
  from Cons.IH [OF 1(2)] Cons.prems(2) 1(3) obtain t where
    t: "unopened_close c js 0 s1 = Some (0, t)" "ok t" "fds t = fds s1" "args t = args s1" "screen t = screen s1"
    "closed t = closed s1 \<union> {d \<in> set js. 2 \<le> d \<and> d < 8}" by auto
  then show ?case using 1 by auto
qed

lemma unopened_read_fails:
  assumes "ok s" and "set is \<subseteq> closed s"
  shows "\<exists>t. unopened_read c is buf 0 s = Some (0, buf, t) \<and> ok t \<and> fds t = fds s \<and> args t = args s \<and> screen t = screen s
    \<and> closed t = closed s"
  using assms
proof (induction "is" arbitrary: s)
  case (Cons i js)
  from read_closed [OF Cons.prems(1), of i buf 31] Cons.prems(2) obtain s1 where
    1: "ece391_read c i buf 31 s = Some (-1, buf, s1)" "ok s1" "fds s1 = fds s" "args s1 = args s" "screen s1 = screen s" "closed s1 = closed s"
    by auto
  then show ?case using Cons.IH [OF 1(2)] Cons.prems(2) by auto
qed auto

lemma unopened_write_fails:
  assumes "ok s" and "set is \<subseteq> closed s"
  shows "\<exists>t. unopened_write c is buf 0 s = Some (0, t) \<and> ok t \<and> fds t = fds s \<and> args t = args s \<and> screen t = screen s
    \<and> closed t = closed s"
  using assms
proof (induction "is" arbitrary: s)
  case (Cons i js)
  from write_closed [OF Cons.prems(1), of i buf 31] Cons.prems(2) obtain s1 where
    1: "ece391_write c i buf 31 s = Some (-1, s1)" "ok s1" "fds s1 = fds s" "args s1 = args s" "screen s1 = screen s" "closed s1 = closed s"
    by auto
  then show ?case using Cons.IH [OF 1(2)] Cons.prems(2) by auto
qed auto

lemma err_unopened_passes:
  assumes "ok s" and "\<And>d. 2 \<le> d \<Longrightarrow> d < 8 \<Longrightarrow> fds s d = None"
  shows "\<exists>t. err_unopened c buf s = Some (0, t) \<and> ok t \<and> fds t = fds s \<and> args t = args s
    \<and> screen t = fold put (pass_line ''err_unopened'') (screen s)"
proof -
  from unopened_close_fails [OF assms, of "[0, 1, 2, 3, 4, 5, 6, 7]"] obtain s1 where
    1: "unopened_close c [0, 1, 2, 3, 4, 5, 6, 7] 0 s = Some (0, s1)" "ok s1" "fds s1 = fds s" "args s1 = args s" "screen s1 = screen s"
    "closed s1 = closed s \<union> {d \<in> set [0, 1, 2, 3, 4, 5, 6, 7]. 2 \<le> d \<and> d < 8}" by blast
  have sub: "set [2, 3, 4, 5, 6, 7] \<subseteq> closed s1" unfolding 1(6) by auto
  from unopened_read_fails [OF 1(2) sub, of buf] obtain s2 where
    2: "unopened_read c [2, 3, 4, 5, 6, 7] buf 0 s1 = Some (0, buf, s2)" "ok s2" "fds s2 = fds s" "args s2 = args s" "screen s2 = screen s"
    "closed s2 = closed s1" using 1 by auto
  from unopened_write_fails [OF 2(2), of "[2, 3, 4, 5, 6, 7]" buf] sub obtain s3 where
    3: "unopened_write c [2, 3, 4, 5, 6, 7] buf 0 s2 = Some (0, s3)" "ok s3" "fds s3 = fds s" "args s3 = args s" "screen s3 = screen s"
    using 2 by auto
  show ?thesis using verdict_pass [OF 3(2), of "''err_unopened''"] 1(1) 2(1) 3
    by (simp add: err_unopened_def bytes_def del: unopened_close.simps unopened_read.simps unopened_write.simps)
qed

text \<open>The lines of a run in which every test passes.\<close>

lemma syserr_all_passes:
  assumes "ok s" and "lookup (bytes ''.'') = Some x" and "\<And>d. 2 \<le> d \<Longrightarrow> d < 8 \<Longrightarrow> fds s d = None"
    and "lookup (bytes ''helloo'') = None" "lookup (bytes ''shel'') = None" "lookup [] = None"
  shows "\<exists>t. syserr_all c tbuf s = Some (0, t) \<and> ok t \<and> fds t = fds s \<and> args t = args s
    \<and> screen t = fold put (concat (map pass_line [''err_neg_fd'', ''err_big_fd'', ''err_open_lots'', ''err_open'', ''err_unopened'',
        ''err_vidmap'', ''err_stdin_out'', ''err_syscall_num'']) @ [10] @ pass_line ''Overall Tests'') (screen s)"
proof -
  from err_neg_fd_passes [OF assms(1), of tbuf] obtain s1 where 1: "err_neg_fd c tbuf s = Some (0, s1)" "ok s1" "fds s1 = fds s"
    "args s1 = args s" "screen s1 = fold put (pass_line ''err_neg_fd'') (screen s)" by blast
  from err_big_fd_passes [OF 1(2), of tbuf] obtain s2 where 2: "err_big_fd c tbuf s1 = Some (0, s2)" "ok s2" "fds s2 = fds s"
    "args s2 = args s" "screen s2 = fold put (pass_line ''err_big_fd'') (screen s1)" using 1 by auto
  from err_open_lots_passes [OF 2(2) assms(2)] obtain s3 where 3: "err_open_lots c s2 = Some (0, s3)" "ok s3" "fds s3 = fds s"
    "args s3 = args s" "screen s3 = fold put (pass_line ''err_open_lots'') (screen s2)" using 2 assms(3) by auto
  from err_open_passes [OF 3(2) assms(4-6)] obtain s4 where 4: "err_open c s3 = Some (0, s4)" "ok s4" "fds s4 = fds s"
    "args s4 = args s" "screen s4 = fold put (pass_line ''err_open'') (screen s3)" using 3 by auto
  from err_unopened_passes [OF 4(2), of tbuf] obtain s5 where 5: "err_unopened c tbuf s4 = Some (0, s5)" "ok s5" "fds s5 = fds s"
    "args s5 = args s" "screen s5 = fold put (pass_line ''err_unopened'') (screen s4)" using 4 assms(3) by auto
  from err_vidmap_passes [OF 5(2)] obtain s6 where 6: "err_vidmap c s5 = Some (0, s6)" "ok s6" "fds s6 = fds s"
    "args s6 = args s" "screen s6 = fold put (pass_line ''err_vidmap'') (screen s5)" using 5 by auto
  from err_stdin_out_passes [OF 6(2), of tbuf] obtain s7 where 7: "err_stdin_out c tbuf s6 = Some (0, s7)" "ok s7" "fds s7 = fds s"
    "args s7 = args s" "screen s7 = fold put (pass_line ''err_stdin_out'') (screen s6)" using 6 by auto
  from err_syscall_num_passes [OF 7(2)] obtain s8 where 8: "err_syscall_num c s7 = Some (0, s8)" "ok s8" "fds s8 = fds s"
    "args s8 = args s" "screen s8 = fold put (pass_line ''err_syscall_num'') (screen s7)" using 7 by auto
  have "cstr ([10] @ lit_ln ''Overall Tests: PASS'') = [10] @ pass_line ''Overall Tests''"
    using cstr_append_nul [of "[10] @ pass_line ''Overall Tests''" "[]"] by (simp add: lit_ln_def pass_line_def bytes_def)
  with fdputs_out [OF 8(2), of "[10] @ lit_ln ''Overall Tests: PASS''"] obtain s9 where
    9: "ece391_fdputs c 1 ([10] @ lit_ln ''Overall Tests: PASS'') s8 = Some s9" "ok s9" "fds s9 = fds s" "args s9 = args s"
    "screen s9 = fold put ([10] @ pass_line ''Overall Tests'') (screen s8)" using 8 by auto
  have "syserr_all c tbuf s = Some (0, s9)" using 1(1) 2(1) 3(1) 4(1) 5(1) 6(1) 7(1) 8(1) 9(1) by (simp add: syserr_all_def)
  moreover have "screen s9 = fold put (concat (map pass_line [''err_neg_fd'', ''err_big_fd'', ''err_open_lots'', ''err_open'',
      ''err_unopened'', ''err_vidmap'', ''err_stdin_out'', ''err_syscall_num'']) @ [10] @ pass_line ''Overall Tests'') (screen s)"
    unfolding 9(5) 8(5) 7(5) 6(5) 5(5) 4(5) 3(5) 2(5) 1(5) by (simp only: list.map concat.simps fold_append comp_apply append_Nil2)
  ultimately show ?thesis using 9(2-4) by blast
qed

end

section \<open>The kernel's answers\<close>

text \<open>The descriptors that a close has given the directory operations.\<close>

definition closed_fds :: "nat \<Rightarrow> irq list \<times> kernel \<Rightarrow> int set" where
  "closed_fds p st = {d. 2 \<le> d \<and> d < 8 \<and> flags (fd_arr (pcb_at (snd st) (pcb_addr (int p))) ! nat d) = 0
     \<and> fd_operations (fd_arr (pcb_at (snd st) (pcb_addr (int p))) ! nat d) = dir_operations}"

lemma in_call_same:
  assumes "process_ok E f p K I (es, s)"
  shows "process_ok E f p K I (es, in_call E s) \<and> process_fds f p (es, in_call E s) = process_fds f p (es, s)
    \<and> process_args p (es, in_call E s) = process_args p (es, s) \<and> console_of (es, in_call E s) = console_of (es, s)
    \<and> closed_fds p (es, in_call E s) = closed_fds p (es, s)"
  using process_ok_in_call [OF assms]
  by (simp add: process_fds_def process_args_def console_of_def closed_fds_def fun_eq_iff)

lemma kernel_bad_calls:
  assumes "process_ok E f p K I (es, s)"
  shows "fd < 0 \<or> 7 < fd \<or> fd = 1 \<Longrightarrow> ece391_read (kernel_calls E) fd buf n (es, s) = Some (-1, buf, es, in_call E s)"
    and "fd < 1 \<or> 7 < fd \<Longrightarrow> ece391_write (kernel_calls E) fd buf n (es, s) = Some (-1, es, in_call E s)"
    and "fd < 2 \<or> 7 < fd \<Longrightarrow> ece391_close (kernel_calls E) fd (es, s) = Some (-1, es, in_call E s)"
    and "a < 0x8000000 \<Longrightarrow> ece391_vidmap (kernel_calls E) a (es, s) = Some (-1, es, in_call E s)"
    and "k < 1 \<or> 10 < k \<Longrightarrow> int80 (kernel_calls E) k (es, s) = Some (-1, es, in_call E s)"
  by (auto simp: kernel_calls_def call_result_def sys_read_def sys_write_def sys_close_def sys_vidmap_def system_call_handler_def)

lemma kernel_closed_calls:
  assumes "process_ok E f p K I (es, s)" and "fd \<in> closed_fds p (es, s)"
  shows "ece391_read (kernel_calls E) fd buf n (es, s) = Some (-1, buf, es, in_call E s)"
    and "ece391_write (kernel_calls E) fd buf n (es, s) = Some (-1, es, in_call E s)"
proof -
  from process_okE [OF assms(1)] obtain q where q: "pcb_at s (pcb_addr (int p)) = q" "ops_table s = ops_table (sys_init s)"
    "get_pcb (in_call E s) = pcb_addr (int p)" by metis
  have d: "2 \<le> fd" "fd < 8" "flags (fd_arr q ! nat fd) = 0" "fd_operations (fd_arr q ! nat fd) = dir_operations"
    using assms(2) by (simp_all add: closed_fds_def q(1))
  have o: "ops_table s dir_operations = \<lparr>read_function = Dir_fn, write_function = Dir_fn, open_function = Dir_fn, close_function = Dir_fn\<rparr>"
    using q(2) sys_init_ops(2) [of s] by (rule trans [OF fun_cong])
  show "ece391_read (kernel_calls E) fd buf n (es, s) = Some (-1, buf, es, in_call E s)"
    "ece391_write (kernel_calls E) fd buf n (es, s) = Some (-1, es, in_call E s)"
    using d q(1,3) o by (simp_all add: kernel_calls_def call_result_def sys_read_def sys_write_def dir_write_def Let_def)
qed

lemma kernel_close_unopened:
  assumes "process_ok E f p K I (es, s)" and "2 \<le> fd" "fd < 8" and "process_fds f p (es, s) fd = None"
  shows "\<exists>t. ece391_close (kernel_calls E) fd (es, s) = Some (-1, t) \<and> process_ok E f p K I t \<and> process_fds f p t = process_fds f p (es, s)
    \<and> process_args p t = process_args p (es, s) \<and> console_of t = console_of (es, s) \<and> closed_fds p t = insert fd (closed_fds p (es, s))"
proof -
  from process_okE [OF assms(1)] obtain q where q: "pcb_at s (pcb_addr (int p)) = q" "length (fd_arr q) = 8"
    "get_pcb (in_call E s) = pcb_addr (int p)" by metis
  let ?g = "\<lambda>e :: fd_entry. e\<lparr>fd_operations := dir_operations\<rparr>"
  let ?t = "(es, upd_pcb (pcb_addr (int p)) (upd_fd fd ?g) (in_call E s))"
  have z: "flags (fd_arr q ! nat fd) = 0"
    using assms(2-4) by (simp add: process_fds_def q fd_stream_def split: if_splits)
  then have cl: "ece391_close (kernel_calls E) fd (es, s) = Some (-1, ?t)"
    using assms(2,3) q by (simp add: kernel_calls_def call_result_def sys_close_def Let_def)
  have "fd_stream f (?g (fd_arr q ! nat fd)) = None" using z by (simp add: fd_stream_def)
  then have fds: "process_fds f p ?t = process_fds f p (es, s)"
    using fd_change(2) [OF assms(1-3), of ?g] assms(4) by (simp add: q fun_upd_idem)
  have "closed_fds p ?t = insert fd (closed_fds p (es, s))"
    using assms(2,3) q z by (auto simp: closed_fds_def nth_list_update nat_eq_iff)
  then show ?thesis using cl fds fd_change(1,3,4) [OF assms(1-3), of ?g] by blast
qed

lemma kernel_open_full:
  assumes "process_ok E f p K I (es, s)" and "\<And>d. 2 \<le> d \<Longrightarrow> d < 8 \<Longrightarrow> process_fds f p (es, s) d \<noteq> None"
  shows "ece391_open (kernel_calls E) name (es, s) = Some (-1, es, in_call E s)"
proof -
  from process_okE [OF assms(1)] obtain q where q: "pcb_at s (pcb_addr (int p)) = q" "get_pcb (in_call E s) = pcb_addr (int p)" by metis
  have "flags (fd_arr q ! i) \<noteq> 0" if "2 \<le> i" "i < 8" for i
    using assms(2) [of "int i"] that by (auto simp: process_fds_def q fd_stream_def split: if_splits)
  note used = this
  have fr: "2 \<le> free_fd (fd_arr q) 2" "free_fd (fd_arr q) 2 \<le> 8" "free_fd (fd_arr q) 2 < 8 \<longrightarrow> flags (fd_arr q ! free_fd (fd_arr q) 2) = 0"
    using free_fd_props [of 2 "fd_arr q"] by simp_all
  have "free_fd (fd_arr q) 2 = 8"
  proof (rule ccontr)
    assume "free_fd (fd_arr q) 2 \<noteq> 8"
    with fr(2) have "free_fd (fd_arr q) 2 < 8" by simp
    with used [OF fr(1)] fr(3) show False by blast
  qed
  then show ?thesis using q by (simp add: kernel_calls_def call_result_def sys_open_def Let_def)
qed

interpretation kernel_checked: checked_system "kernel_calls E" "process_ok E f p K I" console_of putc "process_fds f p" "process_args p"
  "image_lookup f" "image_names f" "closed_fds p"
proof unfold_locales
  fix s :: "irq list \<times> kernel" and fd n k :: int and buf name :: "u8 list" and a :: u32
  assume ok: "process_ok E f p K I s"
  obtain es u where s: "s = (es, u)" by (cases s)
  note ok' = ok [unfolded s] and same = in_call_same [OF ok [unfolded s]]
  show "fd < 0 \<or> 7 < fd \<or> fd = 1 \<Longrightarrow> \<exists>t. ece391_read (kernel_calls E) fd buf n s = Some (-1, buf, t) \<and> process_ok E f p K I t
      \<and> process_fds f p t = process_fds f p s \<and> process_args p t = process_args p s \<and> console_of t = console_of s"
    using kernel_bad_calls(1) [OF ok'] same unfolding s by blast
  show "fd < 1 \<or> 7 < fd \<Longrightarrow> \<exists>t. ece391_write (kernel_calls E) fd buf n s = Some (-1, t) \<and> process_ok E f p K I t
      \<and> process_fds f p t = process_fds f p s \<and> process_args p t = process_args p s \<and> console_of t = console_of s"
    using kernel_bad_calls(2) [OF ok'] same unfolding s by blast
  show "fd < 2 \<or> 7 < fd \<Longrightarrow> \<exists>t. ece391_close (kernel_calls E) fd s = Some (-1, t) \<and> process_ok E f p K I t
      \<and> process_fds f p t = process_fds f p s \<and> process_args p t = process_args p s \<and> console_of t = console_of s
      \<and> closed_fds p t = closed_fds p s"
    using kernel_bad_calls(3) [OF ok'] same unfolding s by blast
  show "2 \<le> fd \<Longrightarrow> fd < 8 \<Longrightarrow> process_fds f p s fd = None \<Longrightarrow> \<exists>t. ece391_close (kernel_calls E) fd s = Some (-1, t) \<and> process_ok E f p K I t
      \<and> process_fds f p t = process_fds f p s \<and> process_args p t = process_args p s \<and> console_of t = console_of s
      \<and> closed_fds p t = insert fd (closed_fds p s)"
    unfolding s by (rule kernel_close_unopened [OF ok'])
  show "fd \<in> closed_fds p s \<Longrightarrow> \<exists>t. ece391_read (kernel_calls E) fd buf n s = Some (-1, buf, t) \<and> process_ok E f p K I t
      \<and> process_fds f p t = process_fds f p s \<and> process_args p t = process_args p s \<and> console_of t = console_of s
      \<and> closed_fds p t = closed_fds p s"
    using kernel_closed_calls(1) [OF ok'] same unfolding s by blast
  show "fd \<in> closed_fds p s \<Longrightarrow> \<exists>t. ece391_write (kernel_calls E) fd buf n s = Some (-1, t) \<and> process_ok E f p K I t
      \<and> process_fds f p t = process_fds f p s \<and> process_args p t = process_args p s \<and> console_of t = console_of s
      \<and> closed_fds p t = closed_fds p s"
    using kernel_closed_calls(2) [OF ok'] same unfolding s by blast
  show "(\<And>d. 2 \<le> d \<Longrightarrow> d < 8 \<Longrightarrow> process_fds f p s d \<noteq> None) \<Longrightarrow> \<exists>t. ece391_open (kernel_calls E) name s = Some (-1, t) \<and> process_ok E f p K I t
      \<and> process_fds f p t = process_fds f p s \<and> process_args p t = process_args p s \<and> console_of t = console_of s"
    using kernel_open_full [OF ok'] same unfolding s by blast
  show "a < 0x8000000 \<Longrightarrow> \<exists>t. ece391_vidmap (kernel_calls E) a s = Some (-1, t) \<and> process_ok E f p K I t
      \<and> process_fds f p t = process_fds f p s \<and> process_args p t = process_args p s \<and> console_of t = console_of s"
    using kernel_bad_calls(4) [OF ok'] same unfolding s by blast
  show "k < 1 \<or> 10 < k \<Longrightarrow> \<exists>t. int80 (kernel_calls E) k s = Some (-1, t) \<and> process_ok E f p K I t
      \<and> process_fds f p t = process_fds f p s \<and> process_args p t = process_args p s \<and> console_of t = console_of s"
    using kernel_bad_calls(5) [OF ok'] same unfolding s by blast
qed

end
