(* ===== verification/User_Session.thy ===== *)
theory User_Session
  imports User_Shell User_Errors
begin

text \<open>
  The whole system at work: a shell that the kernel runs, the commands typed at the keyboard, and the programs it
  starts. The theorems join the line editor, the terminal driver, the file system, the process calls and the user programs.
\<close>

section \<open>A shell that can start programs\<close>

definition ready :: "nat \<Rightarrow> nat \<Rightarrow> rest \<Rightarrow> bool" where
  "ready p i K \<longleftrightarrow>
     (case K of (ps, pg, fr, pcbs) \<Rightarrow>
        let q = pcbs (pcb_addr (int i))
        in length ps = 6 \<and> ps ! 0 \<noteq> 0 \<and> ps ! p \<noteq> 0 \<and> i = free_slot ps 0 \<and> i < 6
          \<and> proc_num (pcbs (pcb_addr (int p))) = int p \<and> length (page_dir pg) = 1024 \<and> length (fr (program_frame (int i))) = 0x400000
          \<and> length (argument q) = 128 \<and> 0 \<in> set (argument q) \<and> length (fd_arr q) = 8
          \<and> list_all (\<lambda>k. flags (fd_arr q ! k) = 0) [2..<8])"

definition program_in :: "fsys \<Rightarrow> u8 list \<Rightarrow> nat \<Rightarrow> u32 \<Rightarrow> bool" where
  "program_in f w k ino \<longleftrightarrow>
     find (\<lambda>k. dir_name f k = w) [0..<unat (dir_count f)] = Some k \<and> ino = inode_num (dir_entry f k) \<and> wf_file f ino
     \<and> 40 \<le> length (file_content f ino) \<and> take 4 (file_content f ino) = [0x7F, 0x45, 0x4C, 0x46]
     \<and> length (file_content f ino) \<le> 0x400000 - 0x48000"

lemma ready_slots:
  assumes "ready p i (rest_of p s)" and "p < 6"
  shows "i < 6" "i \<noteq> p" "i = free_slot (processes s) 0" "length (processes s) = 6"
proof -
  show i: "i < 6" "i = free_slot (processes s) 0" "length (processes s) = 6" using assms(1) by (simp_all add: ready_def rest_of_def Let_def)
  have "processes s ! p \<noteq> 0" using assms(1) by (simp add: ready_def rest_of_def Let_def)
  moreover have "processes s ! i = 0" using free_slot_props [of 0 "processes s"] i(1,2) by simp
  ultimately show "i \<noteq> p" by metis
qed

lemma ready_iff:
  assumes "i \<noteq> p" and "p < 6" "i < 6"
  shows "ready p i (rest_of p s) \<longleftrightarrow>
    caller_ok p s \<and> slot_ready i s \<and> length (processes s) = 6 \<and> i = free_slot (processes s) 0"
proof -
  have "pcb_addr (int i) \<noteq> pcb_addr (int p)" using pcb_addr_inj [of "int i" "int p"] assms by auto
  then show ?thesis
    using assms by (auto simp: ready_def rest_of_def Let_def caller_ok_def slot_ready_def slot_clean_def)
qed

lemma ready_startable:
  assumes "ready p i (rest_of p s)" and "p < 6" and "fs s = f" and "program_in f (command_word (cstr command)) k ino"
    and "0 \<in> set command" and "length (cstr command) \<le> 125"
  shows "startable command i k ino s"
proof -
  note r = ready_slots [OF assms(1,2)]
  have s: "slot_ready i s" using assms(1) ready_iff [OF r(2) assms(2) r(1), of s] by blast
  have "length (command_args (cstr command)) < 128" using assms(6) by (simp add: command_args_def)
  then show ?thesis
    using assms(3-6) r s unfolding startable_def slot_ready_def program_in_def by auto
qed

lemma session_lines: "session_ok E f p G lns st \<Longrightarrow> l \<in> set lns \<Longrightarrow> 0 \<notin> set l \<and> length l \<le> 125"
proof -
  assume "session_ok E f p G lns st" and l: "l \<in> set lns"
  then obtain kls where k: "map snd kls = lns" "pending (Lines kls) st" by (auto simp: session_ok_def process_ok_def Let_def)
  from l k(1) obtain ks where "(ks, l) \<in> set kls" by auto
  with k(2) have "list_all2 (key_gives (snd st)) ks l" "length l \<le> 125" by (auto simp: pending_def list_all_iff)
  then show ?thesis by (induction rule: list_all2_induct) (auto simp: key_gives_def)
qed

text \<open>One command: it runs, prints, and the shell is ready for the next one.\<close>

lemma session_execute:
  assumes st: "session_ok E f p (ready p i) lns st" and "0 \<in> set command" and "length (cstr command) \<le> 125"
    and "program_in f (command_word (cstr command)) k ino" and "command_args (cstr command) \<noteq> []"
    and bufs: "length (env_header E) = 40" "length (env_entry E) = 4"
    and main: "\<And>L I st. process_ok E f i L I st \<Longrightarrow> process_args i st = command_args (cstr command) \<Longrightarrow> (\<And>d. process_fds f i st d = None) \<Longrightarrow>
      \<exists>t. env_run E (le_word (take 4 (drop 24 (file_content f ino)))) st = Some (status, t) \<and> process_ok E f i L I t
        \<and> console_of t = fold putc out (console_of st)"
  shows "\<exists>t. ece391_execute (kernel_calls E) command st = Some (status mod 256, t) \<and> session_ok E f p (ready p i) lns t
    \<and> console_of t = fold putc out (console_of st)"
proof -
  obtain es s where s: "st = (es, s)" by (cases st)
  from st obtain K kls where k: "ready p i K" "map snd kls = lns" "process_ok E f p K (Lines kls) (es, s)"
    unfolding session_ok_def s by blast
  have p: "p < 6" "fs s = f" "K = rest_of p s" using k(3) by (simp_all add: process_ok_def Let_def)
  note rd = k(1) [unfolded p(3)]
  note r = ready_slots [OF rd p(1)]
  have c: "caller_ok p s" "slot_ready i s" using rd ready_iff [OF r(2) p(1) r(1), of s] by blast+
  have sc: "slot_clean i s" using c(2) by (simp add: slot_ready_def)
  note start = ready_startable [OF rd p(1,2) assms(4,2,3)]
  have "length (command_word (cstr command)) < length (cstr command)" using assms(5) by (simp add: command_args_def)
  then have pa: "passed_args command i s = command_args (cstr command)" by (simp add: passed_args_def)
  have "\<exists>t. call_execute E command (es, s) = Some (status mod 256, t) \<and> process_ok E f p (rest_of p (snd t)) (Lines kls) t
    \<and> console_of t = fold putc out (console_of (es, s)) \<and> process_fds f p t = process_fds f p (es, s)
    \<and> process_args p t = process_args p (es, s) \<and> processes (snd t) = processes s
    \<and> pcb_at (snd t) (pcb_addr (int p)) = pcb_at s (pcb_addr (int p)) \<and> slot_ready i (snd t)"
    by (rule execute_runs [OF k(3) c(1) start sc bufs], rule main) (simp_all add: pa)
  then obtain t where t: "call_execute E command (es, s) = Some (status mod 256, t)" "process_ok E f p (rest_of p (snd t)) (Lines kls) t"
    "console_of t = fold putc out (console_of (es, s))" "processes (snd t) = processes s"
    "pcb_at (snd t) (pcb_addr (int p)) = pcb_at s (pcb_addr (int p))" "slot_ready i (snd t)" by blast
  have "ready p i (rest_of p (snd t))"
    using ready_iff [OF r(2) p(1) r(1), of "snd t"] c(1) t(4-6) r(3,4) by (simp add: caller_ok_def)
  then have "session_ok E f p (ready p i) lns t" using t(2) k(2) unfolding session_ok_def by blast
  moreover have "ece391_execute (kernel_calls E) command st = Some (status mod 256, t)" using t(1) by (simp add: s kernel_calls_def)
  ultimately show ?thesis using t(3) s by blast
qed

section \<open>Sessions\<close>

text \<open>A line that makes the shell run \<open>cat\<close> on a file of the image.\<close>

definition cat_line :: "fsys \<Rightarrow> u8 list \<Rightarrow> bool" where
  "cat_line f l \<longleftrightarrow> command_word l = bytes ''cat'' \<and> command_args l \<noteq> []
     \<and> (case image_lookup f (command_args l) of Some (File F n) \<Rightarrow> n = 0 | _ \<Rightarrow> False)"

definition shell_started :: "u8 list" where
  "shell_started = bytes ''Starting 391 Shell'' @ [10]"

text \<open>
  C3: a session with the shell. On a machine whose image holds the program \<open>cat\<close>, when the user types any sequence of lines,
  each of them empty, \<open>cat\<close> with the name of a file, or \<open>exit\<close>, the shell shows its greeting and then for each line up to
  the first \<open>exit\<close> the prompt, the echo of the line, and the bytes of the file; it exits with 0 and can still take the lines after that.
\<close>

theorem shell_runs_cat:
  assumes "session_ok E f p (ready p i) lns st" and "bytes ''exit'' \<in> set lns" and "length buf = 1024" "length cbuf = 1024"
    and "list_all (\<lambda>l. l = [] \<or> l = bytes ''exit'' \<or> cat_line f l) lns" and "program_in f (bytes ''cat'') k ino"
    and "length (env_header E) = 40" "length (env_entry E) = 4"
  shows "\<exists>t. shell (kernel_calls (E\<lparr>env_run := \<lambda>_. cat (kernel_calls E) cbuf\<rparr>)) buf st = Some (0, t)
    \<and> session_ok E f p (ready p i) (tl (dropWhile (\<lambda>l. l \<noteq> bytes ''exit'') lns)) t
    \<and> console_of t = shell_session putc echo_line (\<lambda>l. (0, stream_text (image_lookup f (command_args l)))) lns
        (fold putc shell_started (console_of st))"
proof -
  let ?E = "E\<lparr>env_run := \<lambda>_. cat (kernel_calls E) cbuf\<rparr>" and ?run = "\<lambda>l. (0 :: int, stream_text (image_lookup f (command_args l)))"
  have se: "session_ok ?E = session_ok E" by (simp add: session_ok_def fun_eq_iff)
  have bufs: "length (env_header ?E) = 40" "length (env_entry ?E) = 4" using assms(7,8) by simp_all
  have ex: "\<exists>t. ece391_execute (kernel_calls ?E) (l @ 0 # rest) s = Some (fst (?run l), t) \<and> session_ok ?E f p (ready p i) ms t
      \<and> console_of t = fold putc (snd (?run l)) (console_of s)"
    if l: "l \<in> set lns" "l \<noteq> []" "l \<noteq> bytes ''exit''" and s: "session_ok ?E f p (ready p i) ms s" for l ms rest s
  proof -
    have lt: "0 \<notin> set l" "length l \<le> 125" using session_lines [OF assms(1) l(1)] by auto
    have cs: "cstr (l @ 0 # rest) = l" using lt(1) by simp
    have cl: "cat_line f l" using assms(5) l by (auto simp: list_all_iff)
    then obtain F where F: "image_lookup f (command_args l) = Some (File F 0)" "command_args l \<noteq> []" "command_word l = bytes ''cat''"
      by (auto simp: cat_line_def split: option.splits stream.splits)
    have "\<exists>t. env_run ?E e st = Some (0, t) \<and> process_ok ?E f i L I t \<and> console_of t = fold putc F (console_of st)"
      if "process_ok ?E f i L I st" "process_args i st = command_args (cstr (l @ 0 # rest))" "\<And>d. process_fds f i st d = None" for L I st e
      using kernel_user.cat_prints(3) [of E f i L I st cbuf 2 F] that assms(4) F(1,2) cs by simp
    note main = this
    have a: "0 \<in> set (l @ 0 # rest)" "length (cstr (l @ 0 # rest)) \<le> 125" "program_in f (command_word (cstr (l @ 0 # rest))) k ino"
      "command_args (cstr (l @ 0 # rest)) \<noteq> []" by (simp_all add: cs lt F assms(6))
    have "\<exists>t. ece391_execute (kernel_calls ?E) (l @ 0 # rest) s = Some (0 mod 256, t) \<and> session_ok ?E f p (ready p i) ms t
      \<and> console_of t = fold putc F (console_of s)"
      by (rule session_execute [OF s a bufs], rule main)
    then show ?thesis using F(1) by (simp add: stream_text_def)
  qed
  have st: "session_ok ?E f p (ready p i) lns st" using assms(1) unfolding se .
  show ?thesis
    using kernel_session.shell_shows_session [where run = ?run, OF st assms(2,3) ex] unfolding se shell_started_def .
qed

text \<open>The keys of a line on the machine of the examples.\<close>

definition plain_key :: "u8 \<Rightarrow> char \<Rightarrow> bool" where
  "plain_key k ch \<longleftrightarrow> is_char_key (ucast k) \<and> ucast k \<noteq> SCAN_ENTER \<and> ucast k \<noteq> SCAN_BACKSPACE
     \<and> (case map_of us_layout (ucast k) of None \<Rightarrow> False | Some (lo, up) \<Rightarrow> lo = ch)"

definition cat_keys :: "u8 list" where "cat_keys = [0x2E, 0x1E, 0x14, 0x39, 0x19, 0x18, 0x12, 0x32]"
definition exit_keys :: "u8 list" where "exit_keys = [0x12, 0x2D, 0x17, 0x14]"

lemma plain_layout:
  "map (map_of us_layout) [0x2E, 0x1E, 0x14, 0x39, 0x19, 0x18] = map Some (zip ''cat po'' ''CAT PO'')"
  "map (map_of us_layout) [0x12, 0x32, 0x2D, 0x17, 0x0B] = map Some (zip ''emxi0'' ''EMXI)'')"
  by code_simp+

lemma keys_plain: "list_all2 plain_key cat_keys ''cat poem''" "list_all2 plain_key exit_keys ''exit''" "list_all2 plain_key [0x0B] ''0''"
  using plain_layout by (simp_all add: plain_key_def is_char_key_def cat_keys_def exit_keys_def)

lemma plain_key_gives:
  assumes "shift_on s = 0" "caps_lock_on s = 0" "plain_key k ch" and "of_char ch \<noteq> (0 :: u8)"
  shows "key_gives s k (of_char ch)"
proof -
  from assms(3) obtain up where u: "map_of us_layout (ucast k) = Some (ch, up)" by (auto simp: plain_key_def split: option.splits)
  have "map_of (table_entries scan_code_set) (ucast k) = map_option (key_char False False) (map_of us_layout (ucast k))"
    using table_entries_layout(1) by (rule map_of_table)
  with assms u show ?thesis by (simp add: key_gives_def plain_key_def scan_code_to_char_table key_char_def)
qed

lemma plain_keys_give:
  assumes "list_all2 plain_key ks w" and "shift_on s = 0" "caps_lock_on s = 0" and "0 \<notin> set (bytes w)"
  shows "list_all2 (key_gives s) ks (bytes w)"
  using assms(1,4) by (induction rule: list_all2_induct) (auto simp: bytes_def intro!: plain_key_gives [OF assms(2,3)])

lemma poem_typing: "typing [] 0 0 (snd (poem_state w))" "shift_on (snd (poem_state w)) = 0" "caps_lock_on (snd (poem_state w)) = 0"
  "enter_pressed (snd (poem_state w)) = 0"
proof -
  have t: "terminal.truncate (snd (poem_state w)) = terminal.truncate demo_kernel" by (simp add: poem_state_def sys_init_def terminal.defs)
  note e = truncate_terminal [OF t]
  have d: "typing [] 0 0 demo_kernel" "enter_pressed demo_kernel = 0"
    using demo_typing by (simp_all add: demo_kernel_def terminal.defs bss_terminal_def)
  show "typing [] 0 0 (snd (poem_state w))"
    using d(1) e by (simp add: typing_def line_inv_def line_clear_behind_def line_def)
  then show "shift_on (snd (poem_state w)) = 0" "caps_lock_on (snd (poem_state w)) = 0" by (simp_all add: typing_def)
  show "enter_pressed (snd (poem_state w)) = 0" using d(2) e(4) by simp
qed

lemma poem_session:
  assumes "list_all (\<lambda>(ks, w). list_all2 plain_key ks w \<and> 0 \<notin> set (bytes w) \<and> length w \<le> 125) kws" and "length v < 128"
    and "G (rest_of 0 (snd (poem_state v)))"
  shows "session_ok poem_env poem_fs 0 G (map (bytes \<circ> snd) kws) (typed (map (map_prod id bytes) kws), snd (poem_state v))"
proof -
  let ?s = "snd (poem_state v)" and ?k = "map (map_prod id bytes) kws"
  have lb: "length (bytes w) = length w" for w by (simp add: bytes_def)
  have "pending (Lines ?k) (typed ?k, ?s)"
    using assms(1) poem_typing [of v] lb by (auto simp: pending_def list_all_iff intro!: plain_keys_give)
  moreover have "process_ok poem_env poem_fs 0 (rest_of 0 ?s) Anything ([], ?s)"
    using poem_ok [OF assms(2)] by (simp add: poem_state_def)
  ultimately have "process_ok poem_env poem_fs 0 (rest_of 0 ?s) (Lines ?k) (typed ?k, ?s)" by (simp add: process_ok_def Let_def)
  moreover have "map snd ?k = map (bytes \<circ> snd) kws" by simp
  ultimately show ?thesis using assms(3) unfolding session_ok_def by blast
qed

lemma poem_ready: "ready 0 1 (rest_of 0 (snd (poem_state [])))"
proof -
  have "slot_clean 1 (snd (poem_state []))" by (simp add: slot_clean_def poem_state_fields poem_pcb_fields clear_fd_def)
  moreover have "caller_ok 0 (snd (poem_state []))"
    by (simp add: caller_ok_def poem_state_fields) (simp add: poem_state_def sys_init_def poem_pcb_def)
  moreover have "startable (bytes ''cat poem'' @ [0]) 1 2 1 (snd (poem_state []))" by (rule poem_startable) simp
  ultimately have "caller_ok 0 (snd (poem_state [])) \<and> slot_ready 1 (snd (poem_state [])) \<and> length (processes (snd (poem_state []))) = 6
      \<and> 1 = free_slot (processes (snd (poem_state []))) 0"
    unfolding slot_ready_def startable_def by blast
  then show ?thesis by (rule ready_iff [THEN iffD2, rotated -1]) simp_all
qed

theorem shell_runs_cat_witness:
  "\<exists>kls t. map snd kls = [bytes ''cat poem'', bytes ''exit'']
    \<and> shell (kernel_calls (poem_env\<lparr>env_run := \<lambda>_. cat (kernel_calls poem_env) (replicate 1024 0)\<rparr>)) (replicate 1024 0)
        (typed kls, snd (poem_state [])) = Some (0, t)
    \<and> console_of t = echo_line (bytes ''exit'') (fold putc (bytes ''391OS> '') (fold putc poem
        (echo_line (bytes ''cat poem'') (fold putc (shell_started @ bytes ''391OS> '') (console_of (poem_state []))))))"
proof -
  let ?kws = "[(cat_keys, ''cat poem''), (exit_keys, ''exit'')]" and ?l = "[bytes ''cat poem'', bytes ''exit'']"
  let ?k = "map (map_prod id bytes) ?kws"
  have ok: "session_ok poem_env poem_fs 0 (ready 0 1) ?l (typed ?k, snd (poem_state []))"
    using poem_session [of ?kws "[]" "ready 0 1"] keys_plain poem_ready by (simp add: bytes_def)
  have w: "command_word (bytes ''cat poem'') = bytes ''cat''" "command_args (bytes ''cat poem'') = bytes ''poem''" "bytes ''poem'' \<noteq> []"
    by (simp_all add: command_word_def command_args_def bytes_def)
  have ne: "bytes ''cat poem'' \<noteq> bytes ''exit''" "bytes ''cat poem'' \<noteq> []" by (simp_all add: bytes_def)
  have "list_all (\<lambda>l. l = [] \<or> l = bytes ''exit'' \<or> cat_line poem_fs l) ?l" using w by (simp add: cat_line_def poem_lookup(2))
  moreover have "program_in poem_fs (bytes ''cat'') 2 1"
    using poem_find poem_wf(2) by (simp add: program_in_def poem_content poem_fs_facts poem_length) (simp add: cat_elf_def)
  moreover have "length (env_header poem_env) = 40" "length (env_entry poem_env) = 4" by (simp_all add: poem_env_def)
  ultimately obtain t where
    t: "shell (kernel_calls (poem_env\<lparr>env_run := \<lambda>_. cat (kernel_calls poem_env) (replicate 1024 0)\<rparr>)) (replicate 1024 0)
        (typed ?k, snd (poem_state [])) = Some (0, t)"
    "console_of t = shell_session putc echo_line (\<lambda>l. (0, stream_text (image_lookup poem_fs (command_args l)))) ?l
        (fold putc shell_started (console_of (typed ?k, snd (poem_state []))))"
    using shell_runs_cat [OF ok, of "replicate 1024 0" "replicate 1024 0" 2 1] by auto
  have "console_of (typed ?k, snd (poem_state [])) = console_of (poem_state [])" by (simp add: console_of_def)
  then have "console_of t = echo_line (bytes ''exit'') (fold putc (bytes ''391OS> '') (fold putc poem
        (echo_line (bytes ''cat poem'') (fold putc (shell_started @ bytes ''391OS> '') (console_of (poem_state []))))))"
    using t(2) ne w(2) by (simp add: Let_def poem_lookup(2) stream_text_def remark_def)
  then show ?thesis using t(1) by (intro exI [of _ ?k] exI [of _ t]) simp
qed

section \<open>Other programs\<close>

text \<open>
  C6: the kernel passes the conformance test of its system calls. When the user answers the question of \<open>syserr\<close> with 0, a
  process whose descriptors from 2 on are free, on an image with the entry \<open>.\<close> and without the three names the test must not
  find, runs all eight tests to the end: each of them returns 0 and prints its PASS line, in order, and the program exits with 0
  and with no descriptor open.
\<close>

theorem syserr_passes:
  assumes "session_ok E f p G (bytes ''0'' # lns) st" and "length buf = 128"
    and "image_lookup f (bytes ''.'') = Some x" and "\<And>d. 2 \<le> d \<Longrightarrow> d < 8 \<Longrightarrow> process_fds f p st d = None"
    and "image_lookup f (bytes ''helloo'') = None" "image_lookup f (bytes ''shel'') = None" "image_lookup f [] = None"
  shows "\<exists>t. syserr (kernel_calls E) tbuf buf st = Some (0, t) \<and> session_ok E f p G lns t \<and> process_fds f p t = process_fds f p st
    \<and> console_of t = fold putc (concat (map pass_line [''err_neg_fd'', ''err_big_fd'', ''err_open_lots'', ''err_open'', ''err_unopened'',
          ''err_vidmap'', ''err_stdin_out'', ''err_syscall_num'']) @ [10] @ pass_line ''Overall Tests'')
        (echo_line (bytes ''0'') (fold putc (bytes ''Choose from tests 1-8. 0 to run all: '') (console_of st)))"
proof -
  let ?p = "''Choose from tests 1-8. 0 to run all: ''" and ?c = "kernel_calls E"
  have np: "0 \<notin> set (bytes ?p)" by (simp add: bytes_def)
  from kernel_session.user.fdputs_out [OF assms(1), of "lit ?p"] np obtain s1 where
    1: "ece391_fdputs ?c 1 (lit ?p) st = Some s1" "session_ok E f p G (bytes ''0'' # lns) s1" "process_fds f p s1 = process_fds f p st"
    "console_of s1 = fold putc (bytes ?p) (console_of st)" by auto
  have ln: "length (bytes ''0'') = 1" by (simp add: bytes_def)
  from kernel_session.read_line [OF 1(2), of 127 buf] assms(2) obtain s2 where
    2: "ece391_read ?c 0 buf 127 s1 = Some (2, bytes ''0'' @ 10 # drop 2 buf, s2)" "session_ok E f p G lns s2"
    "process_fds f p s2 = process_fds f p st" "console_of s2 = echo_line (bytes ''0'') (console_of s1)"
    using 1(3) by (auto simp: ln numeral_2_eq_2)
  from 2(2) obtain K kls where k: "G K" "map snd kls = lns" "process_ok E f p K (Lines kls) s2" unfolding session_ok_def by blast
  have fr: "process_fds f p s2 d = None" if "2 \<le> d" "d < 8" for d using assms(4) [OF that] 2(3) by simp
  from kernel_checked.syserr_all_passes [OF k(3) assms(3) fr assms(5-7), of tbuf] obtain t where
    t: "syserr_all ?c tbuf s2 = Some (0, t)" "process_ok E f p K (Lines kls) t" "process_fds f p t = process_fds f p s2"
    "console_of t = fold putc (concat (map pass_line [''err_neg_fd'', ''err_big_fd'', ''err_open_lots'', ''err_open'', ''err_unopened'',
          ''err_vidmap'', ''err_stdin_out'', ''err_syscall_num'']) @ [10] @ pass_line ''Overall Tests'') (console_of s2)" by blast
  have "syserr ?c tbuf buf st = Some (0, t)" using 1(1) 2(1) t(1) by (simp add: syserr_def bytes_def)
  moreover have "session_ok E f p G lns t" using k t(2) unfolding session_ok_def by blast
  ultimately show ?thesis using t(3,4) 2(3,4) 1(4) by (intro exI [of _ t]) simp
qed

theorem syserr_passes_witness:
  "\<exists>st t. syserr (kernel_calls poem_env) (replicate 32 0) (replicate 128 0) st = Some (0, t)"
proof -
  have "image_lookup poem_fs w = None" if "w \<notin> {bytes ''.'', bytes ''poem'', bytes ''cat''}" for w
    using that poem_dir_name by (auto simp: image_lookup_def poem_entries)
  then have n: "image_lookup poem_fs (bytes ''helloo'') = None" "image_lookup poem_fs (bytes ''shel'') = None" "image_lookup poem_fs [] = None"
    by (simp_all add: bytes_def)
  let ?k = "map (map_prod id bytes) [([0x0B], ''0'')]"
  have ok: "session_ok poem_env poem_fs 0 (\<lambda>_. True) [bytes ''0''] (typed ?k, snd (poem_state []))"
    using poem_session [of "[([0x0B], ''0'')]" "[]" "\<lambda>_. True"] keys_plain(3) by (simp add: bytes_def)
  have fr: "process_fds poem_fs 0 (typed ?k, snd (poem_state [])) d = None" if "2 \<le> d" "d < 8" for d
    using poem_free [OF that, of "[]"] by (simp only: process_fds_def snd_conv)
  have l: "length (replicate 128 0 :: u8 list) = 128" by simp
  from syserr_passes [OF ok l poem_lookup(1) fr n, of "replicate 32 0"] show ?thesis by blast
qed



text \<open>The greeting of \<open>hello\<close>, and \<open>testprint\<close>.\<close>

lemma hello_greets_user:
  assumes "session_ok E f p G (l # lns) st" and "length buf = 1024"
  shows "\<exists>t. hello (kernel_calls E) buf st = Some (0, t) \<and> session_ok E f p G lns t
    \<and> console_of t = fold putc (bytes ''Hello, '' @ l @ [10]) (echo_line l
        (fold putc (bytes (''Hi, what'' @ apostrophe @ ''s your name? '')) (console_of st)))"
  using assms by (rule kernel_session.hello_greets)

lemma testprint_prints:
  assumes "process_ok E f p K I st"
  shows "\<exists>t. testprint (kernel_calls E) st = Some (0, t) \<and> process_ok E f p K I t
    \<and> console_of t = fold putc (bytes ''Hello, if this ran, the program was correct. Yay!'' @ [10]) (console_of st)"
proof -
  have "0 \<notin> set (bytes ''Hello, if this ran, the program was correct. Yay!'')" by (simp add: bytes_def)
  then show ?thesis
    using kernel_user.fdputs_out [OF assms, of "lit_ln ''Hello, if this ran, the program was correct. Yay!''"]
    by (auto simp: testprint_def)
qed

end
