(* ===== verification/User_Signals.thy ===== *)
theory User_Signals
  imports User_Session Boot
begin

text \<open>
  The signal test \<^verbatim>\<open>src/syscalls/ece391sigtest.c\<close>: a program that stores through a null pointer and means its own handler to
  redirect the pointer. The store is a parameter of the program; \<open>kernel_store\<close> is what the page tables and the exception handler of the
  kernel make of it. The kernel's \<open>sys_set_handler\<close> records nothing, so the handlers of the program are never called.
\<close>

section \<open>The program\<close>

record sig_vars =
  charbuf :: u8
  badbuf :: u32

datatype 's run = Returned int 's | Trapped 's

definition print_signum :: "'s syscalls \<Rightarrow> int \<Rightarrow> 's \<Rightarrow> 's option" where
  "print_signum c signum s =
     ece391_fdputs c 1
       (if signum = 0 then lit_ln ''0'' else if signum = 1 then lit_ln ''1'' else if signum = 2 then lit_ln ''2''
        else if signum = 3 then lit_ln ''3'' else lit_ln ''invalid'') s"

text \<open>The first component of the result is the value that the handler stores into the saved register; \<open>cb\<close> is the address of \<open>charbuf\<close>.\<close>

definition segfault_sighandler :: "'s syscalls \<Rightarrow> u32 \<Rightarrow> u8 \<Rightarrow> int \<Rightarrow> sig_vars \<Rightarrow> 's \<Rightarrow> (u32 \<times> sig_vars \<times> 's) option" where
  "segfault_sighandler c cb b signum v s =
     do {
       s \<leftarrow> ece391_fdputs c 1 (lit ''Segfault signal handler called, signum: '') s;
       s \<leftarrow> print_signum c signum s;
       s \<leftarrow> ece391_fdputs c 1 (lit_ln ''Press enter to continue...'') s;
       (_, _, s) \<leftarrow> ece391_read c 0 [b] 1 s;
       let v = v\<lparr>badbuf := cb\<rparr>;
       s \<leftarrow> ece391_fdputs c 1 (lit_ln ''Signal handler returning'') s;
       Some (cb, v, s)
     }"

definition alarm_sighandler :: "'s syscalls \<Rightarrow> int \<Rightarrow> 's \<Rightarrow> 's option" where
  "alarm_sighandler c signum s =
     do {
       s \<leftarrow> ece391_fdputs c 1 (lit ''Alarm signal handler called, signum: '') s;
       print_signum c signum s
     }"

text \<open>
  \<open>main\<close> up to the store, and after it. \<open>h1\<close> and \<open>h2\<close> are the addresses of the handlers, which are installed for the signals 1 (\<open>SEGFAULT\<close>) and 3 (\<open>ALARM\<close>).
\<close>

definition sigtest_ask ::
  "'s syscalls \<Rightarrow> (int \<Rightarrow> u32 \<Rightarrow> 's \<Rightarrow> (int \<times> 's) option) \<Rightarrow> u32 \<Rightarrow> u32 \<Rightarrow> u8 list \<Rightarrow> 's \<Rightarrow> ((int + int \<times> u8 list) \<times> 's) option" where
  "sigtest_ask c set_handler h1 h2 buf s =
     do {
       (r, buf, s) \<leftarrow> ece391_getargs c buf 1024 s;
       if r \<noteq> 0 then do { s \<leftarrow> ece391_fdputs c 1 (lit_ln ''could not read argument'') s; Some (Inl 3, s) }
       else
         do {
           b0 \<leftarrow> rd buf 0;
           s \<leftarrow> (if b0 = of_char CHR ''1'' then
                   do {
                     s \<leftarrow> ece391_fdputs c 1 (lit_ln ''Installing signal handlers'') s;
                     (_, s) \<leftarrow> set_handler 1 h1 s;
                     (_, s) \<leftarrow> set_handler 3 h2 s;
                     Some s
                   }
                 else Some s);
           s \<leftarrow> ece391_fdputs c 1 (lit (''Hi, what'' @ apostrophe @ ''s your name? '')) s;
           (cnt, buf, s) \<leftarrow> ece391_read c 0 buf 1023 s;
           if cnt = -1 then
             do { s \<leftarrow> ece391_fdputs c 1 (lit_ln (''Can'' @ apostrophe @ ''t read name from keyboard.'')) s; Some (Inl 3, s) }
           else Some (Inr (cnt, buf), s)
         }
     }"

definition sigtest_greet :: "'s syscalls \<Rightarrow> sig_vars \<Rightarrow> int \<Rightarrow> u8 list \<Rightarrow> 's \<Rightarrow> (int \<times> 's) option" where
  "sigtest_greet c v cnt buf s =
     do {
       buf \<leftarrow> wr buf (nat cnt) 0;
       s \<leftarrow> ece391_fdputs c 1 (lit ''Hello, '') s;
       s \<leftarrow> ece391_fdputs c 1 buf s;
       s \<leftarrow> ece391_fdputs c 1 (if charbuf v = 1 then lit_ln ''success'' else lit_ln ''failure'') s;
       Some (0, s)
     }"

text \<open>\<open>store\<close> is a store through a pointer: the variables after it, or the state in which the machine stays when it traps.\<close>

definition sigtest ::
  "'s syscalls \<Rightarrow> (int \<Rightarrow> u32 \<Rightarrow> 's \<Rightarrow> (int \<times> 's) option) \<Rightarrow> (u32 \<Rightarrow> u8 \<Rightarrow> sig_vars \<Rightarrow> 's \<Rightarrow> ('s + sig_vars \<times> 's) option)
   \<Rightarrow> u32 \<Rightarrow> u32 \<Rightarrow> sig_vars \<Rightarrow> u8 list \<Rightarrow> 's \<Rightarrow> 's run option" where
  "sigtest c set_handler store h1 h2 v buf s =
     do {
       (r, s) \<leftarrow> sigtest_ask c set_handler h1 h2 buf s;
       case r of
         Inl code \<Rightarrow> Some (Returned code s)
       | Inr (cnt, buf) \<Rightarrow>
           do {
             x \<leftarrow> store (badbuf v) 1 v s;
             case x of
               Inl s \<Rightarrow> Some (Trapped s)
             | Inr (v, s) \<Rightarrow> do { (code, s) \<leftarrow> sigtest_greet c v cnt buf s; Some (Returned code s) }
           }
     }"

section \<open>What it does\<close>

text \<open>An interactive system on which handlers can be installed.\<close>

locale signal_system = interactive_system +
  fixes set_handler :: "int \<Rightarrow> u32 \<Rightarrow> 'a \<Rightarrow> (int \<times> 'a) option"
  assumes install: "ok lns s \<Longrightarrow> \<exists>t. set_handler k h s = Some (0, t) \<and> ok lns t \<and> args t = args s \<and> screen t = screen s"

definition sigtest_intro :: "u8 \<Rightarrow> u8 list" where
  "sigtest_intro b =
     (if b = of_char CHR ''1'' then bytes ''Installing signal handlers'' @ [10] else []) @ bytes (''Hi, what'' @ apostrophe @ ''s your name? '')"

context signal_system
begin

lemma put_lit:
  assumes "ok lns s" and "0 \<notin> set (bytes w)"
  shows "\<exists>t. ece391_fdputs c 1 (lit w) s = Some t \<and> ok lns t \<and> args t = args s \<and> screen t = fold put (bytes w) (screen s)"
    "\<exists>t. ece391_fdputs c 1 (lit_ln w) s = Some t \<and> ok lns t \<and> args t = args s \<and> screen t = fold put (bytes w @ [10]) (screen s)"
proof -
  have "cstr (lit w) = bytes w" "cstr (lit_ln w) = bytes w @ [10]"
    using cstr_append_nul [of "bytes w" "[]"] cstr_append_nul [of "bytes w @ [10]" "[]"] assms(2) by (simp_all add: lit_def lit_ln_def)
  moreover have "0 \<in> set (lit w)" "0 \<in> set (lit_ln w)" by (simp_all add: lit_def lit_ln_def)
  ultimately show "\<exists>t. ece391_fdputs c 1 (lit w) s = Some t \<and> ok lns t \<and> args t = args s \<and> screen t = fold put (bytes w) (screen s)"
    "\<exists>t. ece391_fdputs c 1 (lit_ln w) s = Some t \<and> ok lns t \<and> args t = args s \<and> screen t = fold put (bytes w @ [10]) (screen s)"
    using user.fdputs_out [OF assms(1), of "lit w"] user.fdputs_out [OF assms(1), of "lit_ln w"] by auto
qed

lemma sigtest_ask_fails:
  assumes "ok lns s" and "length buf = 1024" and "args s = []"
  shows "\<exists>t. sigtest_ask c set_handler h1 h2 buf s = Some (Inl 3, t) \<and> ok lns t
    \<and> screen t = fold put (bytes ''could not read argument'' @ [10]) (screen s)"
proof -
  from user.getargs [OF assms(1), of buf 1024] assms(2,3) obtain b s1 where
    1: "ece391_getargs c buf 1024 s = Some (-1, b, s1)" "ok lns s1" "screen s1 = screen s" by auto
  from put_lit(2) [OF 1(2), of "''could not read argument''"] obtain s2 where
    2: "ece391_fdputs c 1 (lit_ln ''could not read argument'') s1 = Some s2" "ok lns s2"
    "screen s2 = fold put (bytes ''could not read argument'' @ [10]) (screen s1)" by (auto simp: bytes_def)
  from 1(1) 2(1) have "sigtest_ask c set_handler h1 h2 buf s = Some (Inl 3, s2)" by (simp add: sigtest_ask_def)
  with 1(3) 2(2,3) show ?thesis by (simp only: ) blast
qed

lemma sigtest_installs:
  assumes "ok lns s"
  shows "\<exists>t. (if b0 = of_char CHR ''1'' then
        do { s \<leftarrow> ece391_fdputs c 1 (lit_ln ''Installing signal handlers'') s; (_, s) \<leftarrow> set_handler 1 h1 s; (_, s) \<leftarrow> set_handler 3 h2 s; Some s }
      else Some s) = Some t \<and> ok lns t
    \<and> screen t = fold put (if b0 = of_char CHR ''1'' then bytes ''Installing signal handlers'' @ [10] else []) (screen s)"
proof (cases "b0 = of_char CHR ''1''")
  case True
  from put_lit(2) [OF assms, of "''Installing signal handlers''"] obtain s1 where
    1: "ece391_fdputs c 1 (lit_ln ''Installing signal handlers'') s = Some s1" "ok lns s1"
    "screen s1 = fold put (bytes ''Installing signal handlers'' @ [10]) (screen s)" by (auto simp: bytes_def)
  from install [OF 1(2), of 1 h1] obtain s2 where 2: "set_handler 1 h1 s1 = Some (0, s2)" "ok lns s2" "screen s2 = screen s1" by blast
  from install [OF 2(2), of 3 h2] obtain s3 where 3: "set_handler 3 h2 s2 = Some (0, s3)" "ok lns s3" "screen s3 = screen s2" by blast
  show ?thesis using True 1(1,3) 2(1,3) 3 by (intro exI [of _ s3]) simp
qed (use assms in simp)

lemma sigtest_asks:
  assumes "ok (l # lns) s" and "length buf = 1024" and "args s \<noteq> []"
  shows "\<exists>t b. sigtest_ask c set_handler h1 h2 buf s = Some (Inr (int (length l) + 1, l @ 10 # b), t) \<and> length l + length b = 1023 \<and> ok lns t
    \<and> screen t = echo l (fold put (sigtest_intro (hd (args s))) (screen s))"
proof -
  have l: "length l \<le> 125" using line_text [OF assms(1)] by simp
  from user.getargs [OF assms(1), of buf 1024] assms(2,3) obtain b s1 where
    1: "ece391_getargs c buf 1024 s = Some (0, b, s1)" "length b = 1024" "cstr b = args s" "ok (l # lns) s1" "screen s1 = screen s" by auto
  have "cstr b \<noteq> []" using 1(3) assms(3) by simp
  then have "rd b 0 = Some (hd (cstr b))" by (cases b) (auto simp: rd_def cstr_def split: if_splits)
  then have "rd b 0 = Some (hd (args s))" unfolding 1(3) .
  moreover from sigtest_installs [OF 1(4), of "hd (args s)" h1 h2] obtain s2 where
    2: "(if hd (args s) = of_char CHR ''1'' then
        do { s \<leftarrow> ece391_fdputs c 1 (lit_ln ''Installing signal handlers'') s1; (_, s) \<leftarrow> set_handler 1 h1 s; (_, s) \<leftarrow> set_handler 3 h2 s; Some s }
      else Some s1) = Some s2" "ok (l # lns) s2"
    "screen s2 = fold put (if hd (args s) = of_char CHR ''1'' then bytes ''Installing signal handlers'' @ [10] else []) (screen s1)" by blast
  moreover from put_lit(1) [OF 2(2), of "''Hi, what'' @ apostrophe @ ''s your name? ''"] obtain s3 where
    3: "ece391_fdputs c 1 (lit (''Hi, what'' @ apostrophe @ ''s your name? '')) s2 = Some s3" "ok (l # lns) s3"
    "screen s3 = fold put (bytes (''Hi, what'' @ apostrophe @ ''s your name? '')) (screen s2)" by (auto simp: bytes_def)
  moreover from read_line [OF 3(2), of 1023 b] l 1(2) obtain s4 where
    4: "ece391_read c 0 b 1023 s3 = Some (int (length l) + 1, l @ 10 # drop (Suc (length l)) b, s4)" "ok lns s4" "screen s4 = echo l (screen s3)" by auto
  ultimately have "sigtest_ask c set_handler h1 h2 buf s = Some (Inr (int (length l) + 1, l @ 10 # drop (Suc (length l)) b), s4)"
    using 1(1) unfolding sigtest_ask_def
    by (simp only: Option.bind.bind_lunit prod.case if_P if_not_P refl not_True_eq_False) simp
  moreover have "screen s4 = echo l (fold put (sigtest_intro (hd (args s))) (screen s))"
    unfolding 4(3) 3(3) 2(3) 1(5) sigtest_intro_def by (simp only: fold_append comp_apply)
  moreover have "length l + length (drop (Suc (length l)) b) = 1023" using 1(2) l by simp
  ultimately show ?thesis using 4(2) by blast
qed

lemma sigtest_greets:
  assumes "ok lns s" and "0 \<notin> set l" and "b \<noteq> []"
  shows "\<exists>t. sigtest_greet c v (int (length l) + 1) (l @ 10 # b) s = Some (0, t) \<and> ok lns t
    \<and> screen t = fold put (bytes ''Hello, '' @ l @ [10] @ bytes (if charbuf v = 1 then ''success'' else ''failure'') @ [10]) (screen s)"
proof -
  obtain x r where b: "b = x # r" using assms(3) by (cases b) auto
  have w: "wr (l @ 10 # b) (nat (int (length l) + 1)) 0 = Some (l @ 10 # 0 # r)"
    by (simp add: b nat_add_distrib list_update_append)
  from put_lit(1) [OF assms(1), of "''Hello, ''"] obtain s1 where
    1: "ece391_fdputs c 1 (lit ''Hello, '') s = Some s1" "ok lns s1" "screen s1 = fold put (bytes ''Hello, '') (screen s)" by (auto simp: bytes_def)
  have "cstr (l @ 10 # 0 # r) = l @ [10]" using cstr_append_nul [of "l @ [10]" r] assms(2) by simp
  with user.fdputs_out [OF 1(2), of "l @ 10 # 0 # r"] obtain s2 where
    2: "ece391_fdputs c 1 (l @ 10 # 0 # r) s1 = Some s2" "ok lns s2" "screen s2 = fold put (l @ [10]) (screen s1)" by auto
  let ?m = "if charbuf v = 1 then ''success'' else ''failure''"
  have "0 \<notin> set (bytes ?m)" by (simp add: bytes_def)
  from put_lit(2) [OF 2(2) this] obtain s3 where
    3: "ece391_fdputs c 1 (lit_ln ?m) s2 = Some s3" "ok lns s3" "screen s3 = fold put (bytes ?m @ [10]) (screen s2)" by blast
  from 3(1) have "ece391_fdputs c 1 (if charbuf v = 1 then lit_ln ''success'' else lit_ln ''failure'') s2 = Some s3" by (simp split: if_splits)
  then have "sigtest_greet c v (int (length l) + 1) (l @ 10 # b) s = Some (0, s3)" using w 1(1) 2(1) by (simp add: sigtest_greet_def)
  moreover have "screen s3 = fold put (bytes ''Hello, '' @ l @ [10] @ bytes ?m @ [10]) (screen s)"
    unfolding 3(3) 2(3) 1(3) by (simp only: fold_append comp_apply)
  ultimately show ?thesis using 3(2) by blast
qed

text \<open>The handler, when Enter is pressed: it moves the pointer to \<open>charbuf\<close>.\<close>

lemma segfault_redirects:
  assumes "ok ([] # lns) s"
  shows "\<exists>t. segfault_sighandler c cb b signum v s = Some (cb, v\<lparr>badbuf := cb\<rparr>, t) \<and> ok lns t"
proof -
  from put_lit(1) [OF assms, of "''Segfault signal handler called, signum: ''"] obtain s1 where
    1: "ece391_fdputs c 1 (lit ''Segfault signal handler called, signum: '') s = Some s1" "ok ([] # lns) s1" by (auto simp: bytes_def)
  define m where "m = (if signum = 0 then ''0'' else if signum = 1 then ''1'' else if signum = 2 then ''2'' else if signum = 3 then ''3'' else ''invalid'')"
  have m: "print_signum c signum x = ece391_fdputs c 1 (lit_ln m) x" "0 \<notin> set (bytes m)" for x by (simp_all add: print_signum_def m_def bytes_def)
  from put_lit(2) [OF 1(2) m(2)] obtain s2 where 2: "print_signum c signum s1 = Some s2" "ok ([] # lns) s2" by (auto simp: m(1))
  from put_lit(2) [OF 2(2), of "''Press enter to continue...''"] obtain s3 where
    3: "ece391_fdputs c 1 (lit_ln ''Press enter to continue...'') s2 = Some s3" "ok ([] # lns) s3" by (auto simp: bytes_def)
  from read_line [OF 3(2), of 1 "[b]"] obtain s4 where 4: "ece391_read c 0 [b] 1 s3 = Some (1, [10], s4)" "ok lns s4" by auto
  from put_lit(2) [OF 4(2), of "''Signal handler returning''"] obtain s5 where
    5: "ece391_fdputs c 1 (lit_ln ''Signal handler returning'') s4 = Some s5" "ok lns s5" by (auto simp: bytes_def)
  from 1(1) 2(1) 3(1) 4(1) 5 show ?thesis by (simp add: segfault_sighandler_def)
qed

end

section \<open>On the kernel\<close>

definition kernel_set_handler :: "environment \<Rightarrow> int \<Rightarrow> u32 \<Rightarrow> irq list \<times> kernel \<Rightarrow> (int \<times> irq list \<times> kernel) option" where
  "kernel_set_handler E signum h = (\<lambda>(es, s). Some (sys_set_handler signum h, es, in_call E s))"

text \<open>
  A store of user code: without a translation the page fault handler runs and never returns. \<open>poke\<close> is the store into the frame, with its
  effect on the variables.
\<close>

definition kernel_store ::
  "u32 \<Rightarrow> u32 \<Rightarrow> (u32 \<Rightarrow> u8 list) \<Rightarrow> (u32 \<Rightarrow> u8 \<Rightarrow> sig_vars \<Rightarrow> irq list \<times> kernel \<Rightarrow> sig_vars \<times> irq list \<times> kernel)
   \<Rightarrow> u32 \<Rightarrow> u8 \<Rightarrow> sig_vars \<Rightarrow> irq list \<times> kernel \<Rightarrow> (irq list \<times> kernel + sig_vars \<times> irq list \<times> kernel) option" where
  "kernel_store pt vt str poke a x v = (\<lambda>(es, s).
     case translate pt vt (paging s) True a of
       None \<Rightarrow> do { s \<leftarrow> exception_int str page_fault_int s; Some (Inl (es, s)) }
     | Some b \<Rightarrow> Some (Inr (poke b x v (es, s))))"

interpretation kernel_signals: signal_system "kernel_calls E" "session_ok E f p G" console_of putc echo_line
  "process_fds f p" "process_args p" "image_lookup f" "image_names f" "kernel_set_handler E"
proof unfold_locales
  fix lns :: "u8 list list" and s :: "irq list \<times> kernel" and k :: int and h :: u32
  assume "session_ok E f p G lns s"
  then obtain K kls where K: "G K" "map snd kls = lns" "process_ok E f p K (Lines kls) s" by (auto simp: session_ok_def)
  obtain es u where s: "s = (es, u)" by (cases s)
  have "session_ok E f p G lns (es, in_call E u)"
    using process_ok_in_call [OF K(3) [unfolded s]] K(1,2) unfolding session_ok_def by blast
  then show "\<exists>t. kernel_set_handler E k h s = Some (0, t) \<and> session_ok E f p G lns t
      \<and> process_args p t = process_args p s \<and> console_of t = console_of s"
    by (simp add: s kernel_set_handler_def sys_set_handler_def process_args_def console_of_def)
qed

lemma page_fault_prints: "exception_int str page_fault_int s = Some (fold putc (bytes ''page fault exception'') s)"
proof -
  have "list_all (\<lambda>c. c \<noteq> 0 \<and> c \<noteq> of_char CHR ''%'' \<and> c \<noteq> 10 \<and> c \<noteq> 13) (bytes (exception_message page_fault_int))" by (rule exception_message_plain)
  then have "0 \<notin> set (bytes (exception_message page_fault_int))" "of_char CHR ''%'' \<notin> set (bytes (exception_message page_fault_int))"
    by (auto simp: list_all_iff)
  from printf_loop_plain [OF this] show ?thesis by (simp add: exception_int_def printf_def exception_message_def)
qed

lemma null_store_traps:
  assumes "paging s = with_program (int p) (page_fill pt q)" and "pt AND 0xFFF = 0" and "p < 6"
  shows "kernel_store pt vt str poke 0 x v (es, s) = Some (Inl (es, fold putc (bytes ''page fault exception'') s))"
  using translate_program [OF assms(2), of "int p" vt q 0] assms(1,3) by (simp add: kernel_store_def page_fault_prints)

lemma process_ok_paging:
  assumes "process_ok E f p K I (es, s)"
  shows "process_ok E f p (rest_of p (s\<lparr>paging := q\<rparr>)) I (es, s\<lparr>paging := q\<rparr>)"
proof -
  have "pending I (es, s\<lparr>paging := q\<rparr>) = pending I (es, s)" by (rule pending_cong) (simp add: terminal.defs)
  then show ?thesis using assms by (simp add: process_ok_def Let_def sys_init_def)
qed

text \<open>
  C25: the signal test on the kernel. Given an argument, the program prints its prompts, for an argument that begins with 1 also that it installs its handlers,
  and reads the typed name. The store through the null pointer then has no translation: the page fault handler prints its message and loops with interrupts
  off. The kernel delivers no signal, so neither a handler nor the greeting runs. Without an argument the program returns 3.
\<close>

theorem sigtest_stops_kernel:
  assumes "session_ok E f p (\<lambda>K. fst (snd K) = with_program (int p) (page_fill pt q)) (l # lns) st" and "pt AND 0xFFF = 0" and "length buf = 1024"
  shows "\<exists>t. sigtest (kernel_calls E) (kernel_set_handler E) (kernel_store pt vt str poke) h1 h2 \<lparr>charbuf = 0, badbuf = 0\<rparr> buf st =
        Some (if process_args p st = [] then Returned 3 t else Trapped t)
    \<and> console_of t =
        (if process_args p st = [] then fold putc (bytes ''could not read argument'' @ [10]) (console_of st)
         else fold putc (bytes ''page fault exception'') (echo_line l (fold putc (sigtest_intro (hd (process_args p st))) (console_of st))))"
proof (cases "process_args p st = []")
  case True
  from kernel_signals.sigtest_ask_fails [OF assms(1,3) True, of h1 h2] obtain t where
    "sigtest_ask (kernel_calls E) (kernel_set_handler E) h1 h2 buf st = Some (Inl 3, t)"
    "console_of t = fold putc (bytes ''could not read argument'' @ [10]) (console_of st)" by blast
  then show ?thesis unfolding sigtest_def if_P [OF True] by (intro exI [of _ t]) simp
next
  case False
  from kernel_signals.sigtest_asks [OF assms(1,3) False, of h1 h2] obtain t b where
    t: "sigtest_ask (kernel_calls E) (kernel_set_handler E) h1 h2 buf st = Some (Inr (int (length l) + 1, l @ 10 # b), t)"
    "session_ok E f p (\<lambda>K. fst (snd K) = with_program (int p) (page_fill pt q)) lns t"
    "console_of t = echo_line l (fold putc (sigtest_intro (hd (process_args p st))) (console_of st))" by blast
  obtain es s where s: "t = (es, s)" by (cases t)
  from t(2) obtain K kls where K: "fst (snd K) = with_program (int p) (page_fill pt q)" "process_ok E f p K (Lines kls) (es, s)"
    unfolding session_ok_def s by blast
  have "p < 6" "rest_of p s = K" using K(2) by (simp_all add: process_ok_def Let_def)
  then have "paging s = with_program (int p) (page_fill pt q)" using K(1) by (auto simp: rest_of_def)
  note k = null_store_traps [OF this assms(2) \<open>p < 6\<close>, of vt str poke 1 "\<lparr>charbuf = 0, badbuf = 0\<rparr>" es]
  let ?u = "(es, fold putc (bytes ''page fault exception'') s)"
  have "sigtest (kernel_calls E) (kernel_set_handler E) (kernel_store pt vt str poke) h1 h2 \<lparr>charbuf = 0, badbuf = 0\<rparr> buf st = Some (Trapped ?u)"
    unfolding sigtest_def using t(1) k by (simp add: s)
  moreover have "console_of ?u = fold putc (bytes ''page fault exception'') (console_of t)" by (simp add: s console_of_def truncate_fold_putc)
  ultimately show ?thesis unfolding if_not_P [OF False] t(3) by blast
qed

theorem sigtest_stops_kernel_witness:
  "\<exists>st t. process_args 0 st = bytes ''1'' \<and> sigtest (kernel_calls poem_env) (kernel_set_handler poem_env) (kernel_store 0x405000 0x406000 (\<lambda>_. []) (\<lambda>_ _. Pair)) 0x8048100 0x8048200
        \<lparr>charbuf = 0, badbuf = 0\<rparr> (replicate 1024 0) st = Some (Trapped t)
    \<and> console_of t = fold putc (bytes ''page fault exception'') (echo_line (bytes ''0'') (fold putc (sigtest_intro 49) (console_of st)))"
proof -
  let ?q = "with_program 0 (page_fill 0x405000 (paging (snd (poem_state ''1''))))" and ?k = "map (map_prod id bytes) [([0x0B], ''0'')]"
  define st where "st = (typed ?k, (snd (poem_state ''1''))\<lparr>paging := ?q\<rparr>)"
  have "session_ok poem_env poem_fs 0 (\<lambda>_. True) [bytes ''0''] (typed ?k, snd (poem_state ''1''))"
    using poem_session [of "[([0x0B], ''0'')]" "''1''" "\<lambda>_. True"] keys_plain(3) by (simp add: bytes_def)
  then obtain K kls where k: "map snd kls = [bytes ''0'']" "process_ok poem_env poem_fs 0 K (Lines kls) (typed ?k, snd (poem_state ''1''))"
    unfolding session_ok_def by (elim exE conjE)
  have "fst (snd (rest_of 0 ((snd (poem_state ''1''))\<lparr>paging := ?q\<rparr>))) = ?q" by (simp add: rest_of_def)
  then have s: "session_ok poem_env poem_fs 0 (\<lambda>K. fst (snd K) = with_program (int 0) (page_fill 0x405000 (paging (snd (poem_state ''1''))))) [bytes ''0''] st"
    using process_ok_paging [OF k(2), of ?q] k(1) unfolding session_ok_def st_def semiring_1_class.of_nat_0 by (intro exI conjI)
  have a: "process_args 0 st = bytes ''1''"
    using poem_args [of "''1''"] by (simp add: st_def process_args_def bytes_def)
  have al: "(0x405000 :: u32) AND 0xFFF = 0" "length (replicate 1024 (0 :: u8)) = 1024" by simp_all
  have "bytes ''1'' \<noteq> []" "hd (bytes ''1'') = 49" by (simp_all add: bytes_def)
  note e = this
  from sigtest_stops_kernel [OF s al, of "0x406000" "\<lambda>_. []" "\<lambda>_ _. Pair" "0x8048100" "0x8048200"] obtain t where
    "sigtest (kernel_calls poem_env) (kernel_set_handler poem_env) (kernel_store 0x405000 0x406000 (\<lambda>_. []) (\<lambda>_ _. Pair)) 0x8048100 0x8048200
        \<lparr>charbuf = 0, badbuf = 0\<rparr> (replicate 1024 0) st = Some (Trapped t)"
    "console_of t = fold putc (bytes ''page fault exception'') (echo_line (bytes ''0'') (fold putc (sigtest_intro 49) (console_of st)))"
    unfolding a if_not_P [OF e(1)] e(2) by (elim exE conjE)
  with a show ?thesis by (intro exI [of _ st] exI [of _ t] conjI)
qed

end
