(* ===== verification/Blink.thy ===== *)
theory Blink
  imports Prelude
begin

text \<open>
  The blinking characters of the fish animation: the list code of \<^verbatim>\<open>src/fish/blink.S\<close> with the structure of
  \<^verbatim>\<open>blink.h\<close> and the allocator of \<^verbatim>\<open>fish.c\<close>.

  The structures live in the array \<open>blink_array\<close>; a pointer to one is its index, the null pointer is
  \<^const>\<open>None\<close>. The list runs through the \<open>next\<close> fields from \<open>mp1_list_head\<close>. The video page that \<open>vmem_base_addr\<close>
  points to is a byte list, and a byte written outside it is a fault. A walk along a list need not
  end, so the loops are partial functions; \<^const>\<open>None\<close> is a fault or a loop that does not end.

  The specification is a plain list of blinking characters with a screen; \<open>blinks\<close> says when a
  state implements such a list.
\<close>

section \<open>Data\<close>

record mp1_blink_struct =
  location :: u16
  on_char :: u8
  off_char :: u8
  on_length :: u16
  off_length :: u16
  countdown :: u16
  status :: u16
  next_blink :: "nat option"

record blink_state =
  blink_array :: "mp1_blink_struct list"
  mp1_list_head :: "nat option"
  vmem :: "u8 list"

abbreviation CELLS :: nat where "CELLS \<equiv> 80 * 25"

definition null_blink :: mp1_blink_struct where
  "null_blink = \<lparr>location = 0, on_char = 0, off_char = 0, on_length = 0, off_length = 0, countdown = 0, status = 0, next_blink = None\<rparr>"

text \<open>The packed layout of the structure in memory, with \<open>ptr\<close> for the addresses of the structures.\<close>

definition le16 :: "u16 \<Rightarrow> u8 list" where "le16 w = [ucast w, ucast (drop_bit 8 w)]"
definition le32 :: "u32 \<Rightarrow> u8 list" where
  "le32 w = [ucast w, ucast (drop_bit 8 w), ucast (drop_bit 16 w), ucast (drop_bit 24 w)]"

definition blink_bytes :: "(nat option \<Rightarrow> u32) \<Rightarrow> mp1_blink_struct \<Rightarrow> u8 list" where
  "blink_bytes ptr b = le16 (location b) @ [on_char b, off_char b] @ le16 (on_length b) @ le16 (off_length b)
     @ le16 (countdown b) @ le16 (status b) @ le32 (ptr (next_blink b))"

section \<open>The helpers of \<open>fish.c\<close>\<close>

definition ece391_memset :: "u8 list \<Rightarrow> u8 \<Rightarrow> nat \<Rightarrow> u8 list option" where
  "ece391_memset mem c n = fold (\<lambda>i m. do { m \<leftarrow> m; wr m i c }) [0..<n] (Some mem)"

definition ece391_memcpy :: "u8 list \<Rightarrow> u8 list \<Rightarrow> nat \<Rightarrow> (int \<times> u8 list) option" where
  "ece391_memcpy d s n =
     do { d \<leftarrow> fold (\<lambda>i d. do { d \<leftarrow> d; b \<leftarrow> rd s i; wr d i b }) [0..<n] (Some d); Some (0, d) }"

definition mp1_malloc :: "blink_state \<Rightarrow> nat option" where
  "mp1_malloc s = find (\<lambda>i. location (blink_array s ! i) = 0) [0..<CELLS]"

text \<open>A field of a structure is set; \<open>mp1_free\<close> clears all of them.\<close>

definition set_blink :: "nat \<Rightarrow> mp1_blink_struct \<Rightarrow> blink_state \<Rightarrow> blink_state" where
  "set_blink i b s = s\<lparr>blink_array := (blink_array s)[i := b]\<rparr>"

definition mp1_free :: "nat \<Rightarrow> blink_state \<Rightarrow> blink_state" where
  "mp1_free i s = set_blink i null_blink s"

section \<open>The list code of \<open>blink.S\<close>\<close>

definition mp1_poke :: "u8 \<Rightarrow> nat \<Rightarrow> blink_state \<Rightarrow> blink_state option" where
  "mp1_poke cl eax s = do { v \<leftarrow> wr (vmem s) eax cl; Some (s\<lparr>vmem := v\<rparr>) }"

partial_function (option) find_loop :: "u16 \<Rightarrow> nat option \<Rightarrow> blink_state \<Rightarrow> nat option option" where
  "find_loop ax ebx s =
     (case ebx of
        None \<Rightarrow> Some None
      | Some i \<Rightarrow>
          do {
            b \<leftarrow> rd (blink_array s) i;
            if location b = ax then Some (Some i) else find_loop ax (next_blink b) s
          })"

definition mp1_find_helper :: "u16 \<Rightarrow> blink_state \<Rightarrow> nat option option" where
  "mp1_find_helper ax s = find_loop ax (mp1_list_head s) s"

text \<open>
  One structure of the tasklet: \<open>decw\<close>, the signed test \<open>jg\<close>, and the switch of the character when the
  countdown has run out.
\<close>

definition tasklet_item :: "nat \<Rightarrow> blink_state \<Rightarrow> blink_state option" where
  "tasklet_item i s =
     do {
       b \<leftarrow> rd (blink_array s) i;
       let b = b\<lparr>countdown := countdown b - 1\<rparr>;
       let s = set_blink i b s;
       if 0 <s countdown b then Some s
       else if status b AND 1 = 0 then
         do {
           s \<leftarrow> mp1_poke (on_char b) (2 * unat (location b)) s;
           Some (set_blink i (b\<lparr>countdown := on_length b, status := status b XOR 1\<rparr>) s)
         }
       else
         do {
           s \<leftarrow> mp1_poke (off_char b) (2 * unat (location b)) s;
           Some (set_blink i (b\<lparr>countdown := off_length b, status := status b XOR 1\<rparr>) s)
         }
     }"

partial_function (option) tasklet_loop :: "nat option \<Rightarrow> blink_state \<Rightarrow> blink_state option" where
  "tasklet_loop ebx s =
     (case ebx of
        None \<Rightarrow> Some s
      | Some i \<Rightarrow>
          do {
            s \<leftarrow> tasklet_item i s;
            b \<leftarrow> rd (blink_array s) i;
            tasklet_loop (next_blink b) s
          })"

definition mp1_rtc_tasklet :: "blink_state \<Rightarrow> blink_state option" where
  "mp1_rtc_tasklet s = tasklet_loop (mp1_list_head s) s"

text \<open>Adding a copy of the caller's structure at the front of the list.\<close>

definition mp1_ioctl_add :: "mp1_blink_struct \<Rightarrow> blink_state \<Rightarrow> (int \<times> blink_state) option" where
  "mp1_ioctl_add arg s =
     (if 80 * 25 \<le> location arg then Some (-1, s)
      else
        let b = arg\<lparr>status := 1, countdown := on_length arg\<rparr>
        in case mp1_malloc s of
             None \<Rightarrow> Some (-1, s)
           | Some i \<Rightarrow>
               do {
                 let s = set_blink i b s;
                 let s = set_blink i (b\<lparr>next_blink := mp1_list_head s\<rparr>) s;
                 let s = s\<lparr>mp1_list_head := Some i\<rparr>;
                 s \<leftarrow> mp1_poke (on_char b) (2 * unat (location b)) s;
                 Some (0, s)
               })"

text \<open>
  The pointer that leads to a structure: \<open>edx\<close> is the address of the head pointer (\<^const>\<open>None\<close>) or of the
  \<open>next\<close> field of a structure. Following a null pointer reads below the first page.
\<close>

definition deref :: "nat option \<Rightarrow> blink_state \<Rightarrow> nat option option" where
  "deref edx s = (case edx of None \<Rightarrow> Some (mp1_list_head s) | Some j \<Rightarrow> map_option next_blink (rd (blink_array s) j))"

definition assign :: "nat option \<Rightarrow> nat option \<Rightarrow> blink_state \<Rightarrow> blink_state" where
  "assign edx p s =
     (case edx of
        None \<Rightarrow> s\<lparr>mp1_list_head := p\<rparr>
      | Some j \<Rightarrow> set_blink j ((blink_array s ! j)\<lparr>next_blink := p\<rparr>) s)"

partial_function (option) remove_find_prev :: "nat \<Rightarrow> nat option \<Rightarrow> blink_state \<Rightarrow> nat option option" where
  "remove_find_prev eax edx s =
     do {
       p \<leftarrow> deref edx s;
       if p = Some eax then Some edx
       else case p of None \<Rightarrow> None | Some j \<Rightarrow> remove_find_prev eax (Some j) s
     }"

definition mp1_ioctl_remove :: "u16 \<Rightarrow> blink_state \<Rightarrow> (int \<times> blink_state) option" where
  "mp1_ioctl_remove loc s =
     do {
       p \<leftarrow> mp1_find_helper loc s;
       case p of
         None \<Rightarrow> Some (-1, s)
       | Some eax \<Rightarrow>
           do {
             edx \<leftarrow> remove_find_prev eax None s;
             b \<leftarrow> rd (blink_array s) eax;
             let s = assign edx (next_blink b) s;
             Some (0, mp1_free eax s)
           }
     }"

text \<open>
  Synchronising two characters. After \<^verbatim>\<open>testb\<close> the overflow flag is clear and the sign flag
  is the top bit of the result, and \<^verbatim>\<open>cmovl\<close> moves when the two differ.
\<close>

definition testb_less :: "u8 \<Rightarrow> u8 \<Rightarrow> bool" where
  "testb_less imm x = bit (x AND imm) 7"

definition mp1_ioctl_sync :: "u32 \<Rightarrow> blink_state \<Rightarrow> (int \<times> blink_state) option" where
  "mp1_ioctl_sync arg s =
     do {
       p \<leftarrow> mp1_find_helper (ucast (drop_bit 16 arg)) s;
       case p of
         None \<Rightarrow> Some (-1, s)
       | Some esi \<Rightarrow>
           do {
             q \<leftarrow> mp1_find_helper (ucast (arg AND 0xFFFF)) s;
             case q of
               None \<Rightarrow> Some (-1, s)
             | Some edi \<Rightarrow>
                 do {
                   a \<leftarrow> rd (blink_array s) esi;
                   d \<leftarrow> rd (blink_array s) edi;
                   let d = d\<lparr>on_length := on_length a, off_length := off_length a, countdown := countdown a, status := status a\<rparr>;
                   let s = set_blink edi d s;
                   let cl = (if testb_less 1 (ucast (status d)) then on_char d else off_char d);
                   s \<leftarrow> mp1_poke cl (2 * unat (location d)) s;
                   Some (0, s)
                 }
           }
     }"

text \<open>Finding the structure at the location the caller's structure holds; it is copied over the caller's.\<close>

definition mp1_ioctl_find :: "mp1_blink_struct \<Rightarrow> blink_state \<Rightarrow> (int \<times> mp1_blink_struct) option" where
  "mp1_ioctl_find arg s =
     do {
       p \<leftarrow> mp1_find_helper (location arg) s;
       case p of
         None \<Rightarrow> Some (-1, arg)
       | Some i \<Rightarrow> do { b \<leftarrow> rd (blink_array s) i; Some (0, b) }
     }"

text \<open>
  The dispatch. \<open>um\<close> holds the caller's structures by address, for the commands whose argument is a
  pointer; a command outside the table jumps to whatever lies behind it.
\<close>

definition mp1_ioctl ::
  "u32 \<Rightarrow> u32 \<Rightarrow> (u32 \<rightharpoonup> mp1_blink_struct) \<Rightarrow> blink_state \<Rightarrow> (int \<times> (u32 \<rightharpoonup> mp1_blink_struct) \<times> blink_state) option" where
  "mp1_ioctl arg cmd um s =
     (if cmd = 0 then do { b \<leftarrow> um arg; (r, s) \<leftarrow> mp1_ioctl_add b s; Some (r, um, s) }
      else if cmd = 1 then do { (r, s) \<leftarrow> mp1_ioctl_remove (ucast arg) s; Some (r, um, s) }
      else if cmd = 2 then do { b \<leftarrow> um arg; (r, b) \<leftarrow> mp1_ioctl_find b s; Some (r, um(arg \<mapsto> b), s) }
      else if cmd = 3 then do { (r, s) \<leftarrow> mp1_ioctl_sync arg s; Some (r, um, s) }
      else None)"

section \<open>Lists of structures\<close>

text \<open>A run of structures from one pointer to another, and the whole list of a pointer.\<close>

fun path :: "mp1_blink_struct list \<Rightarrow> nat option \<Rightarrow> nat list \<Rightarrow> nat option \<Rightarrow> bool" where
  "path a p [] q \<longleftrightarrow> p = q"
| "path a p (i # js) q \<longleftrightarrow> p = Some i \<and> i < length a \<and> path a (next_blink (a ! i)) js q"

abbreviation chain :: "mp1_blink_struct list \<Rightarrow> nat option \<Rightarrow> nat list \<Rightarrow> bool" where
  "chain a p js \<equiv> path a p js None"

lemma path_append [simp]: "path a p (js @ ks) q \<longleftrightarrow> (\<exists>r. path a p js r \<and> path a r ks q)"
  by (induction js arbitrary: p) auto

lemma path_cong:
  assumes "length b = length a" and "\<And>i. i \<in> set js \<Longrightarrow> next_blink (b ! i) = next_blink (a ! i)"
  shows "path b p js q = path a p js q"
  using assms(2) by (induction js arbitrary: p) (auto simp: assms(1))

lemma nth_update_other: "j \<in> S \<Longrightarrow> i \<notin> S \<Longrightarrow> a[i := b] ! j = a ! j"
  by (metis nth_list_update_neq)

lemma path_update [simp]: "i \<notin> set js \<Longrightarrow> path (a[i := b]) p js q = path a p js q"
  by (rule path_cong) (auto simp: nth_update_other)

lemma path_bounded: "path a p js q \<Longrightarrow> i \<in> set js \<Longrightarrow> i < length a"
  by (induction js arbitrary: p) auto

section \<open>Specification\<close>

text \<open>
  The animation as a list of characters, newest first, and a screen. A character is the structure without its
  \<open>next\<close> field.
\<close>

type_synonym animation = "mp1_blink_struct list \<times> u8 list"

definition bare :: "mp1_blink_struct \<Rightarrow> mp1_blink_struct" where
  "bare b = b\<lparr>next_blink := None\<rparr>"

definition vcell :: "mp1_blink_struct \<Rightarrow> nat" where
  "vcell b = 2 * unat (location b)"

definition fresh :: "mp1_blink_struct \<Rightarrow> mp1_blink_struct" where
  "fresh b = (bare b)\<lparr>status := 1, countdown := on_length b\<rparr>"

fun remove_at :: "u16 \<Rightarrow> mp1_blink_struct list \<Rightarrow> mp1_blink_struct list" where
  "remove_at l [] = []"
| "remove_at l (b # bs) = (if location b = l then bs else b # remove_at l bs)"

fun change_at :: "u16 \<Rightarrow> (mp1_blink_struct \<Rightarrow> mp1_blink_struct) \<Rightarrow> mp1_blink_struct list \<Rightarrow> mp1_blink_struct list" where
  "change_at l f [] = []"
| "change_at l f (b # bs) = (if location b = l then f b # bs else b # change_at l f bs)"

definition at :: "u16 \<Rightarrow> mp1_blink_struct list \<Rightarrow> mp1_blink_struct option" where
  "at l bs = find (\<lambda>b. location b = l) bs"

definition expires :: "mp1_blink_struct \<Rightarrow> bool" where
  "expires b \<longleftrightarrow> \<not> 0 <s countdown b - 1"

definition tick :: "mp1_blink_struct \<Rightarrow> mp1_blink_struct" where
  "tick b =
     (if \<not> expires b then b\<lparr>countdown := countdown b - 1\<rparr>
      else b\<lparr>countdown := if status b AND 1 = 0 then on_length b else off_length b, status := status b XOR 1\<rparr>)"

definition tick_screen :: "mp1_blink_struct \<Rightarrow> u8 list \<Rightarrow> u8 list" where
  "tick_screen b v = (if expires b then v[vcell b := if status b AND 1 = 0 then on_char b else off_char b] else v)"

definition like :: "mp1_blink_struct \<Rightarrow> mp1_blink_struct \<Rightarrow> mp1_blink_struct" where
  "like a d = d\<lparr>on_length := on_length a, off_length := off_length a, countdown := countdown a, status := status a\<rparr>"

datatype blink_op = Op_add mp1_blink_struct | Op_remove u16 | Op_sync u16 u16 | Op_find u16 | Op_tick

fun spec_op :: "blink_op \<Rightarrow> animation \<Rightarrow> int \<times> animation" where
  "spec_op (Op_add b) (bs, v) =
     (if 80 * 25 \<le> location b \<or> length bs = CELLS then (-1, bs, v) else (0, fresh b # bs, v[vcell b := on_char b]))"
| "spec_op (Op_remove l) (bs, v) = (if at l bs = None then (-1, bs, v) else (0, remove_at l bs, v))"
| "spec_op (Op_sync k l) (bs, v) =
     (case (at k bs, at l bs) of
        (Some a, Some d) \<Rightarrow> (0, change_at l (like a) bs, v[vcell d := off_char d])
      | _ \<Rightarrow> (-1, bs, v))"
| "spec_op (Op_find l) (bs, v) = (if at l bs = None then -1 else 0, bs, v)"
| "spec_op Op_tick (bs, v) = (0, map tick bs, fold tick_screen bs v)"

text \<open>The same operations of the code, through the dispatch.\<close>

fun run_op :: "blink_op \<Rightarrow> blink_state \<Rightarrow> (int \<times> blink_state) option" where
  "run_op (Op_add b) s = do { (r, _, s) \<leftarrow> mp1_ioctl 4 0 [4 \<mapsto> b] s; Some (r, s) }"
| "run_op (Op_remove l) s = do { (r, _, s) \<leftarrow> mp1_ioctl (ucast l) 1 Map.empty s; Some (r, s) }"
| "run_op (Op_sync k l) s = do { (r, _, s) \<leftarrow> mp1_ioctl (push_bit 16 (ucast k) OR ucast l) 3 Map.empty s; Some (r, s) }"
| "run_op (Op_find l) s = do { (r, _, s) \<leftarrow> mp1_ioctl 4 2 [4 \<mapsto> null_blink\<lparr>location := l\<rparr>] s; Some (r, s) }"
| "run_op Op_tick s = do { s \<leftarrow> mp1_rtc_tasklet s; Some (0, s) }"

text \<open>
  A state that implements a list of characters: the list is complete, a structure of the pool is in it exactly
  when its location is not 0, and all locations are on the screen.
\<close>

definition pool_ok :: "blink_state \<Rightarrow> nat list \<Rightarrow> bool" where
  "pool_ok s js \<longleftrightarrow> length (blink_array s) = CELLS \<and> 2 * CELLS \<le> length (vmem s)
     \<and> chain (blink_array s) (mp1_list_head s) js \<and> distinct js
     \<and> (\<forall>i<CELLS. location (blink_array s ! i) < 80 * 25 \<and> (i \<in> set js \<longleftrightarrow> location (blink_array s ! i) \<noteq> 0))"

definition listed :: "mp1_blink_struct list \<Rightarrow> nat list \<Rightarrow> mp1_blink_struct list" where
  "listed a js = map (\<lambda>i. bare (a ! i)) js"

definition blinks :: "blink_state \<Rightarrow> animation \<Rightarrow> bool" where
  "blinks s A \<longleftrightarrow> (\<exists>js. pool_ok s js \<and> listed (blink_array s) js = fst A) \<and> vmem s = snd A"

section \<open>The code against the specification\<close>

lemma bare_simps [simp]:
  "location (bare b) = location b" "on_char (bare b) = on_char b" "off_char (bare b) = off_char b"
  "on_length (bare b) = on_length b" "off_length (bare b) = off_length b" "countdown (bare b) = countdown b"
  "status (bare b) = status b" "next_blink (bare b) = None" "vcell (bare b) = vcell b" "expires (bare b) = expires b"
  by (simp_all add: bare_def vcell_def expires_def)

lemma tick_bare [simp]: "tick (bare b) = bare (tick b)" "tick_screen (bare b) = tick_screen b"
  by (simp_all add: tick_def expires_def tick_screen_def fun_eq_iff vcell_def bare_def)

lemma tick_fields [simp]: "location (tick b) = location b" "next_blink (tick b) = next_blink b"
  by (simp_all add: tick_def)

lemma set_blink_fields [simp]:
  "blink_array (set_blink i b s) = (blink_array s)[i := b]" "mp1_list_head (set_blink i b s) = mp1_list_head s"
  "vmem (set_blink i b s) = vmem s"
  by (simp_all add: set_blink_def)

lemma cell_bound: "location b < 80 * 25 \<Longrightarrow> vcell b < 2 * CELLS"
  by (simp add: vcell_def word_less_nat_alt)

lemma find_loop_eq:
  "chain (blink_array s) p js \<Longrightarrow> find_loop l p s = Some (find (\<lambda>i. location (blink_array s ! i) = l) js)"
  by (induction js arbitrary: p) (subst find_loop.simps, simp)+

lemma find_helper_eq: "pool_ok s js \<Longrightarrow> mp1_find_helper l s = Some (find (\<lambda>i. location (blink_array s ! i) = l) js)"
  by (simp add: mp1_find_helper_def find_loop_eq pool_ok_def)

lemma tasklet_item_eq:
  assumes "i < length (blink_array s)" and "vcell (blink_array s ! i) < length (vmem s)"
  shows "tasklet_item i s = Some (s\<lparr>blink_array := (blink_array s)[i := tick (blink_array s ! i)],
    vmem := tick_screen (blink_array s ! i) (vmem s)\<rparr>)"
  using assms by (simp add: tasklet_item_def mp1_poke_def tick_def tick_screen_def expires_def vcell_def set_blink_def Let_def)

lemma tasklet_loop_eq:
  assumes "chain (blink_array s) p js" and "distinct js" and "\<And>i. i \<in> set js \<Longrightarrow> vcell (blink_array s ! i) < length (vmem s)"
  shows "tasklet_loop p s = Some (s\<lparr>blink_array := fold (\<lambda>i a. a[i := tick (a ! i)]) js (blink_array s),
    vmem := fold (\<lambda>i. tick_screen (blink_array s ! i)) js (vmem s)\<rparr>)"
  using assms
proof (induction js arbitrary: p s)
  case Nil
  then show ?case by (subst tasklet_loop.simps) simp
next
  case (Cons i js)
  let ?a = "(blink_array s)[i := tick (blink_array s ! i)]"
  let ?t = "s\<lparr>blink_array := ?a, vmem := tick_screen (blink_array s ! i) (vmem s)\<rparr>"
  have i: "p = Some i" "i < length (blink_array s)" "chain (blink_array s) (next_blink (blink_array s ! i)) js" "i \<notin> set js"
    using Cons.prems by auto
  have it: "tasklet_item i s = Some ?t" using i Cons.prems(3) by (intro tasklet_item_eq) auto
  have same: "?a ! j = blink_array s ! j" if "j \<in> set js" for j using that i(4) by (rule nth_update_other)
  have fs: "fold (\<lambda>j. tick_screen (?a ! j)) js w = fold (\<lambda>j. tick_screen (blink_array s ! j)) js w" for w
    by (rule fold_cong) (auto simp: same)
  have "length (vmem ?t) = length (vmem s)" by (simp add: tick_screen_def)
  then have "tasklet_loop (next_blink (blink_array s ! i)) ?t = Some (?t\<lparr>blink_array := fold (\<lambda>i a. a[i := tick (a ! i)]) js (blink_array ?t),
      vmem := fold (\<lambda>i. tick_screen (blink_array ?t ! i)) js (vmem ?t)\<rparr>)"
    using i Cons.prems(2,3) same by (intro Cons.IH) auto
  then show ?case using it i by (subst tasklet_loop.simps) (simp add: fs)
qed

lemma length_fold_update [simp]: "length (fold (\<lambda>i a. a[i := f (a ! i)]) js a) = length a"
  by (induction js arbitrary: a) simp_all

lemma nth_fold_update:
  "distinct js \<Longrightarrow> \<forall>i\<in>set js. i < length a \<Longrightarrow> fold (\<lambda>i a. a[i := f (a ! i)]) js a ! k = (if k \<in> set js then f (a ! k) else a ! k)"
  by (induction js arbitrary: a) (auto simp: nth_update_other)

lemma find_split: "find P xs = Some x \<Longrightarrow> \<exists>ys zs. xs = ys @ x # zs \<and> P x \<and> (\<forall>y\<in>set ys. \<not> P y)"
proof (induction xs)
  case (Cons a xs)
  show ?case
  proof (cases "P a")
    case True
    with Cons.prems show ?thesis by (intro exI [of _ "[]"] exI [of _ xs]) simp
  next
    case False
    with Cons obtain ys zs where "xs = ys @ x # zs" "P x" "\<forall>y\<in>set ys. \<not> P y" by auto
    with False show ?thesis by (intro exI [of _ "a # ys"] exI [of _ zs]) auto
  qed
qed simp

lemma at_listed: "at l (listed a js) = map_option (\<lambda>i. bare (a ! i)) (find (\<lambda>i. location (a ! i) = l) js)"
  by (induction js) (auto simp: at_def listed_def)

lemma listed_update: "i \<notin> set js \<Longrightarrow> listed (a[i := b]) js = listed a js"
  by (auto simp: listed_def nth_update_other)

lemma listed_Cons [simp]: "listed a (i # js) = bare (a ! i) # listed a js" "listed a [] = []"
  and listed_append [simp]: "listed a (js @ ks) = listed a js @ listed a ks" and length_listed [simp]: "length (listed a js) = length js"
  by (simp_all add: listed_def)

lemma remove_at_split:
  "\<forall>j\<in>set xs. location (a ! j) \<noteq> l \<Longrightarrow> location (a ! i) = l \<Longrightarrow> remove_at l (listed a (xs @ i # ys)) = listed a (xs @ ys)"
  by (induction xs) auto

lemma change_at_split:
  "\<forall>j\<in>set xs. location (a ! j) \<noteq> l \<Longrightarrow> location (a ! i) = l \<Longrightarrow> 
    change_at l f (listed a (xs @ i # ys)) = listed a xs @ f (bare (a ! i)) # listed a ys"
  by (induction xs) auto

lemma pool_bounded: "pool_ok s js \<Longrightarrow> i \<in> set js \<Longrightarrow> i < CELLS"
  by (auto simp: pool_ok_def dest: path_bounded)

lemma pool_full: "pool_ok s js \<Longrightarrow> mp1_malloc s = None \<longleftrightarrow> length js = CELLS"
proof -
  assume ok: "pool_ok s js"
  then have sub: "set js \<subseteq> {..<CELLS}" and d: "distinct js" using pool_bounded by (auto simp: pool_ok_def)
  have "mp1_malloc s = None \<longleftrightarrow> {..<CELLS} \<subseteq> set js"
    using ok by (auto simp: mp1_malloc_def find_None_iff pool_ok_def simp del: upt_rec_numeral)
  also have "\<dots> \<longleftrightarrow> card (set js) = CELLS"
    using sub card_subset_eq [OF finite_lessThan sub] by (metis card_lessThan subset_antisym subset_refl)
  finally show ?thesis by (simp add: distinct_card [OF d])
qed

lemma blinksE:
  assumes "blinks s A"
  obtains js where "pool_ok s js" and "A = (listed (blink_array s) js, vmem s)"
  using assms by (cases A) (auto simp: blinks_def)

lemma add_refines:
  assumes "blinks s A" and "location b \<noteq> 0"
  shows "\<exists>t. mp1_ioctl_add b s = Some (fst (spec_op (Op_add b) A), t) \<and> blinks t (snd (spec_op (Op_add b) A))"
proof -
  obtain js where js: "pool_ok s js" and A: "A = (listed (blink_array s) js, vmem s)"
    using assms(1) by (rule blinksE)
  show ?thesis
  proof (cases "80 * 25 \<le> location b \<or> length js = CELLS")
    case True
    then show ?thesis using assms(1) pool_full [OF js] by (auto simp: mp1_ioctl_add_def A)
  next
    case False
    then obtain i where i: "mp1_malloc s = Some i" using pool_full [OF js] by auto
    then have i': "i < CELLS" "location (blink_array s ! i) = 0" by (auto simp: mp1_malloc_def find_Some_iff simp del: upt_rec_numeral)
    then have ni: "i \<notin> set js" using js by (auto simp: pool_ok_def)
    let ?b = "b\<lparr>status := 1, countdown := on_length b, next_blink := mp1_list_head s\<rparr>"
    let ?t = "s\<lparr>blink_array := (blink_array s)[i := ?b], mp1_list_head := Some i, vmem := (vmem s)[vcell b := on_char b]\<rparr>"
    have "vcell b < length (vmem s)" using False cell_bound [of b] js by (auto simp: pool_ok_def not_le)
    then have "mp1_ioctl_add b s = Some (0, ?t)"
      using False i by (simp add: mp1_ioctl_add_def mp1_poke_def vcell_def set_blink_def Let_def)
    moreover have "pool_ok ?t (i # js)"
      using js i' ni False assms(2) by (auto simp: pool_ok_def nth_list_update not_le)
    moreover have "listed (blink_array ?t) (i # js) = fresh b # listed (blink_array s) js"
      using i'(1) js ni by (auto simp: listed_update pool_ok_def fresh_def bare_def)
    ultimately show ?thesis using False by (auto simp: A blinks_def)
  qed
qed

lemma tick_refines:
  assumes "blinks s A"
  shows "\<exists>t. mp1_rtc_tasklet s = Some t \<and> blinks t (snd (spec_op Op_tick A))"
proof -
  obtain js where js: "pool_ok s js" and A: "A = (listed (blink_array s) js, vmem s)"
    using assms(1) by (rule blinksE)
  let ?a = "fold (\<lambda>i a. a[i := tick (a ! i)]) js (blink_array s)"
  let ?v = "fold (\<lambda>i. tick_screen (blink_array s ! i)) js (vmem s)"
  have b: "\<forall>i\<in>set js. i < length (blink_array s)" and d: "distinct js" using js pool_bounded [OF js] by (auto simp: pool_ok_def)
  have n: "?a ! k = (if k \<in> set js then tick (blink_array s ! k) else blink_array s ! k)" for k
    using d b by (rule nth_fold_update)
  have "tasklet_loop (mp1_list_head s) s = Some (s\<lparr>blink_array := ?a, vmem := ?v\<rparr>)"
  proof (rule tasklet_loop_eq [OF _ d])
    fix i assume "i \<in> set js"
    then show "vcell (blink_array s ! i) < length (vmem s)"
      using js pool_bounded [OF js] cell_bound [of "blink_array s ! i"] by (fastforce simp: pool_ok_def)
  qed (use js in \<open>simp add: pool_ok_def\<close>)
  moreover have lv: "length (fold tick_screen bs v) = length v" for bs v
    by (induction bs arbitrary: v) (simp_all add: tick_screen_def)
  have v: "?v = fold tick_screen (listed (blink_array s) js) (vmem s)"
    by (simp add: listed_def fold_map comp_def)
  have "chain ?a (mp1_list_head s) js"
    using js path_cong [of ?a "blink_array s" js "mp1_list_head s" None] by (simp add: pool_ok_def n)
  then have "pool_ok (s\<lparr>blink_array := ?a, vmem := ?v\<rparr>) js"
    using js by (simp add: pool_ok_def n v lv)
  moreover have "listed ?a js = map tick (listed (blink_array s) js)" by (auto simp: listed_def n)
  ultimately show ?thesis by (auto simp: mp1_rtc_tasklet_def blinks_def A v)
qed

lemma find_prev_eq:
  assumes "path (blink_array s) p (xs @ [i]) q" and "i \<notin> set xs" and "deref edx s = Some p"
  shows "remove_find_prev i edx s = Some (if xs = [] then edx else Some (last xs))"
  using assms
proof (induction xs arbitrary: p edx)
  case Nil
  then show ?case by (subst remove_find_prev.simps) simp
next
  case (Cons j xs)
  then have j: "p = Some j" "j < length (blink_array s)" "path (blink_array s) (next_blink (blink_array s ! j)) (xs @ [i]) q" "j \<noteq> i"
    by auto
  then have "remove_find_prev i (Some j) s = Some (if xs = [] then Some j else Some (last xs))"
    using Cons.prems(2) by (intro Cons.IH) (auto simp: deref_def)
  then show ?case using Cons.prems(3) j by (subst remove_find_prev.simps) simp
qed

lemma remove_refines:
  assumes "blinks s A"
  shows "\<exists>t. mp1_ioctl_remove l s = Some (fst (spec_op (Op_remove l) A), t) \<and> blinks t (snd (spec_op (Op_remove l) A))"
proof -
  obtain js where js: "pool_ok s js" and A: "A = (listed (blink_array s) js, vmem s)"
    using assms(1) by (rule blinksE)
  let ?a = "blink_array s"
  show ?thesis
  proof (cases "find (\<lambda>i. location (?a ! i) = l) js")
    case None
    then show ?thesis using assms by (simp add: mp1_ioctl_remove_def find_helper_eq [OF js] A at_listed)
  next
    case (Some i)
    from find_split [OF this] obtain xs ys where
      js': "js = xs @ i # ys" and i: "location (?a ! i) = l" and xs: "\<forall>j\<in>set xs. location (?a ! j) \<noteq> l" by blast
    have ok: "length ?a = CELLS" "2 * CELLS \<le> length (vmem s)" "distinct (xs @ i # ys)" "i < CELLS"
      using js pool_bounded [OF js, of i] by (simp_all add: pool_ok_def js')
    obtain r where r: "path ?a (mp1_list_head s) (xs @ [i]) r" "chain ?a r ys" "r = next_blink (?a ! i)"
      using js by (auto simp: pool_ok_def js')
    let ?e = "if xs = [] then None else Some (last xs)"
    let ?u = "assign ?e (next_blink (?a ! i)) s"
    let ?t = "mp1_free i ?u"
    have "remove_find_prev i None s = Some ?e"
      using find_prev_eq [OF r(1), of None] ok(3) by (simp add: deref_def)
    then have run: "mp1_ioctl_remove l s = Some (0, ?t)"
      using ok Some by (simp add: mp1_ioctl_remove_def find_helper_eq [OF js])
    have len: "length (blink_array ?u) = CELLS" and vm: "vmem ?t = vmem s"
      using ok by (simp_all add: assign_def mp1_free_def)
    have bare_u: "bare (blink_array ?u ! k) = bare (?a ! k)" for k
      by (cases "k = last xs"; cases "k < length ?a") (auto simp: assign_def bare_def list_update_beyond not_less)
    then have loc_u: "location (blink_array ?u ! k) = location (?a ! k)" for k by (metis bare_simps(1))
    have ch: "chain (blink_array ?t) (mp1_list_head ?t) (xs @ ys)"
    proof (cases xs rule: rev_cases)
      case Nil
      then show ?thesis using r ok(3) by (simp add: assign_def mp1_free_def)
    next
      case (snoc zs j)
      then show ?thesis using r ok(3) by (auto simp: assign_def mp1_free_def)
    qed
    have "location (blink_array ?t ! k) = (if k = i then 0 else location (?a ! k))" if "k < CELLS" for k
      using that len loc_u [of k] by (simp add: mp1_free_def nth_list_update null_blink_def)
    moreover have "l \<noteq> 0" using js ok(4) i by (auto simp: pool_ok_def js')
    ultimately have "pool_ok ?t (xs @ ys)"
      using js ok ch len vm by (auto simp: pool_ok_def js' mp1_free_def)
    moreover have "listed (blink_array ?t) (xs @ ys) = remove_at l (listed ?a js)"
    proof -
      have "listed (blink_array ?t) (xs @ ys) = listed (blink_array ?u) (xs @ ys)"
        using ok(3) by (simp add: mp1_free_def listed_update)
      also have "\<dots> = listed ?a (xs @ ys)" by (simp add: listed_def bare_u)
      finally show ?thesis using remove_at_split [OF xs i, of ys] js' by simp
    qed
    ultimately show ?thesis using run Some vm by (auto simp: A blinks_def at_listed)
  qed
qed

lemma sync_never_on [simp]: "\<not> testb_less 1 x"
  by (simp add: testb_less_def bit_and_iff bit_1_iff)

lemma sync_args:
  "ucast (drop_bit 16 (push_bit 16 (ucast k) OR ucast l :: u32)) = (k :: u16)"
  "ucast ((push_bit 16 (ucast k) OR ucast l :: u32) AND 0xFFFF) = (l :: u16)"
proof -
  have m: "(0xFFFF :: u32) = mask 16" by (simp add: mask_eq_exp_minus_1)
  show "ucast (drop_bit 16 (push_bit 16 (ucast k) OR ucast l :: u32)) = k"
    by (rule bit_word_eqI) (auto simp: bit_simps dest: bit_imp_le_length)
  show "ucast ((push_bit 16 (ucast k) OR ucast l :: u32) AND 0xFFFF) = l"
    unfolding m by (rule bit_word_eqI) (simp add: bit_simps)
qed

lemma sync_refines:
  assumes "blinks s A" and args: "ucast (drop_bit 16 arg) = k" "ucast (arg AND 0xFFFF) = l"
  shows "\<exists>t. mp1_ioctl_sync arg s = Some (fst (spec_op (Op_sync k l) A), t) \<and> blinks t (snd (spec_op (Op_sync k l) A))"
proof -
  obtain js where js: "pool_ok s js" and A: "A = (listed (blink_array s) js, vmem s)"
    using assms(1) by (rule blinksE)
  let ?a = "blink_array s"
  show ?thesis
  proof (cases "find (\<lambda>i. location (?a ! i) = k) js = None \<or> find (\<lambda>i. location (?a ! i) = l) js = None")
    case True
    then show ?thesis using assms(1)
      by (auto simp: mp1_ioctl_sync_def find_helper_eq [OF js] A at_listed args split: option.splits)
  next
    case False
    then obtain x y where x: "find (\<lambda>i. location (?a ! i) = k) js = Some x" and y: "find (\<lambda>i. location (?a ! i) = l) js = Some y" by auto
    from find_split [OF y] obtain xs ys where
      js': "js = xs @ y # ys" and ly: "location (?a ! y) = l" and xs: "\<forall>j\<in>set xs. location (?a ! j) \<noteq> l" by blast
    have xy: "x < CELLS" "y < CELLS" using x y pool_bounded [OF js] by (auto simp: find_Some_iff)
    have ok: "length ?a = CELLS" "2 * CELLS \<le> length (vmem s)" "distinct (xs @ y # ys)" "vcell (?a ! y) < length (vmem s)"
      using js xy cell_bound [of "?a ! y"] by (auto simp: pool_ok_def js')
    let ?d = "like (?a ! x) (?a ! y)"
    let ?t = "s\<lparr>blink_array := ?a[y := ?d], vmem := (vmem s)[vcell (?a ! y) := off_char (?a ! y)]\<rparr>"
    have run: "mp1_ioctl_sync arg s = Some (0, ?t)"
      using ok x y xy by (simp add: mp1_ioctl_sync_def args find_helper_eq [OF js] mp1_poke_def vcell_def like_def set_blink_def)
    have f: "location ?d = location (?a ! y)" "next_blink ?d = next_blink (?a ! y)" by (simp_all add: like_def)
    have "chain (?a[y := ?d]) (mp1_list_head s) js = chain ?a (mp1_list_head s) js"
      using ok(1) xy f by (intro path_cong) (auto simp: nth_list_update)
    then have "pool_ok ?t js" using js ok(1) xy f by (simp add: pool_ok_def nth_list_update)
    moreover have "listed (?a[y := ?d]) js = change_at l (like (bare (?a ! x))) (listed ?a js)"
      unfolding js' change_at_split [OF xs ly] using ok(1,3) xy by (simp add: listed_update like_def bare_def)
    ultimately show ?thesis using run x y by (auto simp: A blinks_def at_listed)
  qed
qed

lemma find_refines:
  assumes "blinks s A"
  shows "\<exists>b. mp1_ioctl_find arg s = Some (fst (spec_op (Op_find (location arg)) A), b)
    \<and> (case at (location arg) (fst A) of None \<Rightarrow> b = arg | Some d \<Rightarrow> bare b = d)"
proof -
  obtain js where js: "pool_ok s js" and A: "A = (listed (blink_array s) js, vmem s)"
    using assms(1) by (rule blinksE)
  have "i < length (blink_array s)" if "find P js = Some i" for i P
    using that pool_bounded [OF js] js by (auto simp: find_Some_iff pool_ok_def)
  then show ?thesis
    by (cases "find (\<lambda>i. location (blink_array s ! i) = location arg) js")
      (simp_all add: mp1_ioctl_find_def find_helper_eq [OF js] A at_listed)
qed

section \<open>Sequences of operations\<close>

text \<open>
  What makes a sequence of operations refine its specification: every single operation returns, with the value
  and the state the specification gives.
\<close>

fun run_ops :: "('o \<Rightarrow> 's \<Rightarrow> (int \<times> 's) option) \<Rightarrow> 'o list \<Rightarrow> 's \<Rightarrow> (int list \<times> 's) option" where
  "run_ops run [] s = Some ([], s)"
| "run_ops run (x # xs) s = do { (r, s) \<leftarrow> run x s; (rs, s) \<leftarrow> run_ops run xs s; Some (r # rs, s) }"

fun spec_ops :: "('o \<Rightarrow> 'a \<Rightarrow> int \<times> 'a) \<Rightarrow> 'o list \<Rightarrow> 'a \<Rightarrow> int list \<times> 'a" where
  "spec_ops spec [] a = ([], a)"
| "spec_ops spec (x # xs) a = (let (r, a) = spec x a; (rs, a) = spec_ops spec xs a in (r # rs, a))"

locale op_refinement =
  fixes run :: "'o \<Rightarrow> 's \<Rightarrow> (int \<times> 's) option"
    and spec :: "'o \<Rightarrow> 'a \<Rightarrow> int \<times> 'a"
    and allowed :: "'o \<Rightarrow> bool"
    and impl :: "'s \<Rightarrow> 'a \<Rightarrow> bool"
  assumes step: "impl s a \<Longrightarrow> allowed x \<Longrightarrow> \<exists>t. run x s = Some (fst (spec x a), t) \<and> impl t (snd (spec x a))"
begin

lemma steps:
  "impl s a \<Longrightarrow> list_all allowed xs \<Longrightarrow> \<exists>t. run_ops run xs s = Some (fst (spec_ops spec xs a), t) \<and> impl t (snd (spec_ops spec xs a))"
proof (induction xs arbitrary: s a)
  case (Cons x xs)
  from step [OF Cons.prems(1)] Cons.prems(2) obtain u where u: "run x s = Some (fst (spec x a), u)" "impl u (snd (spec x a))" by auto
  from Cons.IH [OF u(2)] Cons.prems(2) obtain t where
    "run_ops run xs u = Some (fst (spec_ops spec xs (snd (spec x a))), t)" "impl t (snd (spec_ops spec xs (snd (spec x a))))" by auto
  with u show ?case by (auto simp: case_prod_beta Let_def)
qed simp

end

fun op_allowed :: "blink_op \<Rightarrow> bool" where
  "op_allowed (Op_add b) = (location b \<noteq> 0)"
| "op_allowed _ = True"

lemma ucast_ucast_u16: "ucast (ucast (l :: u16) :: u32) = l"
  by (rule bit_word_eqI) (simp add: bit_simps)

lemma run_op_refines:
  assumes "blinks s A" and "op_allowed x"
  shows "\<exists>t. run_op x s = Some (fst (spec_op x A), t) \<and> blinks t (snd (spec_op x A))"
proof (cases x)
  case (Op_add b)
  then show ?thesis using add_refines [OF assms(1), of b] assms(2) by (auto simp: mp1_ioctl_def)
next
  case (Op_remove l)
  then show ?thesis using remove_refines [OF assms(1), of l] by (auto simp: mp1_ioctl_def ucast_ucast_u16)
next
  case (Op_sync k l)
  then show ?thesis using sync_refines [OF assms(1) sync_args, of k l] by (auto simp: mp1_ioctl_def)
next
  case (Op_find l)
  obtain bs v where A: "A = (bs, v)" by (cases A)
  show ?thesis using find_refines [OF assms(1), of "null_blink\<lparr>location := l\<rparr>"] assms(1) Op_find by (auto simp: mp1_ioctl_def A)
next
  case Op_tick
  obtain bs v where A: "A = (bs, v)" by (cases A)
  show ?thesis using tick_refines [OF assms(1)] Op_tick by (auto simp: A)
qed

interpretation blink_ops: op_refinement run_op spec_op op_allowed blinks
  by unfold_locales (rule run_op_refines)

definition empty_pool :: "u8 list \<Rightarrow> blink_state" where
  "empty_pool v = \<lparr>blink_array = replicate CELLS null_blink, mp1_list_head = None, vmem = v\<rparr>"

lemma blinks_empty: "2 * CELLS \<le> length v \<Longrightarrow> blinks (empty_pool v) ([], v)"
  by (auto simp: blinks_def empty_pool_def pool_ok_def null_blink_def intro!: exI [of _ "[]"])

section \<open>Properties\<close>

text \<open>
  C13: the list code implements the animation. From the cleared pool and a video page, any sequence of
  additions (at locations other than 0), removals, synchronisations, searches and clock ticks returns, with the results of the
  specification: no walk along the list runs forever or leaves the pool, and no byte is written outside the page. The
  list in memory then holds the characters of the specification, newest first, every structure outside it is free, and the page
  shows what the specification shows.
\<close>

theorem blink_code_refines_animation:
  assumes "list_all op_allowed xs" and "2 * CELLS \<le> length v"
  shows "\<exists>t. run_ops run_op xs (empty_pool v) = Some (fst (spec_ops spec_op xs ([], v)), t)
    \<and> blinks t (snd (spec_ops spec_op xs ([], v)))"
  using blink_ops.steps [OF blinks_empty [OF assms(2)] assms(1)] .

definition demo_blink :: mp1_blink_struct where
  "demo_blink = null_blink\<lparr>location := 540, on_char := 73, off_char := 77, on_length := 7, off_length := 6\<rparr>"

theorem blink_code_refines_animation_witness:
  "\<exists>t. run_ops run_op [Op_add demo_blink, Op_remove 9, Op_remove 540] (empty_pool (replicate 4000 0)) = Some ([0, -1, 0], t)
    \<and> blinks t ([], (replicate 4000 0)[1080 := 73])"
  using blink_code_refines_animation [of "[Op_add demo_blink, Op_remove 9, Op_remove 540]" "replicate 4000 0"]
  by (simp add: demo_blink_def null_blink_def at_def fresh_def bare_def vcell_def del: run_ops.simps)

lemma tasklet_item_next: "tasklet_item i s = Some t \<Longrightarrow> next_blink (blink_array t ! i) = next_blink (blink_array s ! i)"
  by (cases "i < length (blink_array s)")
    (auto simp: tasklet_item_def mp1_poke_def Let_def bind_eq_Some_conv wr_def split: if_splits)

lemma tasklet_returns:
  assumes "tasklet_loop p s = Some t"
  shows "p = Some i \<longrightarrow> next_blink (blink_array s ! i) \<noteq> Some i"
proof (rule tasklet_loop.raw_induct [OF _ assms])
  fix f :: "nat option \<Rightarrow> blink_state \<Rightarrow> blink_state option" and p s t
  assume IH: "f p' s' = Some t' \<Longrightarrow> p' = Some i \<longrightarrow> next_blink (blink_array s' ! i) \<noteq> Some i" for p' s' t'
  assume run: "(case p of None \<Rightarrow> Some s | Some i \<Rightarrow> do { s \<leftarrow> tasklet_item i s; b \<leftarrow> rd (blink_array s) i; f (next_blink b) s }) = Some t"
  show "p = Some i \<longrightarrow> next_blink (blink_array s ! i) \<noteq> Some i"
  proof (intro impI notI)
    assume p: "p = Some i" and n: "next_blink (blink_array s ! i) = Some i"
    from run p obtain u b where u: "tasklet_item i s = Some u" "rd (blink_array u) i = Some b" "f (next_blink b) u = Some t"
      by (auto simp: bind_eq_Some_conv)
    have "b = blink_array u ! i" using u(2) by (auto simp: rd_def split: if_splits)
    with tasklet_item_next [OF u(1)] n have "next_blink b = Some i" "next_blink (blink_array u ! i) = Some i" by simp_all
    with IH [OF u(3)] show False by blast
  qed
qed

lemma malloc_same:
  assumes "mp1_malloc s = Some i" and "location b = 0"
  shows "mp1_malloc (s\<lparr>blink_array := (blink_array s)[i := b], mp1_list_head := h, vmem := v\<rparr>) = Some i"
proof -
  have "location ((blink_array s)[i := b] ! j) = 0 \<longleftrightarrow> location (blink_array s ! j) = 0" for j
    using assms by (cases "j = i"; cases "i < length (blink_array s)")
      (auto simp: mp1_malloc_def find_Some_iff list_update_beyond not_less simp del: upt_rec_numeral)
  with assms(1) show ?thesis by (simp add: mp1_malloc_def)
qed

lemma add_eq:
  assumes "location b < 80 * 25" and "2 * CELLS \<le> length (vmem s)" and "mp1_malloc s = Some i"
  shows "mp1_ioctl_add b s = Some (0, s\<lparr>blink_array := (blink_array s)[i := b\<lparr>status := 1, countdown := on_length b, next_blink := mp1_list_head s\<rparr>],
    mp1_list_head := Some i, vmem := (vmem s)[vcell b := on_char b]\<rparr>)"
  using assms cell_bound [of b]
  by (auto simp: mp1_ioctl_add_def mp1_poke_def vcell_def set_blink_def Let_def not_le wr_def)



section \<open>The rhythm of a character\<close>

lemma expires_of_nat: "countdown b = of_nat c \<Longrightarrow> 0 < c \<Longrightarrow> c < 2 ^ 15 \<Longrightarrow> expires b \<longleftrightarrow> c = 1"
proof -
  assume c: "countdown b = of_nat c" "0 < c" "c < 2 ^ 15"
  have "countdown b - 1 = of_nat (c - 1)" using c by (simp add: of_nat_diff)
  moreover have "sint (of_nat (c - 1) :: u16) = int (c - 1)" using c(3) by (simp add: signed_of_nat signed_take_bit_int_eq_self)
  ultimately show ?thesis using c by (auto simp: expires_def word_sless_alt)
qed

text \<open>A character \<open>k\<close> ticks after it was added, and what it shows then.\<close>

definition period :: "mp1_blink_struct \<Rightarrow> nat" where
  "period b = unat (on_length b) + unat (off_length b)"

definition phase :: "mp1_blink_struct \<Rightarrow> nat \<Rightarrow> mp1_blink_struct" where
  "phase b k =
     (let r = k mod period b
      in if r < unat (on_length b) then (bare b)\<lparr>status := 1, countdown := of_nat (unat (on_length b) - r)\<rparr>
         else (bare b)\<lparr>status := 0, countdown := of_nat (period b - r)\<rparr>)"

definition shown :: "mp1_blink_struct \<Rightarrow> nat \<Rightarrow> u8" where
  "shown b k = (if k mod period b < unat (on_length b) then on_char b else off_char b)"

definition regular :: "mp1_blink_struct \<Rightarrow> bool" where
  "regular b \<longleftrightarrow> 0 < unat (on_length b) \<and> unat (on_length b) < 2 ^ 15 \<and> 0 < unat (off_length b) \<and> unat (off_length b) < 2 ^ 15"

lemma cell_simps [simp]: "vcell (b\<lparr>status := x\<rparr>) = vcell b" "vcell (b\<lparr>countdown := y\<rparr>) = vcell b"
  by (simp_all add: vcell_def)

lemma phase_0: "regular b \<Longrightarrow> phase b 0 = fresh b" "regular b \<Longrightarrow> shown b 0 = on_char b"
  by (simp_all add: phase_def fresh_def shown_def regular_def)

lemma phase_fields [simp]: "location (phase b k) = location b" "vcell (phase b k) = vcell b"
  by (simp_all add: phase_def Let_def vcell_def)

lemma phase_on: "k mod period b < unat (on_length b) \<Longrightarrow>
    phase b k = (bare b)\<lparr>status := 1, countdown := of_nat (unat (on_length b) - k mod period b)\<rparr> \<and> shown b k = on_char b"
  and phase_off: "\<not> k mod period b < unat (on_length b) \<Longrightarrow>
    phase b k = (bare b)\<lparr>status := 0, countdown := of_nat (period b - k mod period b)\<rparr> \<and> shown b k = off_char b"
  by (simp_all add: phase_def shown_def Let_def)

lemma tick_phase:
  assumes "regular b"
  shows "tick (phase b k) = phase b (Suc k)
    \<and> (vcell b < length v \<longrightarrow> v ! vcell b = shown b k \<longrightarrow> tick_screen (phase b k) v ! vcell b = shown b (Suc k))"
proof -
  let ?n = "unat (on_length b)" and ?N = "period b" and ?r = "k mod period b"
  have nm: "0 < ?n" "?n < 2 ^ 15" "?n < ?N" "?N - ?n < 2 ^ 15" using assms by (simp_all add: regular_def period_def)
  have r: "?r < ?N" using nm by simp
  have dec: "of_nat c - (1 :: u16) = of_nat (c - 1)" if "0 < c" for c using that by (simp add: of_nat_diff)
  have m: "of_nat (?N - ?n) = off_length b" by (simp add: period_def)
  consider "Suc ?r < ?n" | "Suc ?r = ?n" | "?n \<le> ?r" "Suc ?r < ?N" | "?n \<le> ?r" "Suc ?r = ?N" using r by linarith
  then show ?thesis
  proof cases
    case 1
    then have s: "Suc k mod ?N = Suc ?r" "?r < ?n" using nm by (simp_all add: mod_Suc)
    have "\<not> expires (phase b k)" using expires_of_nat [of "phase b k" "?n - ?r"] phase_on [OF s(2)] nm 1 by simp
    then show ?thesis
      using phase_on [OF s(2)] phase_on [of "Suc k" b] 1 by (simp add: tick_def tick_screen_def s(1) dec)
  next
    case 2
    then have s: "Suc k mod ?N = ?n" "?r < ?n" "?n - ?r = 1" using nm by (simp_all add: mod_Suc)
    have "expires (phase b k)" using expires_of_nat [of "phase b k" "?n - ?r"] phase_on [OF s(2)] s(3) by simp
    then show ?thesis
      using phase_on [OF s(2)] phase_off [of "Suc k" b] m by (simp add: tick_def tick_screen_def s(1))
  next
    case 3
    then have s: "Suc k mod ?N = Suc ?r" "\<not> ?r < ?n" by (simp_all add: mod_Suc)
    have "\<not> expires (phase b k)" using expires_of_nat [of "phase b k" "?N - ?r"] phase_off [OF s(2)] nm 3 by simp
    then show ?thesis
      using phase_off [OF s(2)] phase_off [of "Suc k" b] 3 by (simp add: tick_def tick_screen_def s(1) dec)
  next
    case 4
    then have s: "Suc k mod ?N = 0" "\<not> ?r < ?n" "?N - ?r = 1" by (simp_all add: mod_Suc)
    have "expires (phase b k)" using expires_of_nat [of "phase b k" "?N - ?r"] phase_off [OF s(2)] s(3) by simp
    then show ?thesis
      using phase_off [OF s(2)] phase_on [of "Suc k" b] nm by (simp add: tick_def tick_screen_def s(1))
  qed
qed

lemma tick_screen_other: "location c \<noteq> location b \<Longrightarrow> tick_screen c v ! vcell b = v ! vcell b"
  by (simp add: tick_screen_def vcell_def word_unat_eq_iff)

lemma length_tick_screen [simp]: "length (tick_screen b v) = length v"
  by (simp add: tick_screen_def)

lemma fold_tick_screen:
  "length (fold tick_screen cs v) = length v"
  "\<forall>c\<in>set cs. location c \<noteq> location b \<Longrightarrow> fold tick_screen cs v ! vcell b = v ! vcell b"
  by (induction cs arbitrary: v) (simp_all add: tick_screen_other)

lemma ticks_phase:
  assumes "regular b" and "\<forall>c\<in>set cs. location c \<noteq> location b" and "vcell b < length v" and "v ! vcell b = shown b j"
  shows "\<exists>ds w. spec_ops spec_op (replicate k Op_tick) (phase b j # cs, v) = (replicate k 0, phase b (j + k) # ds, w)
    \<and> w ! vcell b = shown b (j + k)"
  using assms(2-4)
proof (induction k arbitrary: j cs v)
  case (Suc k)
  let ?v = "fold tick_screen cs (tick_screen (phase b j) v)"
  have "?v ! vcell b = shown b (Suc j)"
    using fold_tick_screen(2) [OF Suc.prems(1)] tick_phase [OF assms(1), of j v] Suc.prems by simp
  with Suc.IH [of "map tick cs" ?v "Suc j"] obtain ds w where
    "spec_ops spec_op (replicate k Op_tick) (phase b (Suc j) # map tick cs, ?v) = (replicate k 0, phase b (Suc j + k) # ds, w)"
    "w ! vcell b = shown b (Suc j + k)"
    using Suc.prems by (auto simp: fold_tick_screen)
  then show ?case using tick_phase [OF assms(1), of j v] by simp
qed simp

text \<open>
  C24: the rhythm of a character. Add a character whose two lengths are from 1 to 32767 to any animation that has room and no character at the
  same location; \<open>k\<close> clock ticks later its cell shows the first character while \<open>k\<close> modulo the sum of the lengths is below
  the first length, and the second character for the rest of the period.
\<close>

theorem character_blinks_in_period:
  assumes "blinks s (bs, v)" and "length bs < CELLS" and "0 < location b" "location b < 80 * 25"
    and "0 < on_length b" "on_length b < 0x8000" "0 < off_length b" "off_length b < 0x8000"
    and "\<forall>c\<in>set bs. location c \<noteq> location b"
  shows "\<exists>t. run_ops run_op (Op_add b # replicate k Op_tick) s = Some (replicate (Suc k) 0, t)
    \<and> vmem t ! (2 * unat (location b)) =
        (if k mod (unat (on_length b) + unat (off_length b)) < unat (on_length b) then on_char b else off_char b)"
proof -
  have reg: "regular b" using assms(5-8) by (simp add: regular_def word_less_nat_alt)
  let ?v = "v[vcell b := on_char b]"
  have lv: "vcell b < length v" using assms(1) cell_bound [OF assms(4)] by (auto simp: blinks_def pool_ok_def)
  obtain ds w where w: "spec_ops spec_op (replicate k Op_tick) (phase b 0 # bs, ?v) = (replicate k 0, phase b (0 + k) # ds, w)"
    "w ! vcell b = shown b (0 + k)"
    using ticks_phase [OF reg assms(9), of ?v 0 k] lv phase_0 [OF reg] by auto
  have sp: "spec_ops spec_op (Op_add b # replicate k Op_tick) (bs, v) = (replicate (Suc k) 0, phase b (0 + k) # ds, w)"
    using w(1) assms(2,4) phase_0 [OF reg] by (simp add: not_le [symmetric])
  have al: "list_all op_allowed (Op_add b # replicate k Op_tick)" using assms(3) by (simp add: list_all_iff)
  from blink_ops.steps [OF assms(1) al] obtain t where
    t: "run_ops run_op (Op_add b # replicate k Op_tick) s = Some (replicate (Suc k) 0, t)" "blinks t (phase b (0 + k) # ds, w)"
    unfolding sp by auto
  have "vmem t = w" using t(2) by (simp add: blinks_def)
  then show ?thesis using t(1) w(2) by (auto simp: vcell_def shown_def period_def simp del: run_ops.simps replicate.simps)
qed

theorem character_blinks_in_period_witness:
  "\<exists>t. run_ops run_op (Op_add demo_blink # replicate 100 Op_tick) (empty_pool (replicate 4000 0)) = Some (replicate 101 0, t)
    \<and> vmem t ! 1080 = 77"
  using character_blinks_in_period [OF blinks_empty, of "replicate 4000 0" demo_blink 100]
  by (simp add: demo_blink_def null_blink_def del: run_ops.simps replicate.simps)

section \<open>Synchronising\<close>

text \<open>
  Synchronising shows the wrong character. The flag \<^verbatim>\<open>cmovl\<close> tests is never set by \<^verbatim>\<open>testb\<close> with 1, so the second
  character's cell always gets its second character, also when the state it took over from the first one is the
  state in which the first character is shown.
\<close>

lemma sync_shows_second_character:
  assumes "blinks s (bs, v)" and "at k bs = Some a" and "at l bs = Some d"
  shows "\<exists>t. mp1_ioctl_sync (push_bit 16 (ucast k) OR ucast l) s = Some (0, t)
    \<and> blinks t (change_at l (like a) bs, v[vcell d := off_char d]) \<and> vmem t ! (2 * unat l) = off_char d"
proof -
  from sync_refines [OF assms(1) sync_args, of k l] assms(2,3) obtain t where
    t: "mp1_ioctl_sync (push_bit 16 (ucast k) OR ucast l) s = Some (0, t)"
    "blinks t (change_at l (like a) bs, v[vcell d := off_char d])" by auto
  obtain js where js: "pool_ok s js" "bs = listed (blink_array s) js" "v = vmem s" using assms(1) by (auto elim: blinksE)
  from assms(3) js obtain i where i: "find (\<lambda>i. location (blink_array s ! i) = l) js = Some i" and d: "d = bare (blink_array s ! i)"
    by (auto simp: at_listed)
  have "i \<in> set js" "location d = l" using i d by (auto simp: find_Some_iff)
  then have "location d < 80 * 25" using pool_bounded [OF js(1), of i] js(1) d by (auto simp: pool_ok_def)
  then have "vcell d < length v" using cell_bound js(1,3) by (fastforce simp: pool_ok_def)
  moreover have "vcell d = 2 * unat l" using \<open>location d = l\<close> by (simp add: vcell_def)
  moreover have "vmem t = v[vcell d := off_char d]" using t(2) by (simp add: blinks_def)
  ultimately show ?thesis using t by simp
qed

section \<open>Structures as bytes\<close>

text \<open>Clearing and copying all 16 bytes of a structure are the record operations of the model.\<close>

lemma memset_eq: "n \<le> length mem \<Longrightarrow> ece391_memset mem c n = Some (replicate n c @ drop n mem)"
proof (induction n)
  case (Suc n)
  then show ?case
    by (simp add: ece391_memset_def replicate_append_same list_update_append Cons_nth_drop_Suc [symmetric])
qed (simp add: ece391_memset_def)

lemma memcpy_eq: "n \<le> length d \<Longrightarrow> n \<le> length s \<Longrightarrow> ece391_memcpy d s n = Some (0, take n s @ drop n d)"
proof -
  have "fold (\<lambda>i d. do { d \<leftarrow> d; b \<leftarrow> rd s i; wr d i b }) [0..<n] (Some d) = Some (take n s @ drop n d)"
    if "n \<le> length d" "n \<le> length s"
    using that by (induction n) (simp_all add: take_Suc_conv_app_nth list_update_append Cons_nth_drop_Suc [symmetric])
  then show "n \<le> length d \<Longrightarrow> n \<le> length s \<Longrightarrow> ece391_memcpy d s n = Some (0, take n s @ drop n d)" by (simp add: ece391_memcpy_def)
qed

lemma length_blink_bytes [simp]: "length (blink_bytes ptr b) = 16"
  by (simp add: blink_bytes_def le16_def le32_def)

lemma blink_bytes_memset: "ptr None = 0 \<Longrightarrow> ece391_memset (blink_bytes ptr b) 0 16 = Some (blink_bytes ptr null_blink)"
  by (simp add: memset_eq) (simp add: blink_bytes_def null_blink_def le16_def le32_def numeral_eq_Suc)

lemma blink_bytes_memcpy: "ece391_memcpy (blink_bytes ptr d) (blink_bytes ptr b) 16 = Some (0, blink_bytes ptr b)"
  by (simp add: memcpy_eq)

end
