(* ===== verification/User_Clock.thy ===== *)
theory User_Clock
  imports User_Errors User_Run User_Demo
begin

text \<open>
  Programs that wait for the clock: the locale \<open>clock_system\<close> adds to the calls of a \<open>checked_system\<close> the clock device, with the
  number of ticks still to come, and is interpreted on the kernel's calls. \<open>pingpong\<close> (\<^verbatim>\<open>src/syscalls/ece391pingpong.c\<close>)
  is such a program.
\<close>

section \<open>The clock\<close>

locale clock_system =
  fixes c :: "'s syscalls"
    and ok :: "nat \<Rightarrow> 's \<Rightarrow> bool"
    and screen :: "'s \<Rightarrow> 'v"
    and put :: "u8 \<Rightarrow> 'v \<Rightarrow> 'v"
    and fds :: "'s \<Rightarrow> int \<Rightarrow> stream option"
    and args :: "'s \<Rightarrow> u8 list"
    and lookup :: "u8 list \<Rightarrow> stream option"
    and names :: "u8 list list"
    and closed :: "'s \<Rightarrow> int set"
    and ticked :: "'v \<Rightarrow> 'v"
    and set_rate :: "u16 \<Rightarrow> 'v \<Rightarrow> 'v"
  assumes sys: "checked_system c (ok n) screen put fds args lookup names closed"
    and read_clock: "ok (Suc n) s \<Longrightarrow> fds s fd = Some Clock \<Longrightarrow> 0 \<le> k \<Longrightarrow>
      \<exists>t. ece391_read c fd buf k s = Some (0, buf, t) \<and> ok n t \<and> fds t = fds s \<and> args t = args s \<and> screen t = ticked (screen s)"
    and read_waits: "ok 0 s \<Longrightarrow> fds s fd = Some Clock \<Longrightarrow> 0 \<le> k \<Longrightarrow> ece391_read c fd buf k s = None"
    and write_clock: "ok n s \<Longrightarrow> fds s fd = Some Clock \<Longrightarrow> 0 \<le> k \<Longrightarrow> 2 \<le> length buf \<Longrightarrow>
      \<exists>t. ece391_write c fd buf k s = Some (0, t) \<and> ok n t \<and> fds t = fds s \<and> args t = args s
        \<and> screen t = set_rate (ucast (buf ! 0) OR push_bit 8 (ucast (buf ! 1))) (screen s)"

sublocale clock_system \<subseteq> checked: checked_system c "ok n" screen put fds args lookup names closed for n
  by (rule sys)

section \<open>The kernel's clock\<close>

definition console_ticked :: "console \<Rightarrow> console" where
  "console_ticked v = rtc_interrupt (\<lambda>_ _. 0) (v\<lparr>int_flag := 1\<rparr>)"

definition console_rate :: "device \<Rightarrow> u16 \<Rightarrow> console \<Rightarrow> console" where
  "console_rate dev f v = snd (rtc_write dev f v)"

lemma truncate_clock:
  "console.truncate (rtc_interrupt dev (s\<lparr>int_flag := 1\<rparr>)) = console_ticked (console.truncate s)"
  "console.truncate (snd (rtc_write dev f s)) = console_rate dev f (console.truncate s)"
  by (simp_all add: console_ticked_def console_rate_def rtc_interrupt_def rtc_write_def send_eoi_def outb_def inb_def inw_def Let_def console.defs)

lemma clock_dev_only:
  fixes s :: kernel
  shows "dev_only s (rtc_interrupt dev (s\<lparr>int_flag := 1\<rparr>))" "dev_only s (snd (rtc_write dev f s))"
  by (simp_all add: dev_only_def rtc_write_def inb_def outb_def Let_def)

lemma process_ok_dev:
  assumes "process_ok E f p K (Ticks n) (es, s)" and "dev_only (in_call E s) t"
  shows "process_ok E f p K (Ticks m) (replicate m Tick, t)" "process_fds f p (es', t) = process_fds f p (es, s)"
    "process_args p (es', t) = process_args p (es, s)"
proof -
  note d = dev_only_fields [OF assms(2)]
  have "ops_table s = ops_table (sys_init s)" using assms(1) unfolding process_ok_def Let_def by simp
  then have ops: "ops_table t = ops_table (sys_init t)" by (rule ops_inited) (simp add: d)
  show "process_ok E f p K (Ticks m) (replicate m Tick, t)"
    using assms(1) ops unfolding process_ok_def Let_def by (simp add: d rest_of_def pending_def)
  show "process_fds f p (es', t) = process_fds f p (es, s)" "process_args p (es', t) = process_args p (es, s)"
    by (simp_all add: d process_fds_def process_args_def fun_eq_iff)
qed

lemma clock_descriptor:
  assumes "process_ok E f p K I (es, s)" and "process_fds f p (es, s) fd = Some Clock"
  shows "2 \<le> fd" "fd < 8" "fd_operations (fd_arr (cur_pcb (in_call E s)) ! nat fd) = rtc_operations"
    "ops_table s rtc_operations = \<lparr>read_function = Rtc_fn, write_function = Rtc_fn, open_function = Rtc_fn, close_function = Rtc_fn\<rparr>"
proof -
  from process_okE [OF assms(1)] obtain q where q: "pcb_at s (pcb_addr (int p)) = q" "ops_table s = ops_table (sys_init s)"
    "get_pcb (in_call E s) = pcb_addr (int p)" by metis
  show "2 \<le> fd" "fd < 8" "fd_operations (fd_arr (cur_pcb (in_call E s)) ! nat fd) = rtc_operations"
    using assms(2) q(1,3) by (auto simp: process_fds_def fd_stream_def split: if_splits)
  show "ops_table s rtc_operations = \<lparr>read_function = Rtc_fn, write_function = Rtc_fn, open_function = Rtc_fn, close_function = Rtc_fn\<rparr>"
    using q(2) sys_init_ops(4) [of s] by (rule trans [OF fun_cong])
qed

interpretation kernel_clock: clock_system "kernel_calls E" "\<lambda>n. process_ok E f p K (Ticks n)" console_of putc "process_fds f p" "process_args p"
  "image_lookup f" "image_names f" "closed_fds p" console_ticked "console_rate (env_dev E)"
proof (rule clock_system.intro)
  show "checked_system (kernel_calls E) (process_ok E f p K (Ticks n)) console_of putc (process_fds f p) (process_args p)
    (image_lookup f) (image_names f) (closed_fds p)" for n
    by (rule kernel_checked.checked_system_axioms)
next
  fix n :: nat and st :: "irq list \<times> kernel" and fd k :: int and buf :: "u8 list"
  obtain es s where st: "st = (es, s)" by (cases st)
  let ?u = "in_call E s" and ?h = "irq_handler (env_dev E) (env_header E) (env_entry E) (env_junk E)"
  assume ok: "process_ok E f p K (Ticks (Suc n)) st" and fd: "process_fds f p st fd = Some Clock" and k: "0 \<le> k"
  note cd = clock_descriptor [OF ok [unfolded st] fd [unfolded st]]
  let ?v = "rtc_interrupt (env_dev E) (?u\<lparr>int_flag := 1\<rparr>)"
  have es: "es = Tick # replicate n Tick" using ok by (simp add: st process_ok_def Let_def pending_def)
  have "rtc_read ?h ([] @ Tick # replicate n Tick) ?u =
      do { u \<leftarrow> run_events ?h [] (?u\<lparr>int_flag := 1\<rparr>); v \<leftarrow> ?h Tick u; Some (0, v, replicate n Tick) }"
    by (rule kernel_ticks.read_at_first_tick) simp_all
  then have "rtc_read ?h es ?u = Some (0, ?v, replicate n Tick)" by (simp add: es irq_handler_def)
  then have "ece391_read (kernel_calls E) fd buf k st = Some (0, buf, replicate n Tick, ?v)"
    using cd k by (simp add: st kernel_calls_def call_result_def sys_read_def Let_def of_option_def)
  then show "\<exists>t. ece391_read (kernel_calls E) fd buf k st = Some (0, buf, t) \<and> process_ok E f p K (Ticks n) t \<and> process_fds f p t = process_fds f p st
      \<and> process_args p t = process_args p st \<and> console_of t = console_ticked (console_of st)"
    using process_ok_dev [OF ok [unfolded st] clock_dev_only(1)] by (auto simp: st console_of_def truncate_clock)
next
  fix st :: "irq list \<times> kernel" and fd k :: int and buf :: "u8 list"
  obtain es s where st: "st = (es, s)" by (cases st)
  let ?h = "irq_handler (env_dev E) (env_header E) (env_entry E) (env_junk E)"
  assume ok: "process_ok E f p K (Ticks 0) st" and fd: "process_fds f p st fd = Some Clock" and k: "0 \<le> k"
  note cd = clock_descriptor [OF ok [unfolded st] fd [unfolded st]]
  have "es = []" using ok by (simp add: st process_ok_def Let_def pending_def)
  moreover have "rtc_read ?h [] (in_call E s) = None" by (rule kernel_ticks.read_blocks) simp
  ultimately show "ece391_read (kernel_calls E) fd buf k st = None"
    using cd k by (simp add: st kernel_calls_def call_result_def sys_read_def Let_def of_option_def)
next
  fix n :: nat and st :: "irq list \<times> kernel" and fd k :: int and buf :: "u8 list"
  obtain es s where st: "st = (es, s)" by (cases st)
  let ?u = "in_call E s"
  assume ok: "process_ok E f p K (Ticks n) st" and fd: "process_fds f p st fd = Some Clock" and k: "0 \<le> k" "2 \<le> length buf"
  note cd = clock_descriptor [OF ok [unfolded st] fd [unfolded st]]
  let ?f = "ucast (buf ! 0) OR push_bit 8 (ucast (buf ! 1))"
  have es: "es = replicate n Tick" using ok by (simp add: st process_ok_def Let_def pending_def)
  have "0 < length buf" using k(2) by linarith
  moreover have "fst (rtc_write (env_dev E) ?f ?u) = 0" by (simp add: rtc_write_def Let_def case_prod_beta)
  ultimately have "ece391_write (kernel_calls E) fd buf k st = Some (0, es, snd (rtc_write (env_dev E) ?f ?u))"
    using cd k by (cases "rtc_write (env_dev E) ?f ?u") (simp add: st kernel_calls_def call_result_def sys_write_def Let_def of_option_def)
  then show "\<exists>t. ece391_write (kernel_calls E) fd buf k st = Some (0, t) \<and> process_ok E f p K (Ticks n) t \<and> process_fds f p t = process_fds f p st
      \<and> process_args p t = process_args p st \<and> console_of t = console_rate (env_dev E) ?f (console_of st)"
    using process_ok_dev [OF ok [unfolded st] clock_dev_only(2)] by (auto simp: st es console_of_def truncate_clock)
qed

section \<open>The program\<close>

definition clear_world :: "u8 list \<Rightarrow> u8 list" where
  "clear_world buf = fold (\<lambda>i b. b[i := 32]) [2..<78] buf"

text \<open>The body of the two inner loops: clear the field, draw the character, print the line, wait for a tick.\<close>

definition pp_step :: "'s syscalls \<Rightarrow> int \<Rightarrow> u8 list \<Rightarrow> u8 \<Rightarrow> nat \<Rightarrow> u8 list \<Rightarrow> 's \<Rightarrow> (u8 list \<times> 's) option" where
  "pp_step c rtc_fd garbage curchar j buf s =
     do {
       buf \<leftarrow> wr (clear_world buf) j curchar;
       s \<leftarrow> ece391_fdputs c 1 buf s;
       (_, _, s) \<leftarrow> ece391_read c rtc_fd garbage 4 s;
       Some (buf, s)
     }"

fun pp_steps :: "'s syscalls \<Rightarrow> int \<Rightarrow> u8 list \<Rightarrow> u8 \<Rightarrow> nat list \<Rightarrow> u8 list \<Rightarrow> 's \<Rightarrow> (u8 list \<times> 's) option" where
  "pp_steps c rtc_fd garbage curchar [] buf s = Some (buf, s)"
| "pp_steps c rtc_fd garbage curchar (j # js) buf s =
     do { (buf, s) \<leftarrow> pp_step c rtc_fd garbage curchar j buf s; pp_steps c rtc_fd garbage curchar js buf s }"

text \<open>
  One round of the endless loop: out, back, and the next letter. \<open>pp_rounds\<close> is the state after a number of rounds;
  the loop itself never returns.
\<close>

definition pp_round :: "'s syscalls \<Rightarrow> int \<Rightarrow> u8 list \<Rightarrow> u8 \<Rightarrow> u8 list \<Rightarrow> 's \<Rightarrow> (u8 \<times> u8 list \<times> 's) option" where
  "pp_round c rtc_fd garbage curchar buf s =
     do {
       (buf, s) \<leftarrow> pp_steps c rtc_fd garbage curchar [2..<78] buf s;
       (buf, s) \<leftarrow> pp_steps c rtc_fd garbage curchar (rev [2..<78]) buf s;
       Some (if curchar = of_char CHR ''Z'' then of_char CHR ''A'' else curchar + 1, buf, s)
     }"

fun pp_rounds :: "nat \<Rightarrow> 's syscalls \<Rightarrow> int \<Rightarrow> u8 list \<Rightarrow> u8 \<Rightarrow> u8 list \<Rightarrow> 's \<Rightarrow> (u8 \<times> u8 list \<times> 's) option" where
  "pp_rounds 0 c rtc_fd garbage curchar buf s = Some (curchar, buf, s)"
| "pp_rounds (Suc n) c rtc_fd garbage curchar buf s =
     do { (curchar, buf, s) \<leftarrow> pp_round c rtc_fd garbage curchar buf s; pp_rounds n c rtc_fd garbage curchar buf s }"

partial_function (option) pp_loop :: "'s syscalls \<Rightarrow> int \<Rightarrow> u8 list \<Rightarrow> u8 \<Rightarrow> u8 list \<Rightarrow> 's \<Rightarrow> (int \<times> 's) option" where
  "pp_loop c rtc_fd garbage curchar buf s =
     do {
       (curchar, buf, s) \<leftarrow> pp_round c rtc_fd garbage curchar buf s;
       pp_loop c rtc_fd garbage curchar buf s
     }"

definition pp_buffer :: "u8 list" where
  "pp_buffer = (replicate 81 32)[80 := 0, 79 := 10, 78 := of_char CHR ''|'', 1 := of_char CHR ''|'']"

definition pp_start :: "'s syscalls \<Rightarrow> 's \<Rightarrow> (int \<times> 's) option" where
  "pp_start c s =
     do {
       (rtc_fd, s) \<leftarrow> ece391_open c (lit ''rtc'') s;
       (_, s) \<leftarrow> ece391_write c rtc_fd [32, 0, 0, 0] 4 s;
       Some (rtc_fd, s)
     }"

definition pingpong :: "'s syscalls \<Rightarrow> u8 list \<Rightarrow> 's \<Rightarrow> (int \<times> 's) option" where
  "pingpong c garbage s =
     do { (rtc_fd, s) \<leftarrow> pp_start c s; pp_loop c rtc_fd garbage (of_char CHR ''A'') pp_buffer s }"

text \<open>The program up to the end of round \<open>n\<close>; the program continues from there.\<close>

definition pingpong_rounds :: "nat \<Rightarrow> 's syscalls \<Rightarrow> u8 list \<Rightarrow> 's \<Rightarrow> (int \<times> u8 \<times> u8 list \<times> 's) option" where
  "pingpong_rounds n c garbage s =
     do {
       (rtc_fd, s) \<leftarrow> pp_start c s;
       (curchar, buf, s) \<leftarrow> pp_rounds n c rtc_fd garbage (of_char CHR ''A'') pp_buffer s;
       Some (rtc_fd, curchar, buf, s)
     }"

lemma pp_loop_rounds:
  "pp_loop c rtc_fd g ch buf s = do { (ch, buf, s) \<leftarrow> pp_rounds n c rtc_fd g ch buf s; pp_loop c rtc_fd g ch buf s }"
proof (induction n arbitrary: ch buf s)
  case (Suc n)
  show ?case
  proof (cases "pp_round c rtc_fd g ch buf s")
    case None
    then show ?thesis by (subst pp_loop.simps) simp
  next
    case (Some x)
    obtain ch' buf' s' where x: "x = (ch', buf', s')" by (cases x)
    have "pp_loop c rtc_fd g ch buf s = pp_loop c rtc_fd g ch' buf' s'" using Some by (subst pp_loop.simps) (simp add: x)
    also note Suc [of ch' buf' s']
    finally show ?thesis using Some by (simp add: x)
  qed
qed simp

lemma pingpong_continues:
  "pingpong c g s = do { (rtc_fd, ch, buf, s) \<leftarrow> pingpong_rounds n c g s; pp_loop c rtc_fd g ch buf s }"
proof (cases "pp_start c s")
  case (Some x)
  then show ?thesis using pp_loop_rounds [of c "fst x" g "of_char CHR ''A''" pp_buffer "snd x" n]
    by (cases x; cases "pp_rounds n c (fst x) g (of_char CHR ''A'') pp_buffer (snd x)")
      (auto simp: pingpong_def pingpong_rounds_def)
qed (simp add: pingpong_def pingpong_rounds_def)

section \<open>What it shows\<close>

definition pp_line :: "u8 \<Rightarrow> nat \<Rightarrow> u8 list" where
  "pp_line ch j = [32, 124] @ (replicate 76 32)[j - 2 := ch] @ [124, 10]"

definition pp_letter :: "nat \<Rightarrow> u8" where
  "pp_letter n = of_nat (65 + n mod 26)"

lemma clear_world_eq: "length buf = 81 \<Longrightarrow> clear_world buf = take 2 buf @ replicate 76 32 @ drop 78 buf"
proof -
  assume len: "length buf = 81"
  have "fold (\<lambda>i b. b[i := (32 :: u8)]) [2..<2 + k] buf = take 2 buf @ replicate k 32 @ drop (2 + k) buf" if "k \<le> 76" for k
    using that len
  proof (induction k)
    case (Suc k)
    have "drop (2 + k) buf = buf ! (2 + k) # drop (2 + Suc k) buf" using Suc.prems len by (simp add: Cons_nth_drop_Suc)
    with Suc show ?case by (simp add: list_update_append replicate_append_same)
  qed simp
  from this [of 76] show ?thesis by (simp add: clear_world_def)
qed

text \<open>The line buffer keeps its walls and its end.\<close>

definition pp_walls :: "u8 list \<Rightarrow> bool" where
  "pp_walls buf \<longleftrightarrow> length buf = 81 \<and> take 2 buf = [32, 124] \<and> drop 78 buf = [124, 10, 0]"

lemma pp_walls_buffer: "pp_walls pp_buffer"
  by (simp add: pp_walls_def pp_buffer_def numeral_eq_Suc)

lemma pp_draw:
  assumes "pp_walls buf" and "2 \<le> j" "j < 78" and "ch \<noteq> 0"
  shows "wr (clear_world buf) j ch = Some (pp_line ch j @ [0])" "pp_walls (pp_line ch j @ [0])" "cstr (pp_line ch j @ [0]) = pp_line ch j"
proof -
  have "clear_world buf = [32, 124] @ replicate 76 32 @ [124, 10, 0]" using clear_world_eq [of buf] assms(1) by (simp add: pp_walls_def)
  then show "wr (clear_world buf) j ch = Some (pp_line ch j @ [0])"
    using assms(2,3) by (simp add: pp_line_def list_update_append nth_Cons' list_update.simps split: nat.split)
  show "pp_walls (pp_line ch j @ [0])" by (simp add: pp_walls_def pp_line_def)
  have "set (pp_line ch j) \<subseteq> {32, 124, 10, ch}" using set_update_subset_insert [of "replicate 76 (32 :: u8)" "j - 2" ch] by (auto simp: pp_line_def)
  then have "0 \<notin> set (pp_line ch j)" using assms(4) by auto
  then show "cstr (pp_line ch j @ [0]) = pp_line ch j" using cstr_append_nul [of "pp_line ch j" "[]"] by simp
qed


definition pp_show :: "(u8 \<Rightarrow> 'v \<Rightarrow> 'v) \<Rightarrow> ('v \<Rightarrow> 'v) \<Rightarrow> u8 \<Rightarrow> nat list \<Rightarrow> 'v \<Rightarrow> 'v" where
  "pp_show put ticked ch js v = fold (\<lambda>j v. ticked (fold put (pp_line ch j) v)) js v"

abbreviation there_and_back :: "nat list" where
  "there_and_back \<equiv> [2..<78] @ rev [2..<78]"

lemma pp_letter_next: "(if pp_letter n = of_char CHR ''Z'' then of_char CHR ''A'' else pp_letter n + 1) = pp_letter (Suc n)"
  and pp_letter_nonzero: "pp_letter n \<noteq> 0"
proof -
  have m: "n mod 26 < 26" by simp
  have u: "unat (pp_letter k) = 65 + k mod 26" for k
    using pos_mod_bound [of 26 "int k"] by (simp add: pp_letter_def unat_of_nat del: of_nat_add)
  have "unat (65 :: u8) = 65" "unat (90 :: u8) = 90" by simp_all
  then have z: "pp_letter n = 90 \<longleftrightarrow> n mod 26 = 25" using u [of n] by (simp add: word_unat_eq_iff)
  show "pp_letter n \<noteq> 0" using u [of n] by auto
  show "(if pp_letter n = of_char CHR ''Z'' then of_char CHR ''A'' else pp_letter n + 1) = pp_letter (Suc n)"
    using z m by (auto simp: pp_letter_def mod_Suc)
qed

context clock_system
begin

lemma pp_step_shows:
  assumes "ok (Suc n) s" and "fds s fd = Some Clock" and "pp_walls buf" and "2 \<le> j" "j < 78" and "ch \<noteq> 0"
  shows "\<exists>t. pp_step c fd g ch j buf s = Some (pp_line ch j @ [0], t) \<and> ok n t \<and> fds t = fds s
    \<and> screen t = ticked (fold put (pp_line ch j) (screen s))"
proof -
  note d = pp_draw [OF assms(3-6)]
  from checked.fdputs_out [OF assms(1), of "pp_line ch j @ [0]"] obtain u where
    u: "ece391_fdputs c 1 (pp_line ch j @ [0]) s = Some u" "ok (Suc n) u" "fds u = fds s" "screen u = fold put (pp_line ch j) (screen s)"
    unfolding d(3) by auto
  from read_clock [OF u(2), of fd 4 g] u(3) assms(2) obtain t where
    "ece391_read c fd g 4 u = Some (0, g, t)" "ok n t" "fds t = fds u" "screen t = ticked (screen u)" by auto
  with u d(1) show ?thesis by (simp add: pp_step_def)
qed

lemma pp_steps_shows:
  assumes "ok (length js + n) s" and "fds s fd = Some Clock" and "pp_walls buf" and "\<forall>j\<in>set js. 2 \<le> j \<and> j < 78" and "ch \<noteq> 0"
  shows "\<exists>buf' t. pp_steps c fd g ch js buf s = Some (buf', t) \<and> pp_walls buf' \<and> ok n t \<and> fds t = fds s
    \<and> screen t = pp_show put ticked ch js (screen s)"
  using assms(1-4)
proof (induction js arbitrary: buf s)
  case (Cons j js)
  then have j: "2 \<le> j" "j < 78" "ok (Suc (length js + n)) s" by simp_all
  from pp_step_shows [OF j(3) Cons.prems(2,3) j(1,2) assms(5), of g] obtain u where
    u: "pp_step c fd g ch j buf s = Some (pp_line ch j @ [0], u)" "ok (length js + n) u" "fds u = fds s"
    "screen u = ticked (fold put (pp_line ch j) (screen s))" by blast
  from Cons.IH [OF u(2), of "pp_line ch j @ [0]"] u(3) Cons.prems pp_draw(2) [OF Cons.prems(3) j(1,2) assms(5)] obtain buf' t where
    "pp_steps c fd g ch js (pp_line ch j @ [0]) u = Some (buf', t)" "pp_walls buf'" "ok n t" "fds t = fds u"
    "screen t = pp_show put ticked ch js (screen u)" by auto
  with u show ?case by (simp add: pp_show_def)
qed (simp add: pp_show_def)

lemma pp_steps_waits:
  assumes "ok n s" and "n < length js" and "fds s fd = Some Clock" and "pp_walls buf" and "\<forall>j\<in>set js. 2 \<le> j \<and> j < 78" and "ch \<noteq> 0"
  shows "pp_steps c fd g ch js buf s = None"
  using assms(1-5)
proof (induction js arbitrary: n buf s)
  case (Cons j js)
  then have j: "2 \<le> j" "j < 78" by simp_all
  note d = pp_draw [OF Cons.prems(4) j assms(6)]
  show ?case
  proof (cases n)
    case 0
    from checked.fdputs_out [OF Cons.prems(1), of "pp_line ch j @ [0]"] obtain u where
      u: "ece391_fdputs c 1 (pp_line ch j @ [0]) s = Some u" "ok 0 u" "fds u = fds s" using 0 by auto
    then show ?thesis using d(1) read_waits [OF u(2), of fd 4 g] Cons.prems(3) by (simp add: pp_step_def)
  next
    case (Suc m)
    from pp_step_shows [OF Cons.prems(1) [unfolded Suc] Cons.prems(3,4) j assms(6), of g] obtain u where
      u: "pp_step c fd g ch j buf s = Some (pp_line ch j @ [0], u)" "ok m u" "fds u = fds s" by blast
    with Cons.IH [OF u(2), of "pp_line ch j @ [0]"] Cons.prems d(2) Suc show ?thesis by simp
  qed
qed simp

lemma pp_round_shows:
  assumes "ok (152 + n) s" and "fds s fd = Some Clock" and "pp_walls buf"
  shows "\<exists>buf' t. pp_round c fd g (pp_letter i) buf s = Some (pp_letter (Suc i), buf', t) \<and> pp_walls buf' \<and> ok n t \<and> fds t = fds s
    \<and> screen t = pp_show put ticked (pp_letter i) there_and_back (screen s)"
proof -
  have "ok (length [2..<78] + (76 + n)) s" using assms(1) by (simp del: upt_rec_numeral)
  from pp_steps_shows [OF this assms(2,3) _ pp_letter_nonzero, of g i] obtain b u where
    u: "pp_steps c fd g (pp_letter i) [2..<78] buf s = Some (b, u)" "pp_walls b" "ok (76 + n) u" "fds u = fds s"
    "screen u = pp_show put ticked (pp_letter i) [2..<78] (screen s)" by (auto simp del: upt_rec_numeral)
  have "ok (length (rev [2..<78]) + n) u" using u(3) by (simp del: upt_rec_numeral)
  from pp_steps_shows [OF this _ u(2) _ pp_letter_nonzero, of fd g i] u(4) assms(2) obtain b' t where
    t: "pp_steps c fd g (pp_letter i) (rev [2..<78]) b u = Some (b', t)" "pp_walls b'" "ok n t" "fds t = fds u"
    "screen t = pp_show put ticked (pp_letter i) (rev [2..<78]) (screen u)" by (auto simp del: upt_rec_numeral)
  show ?thesis
    using u t pp_letter_next [of i] by (simp add: pp_round_def pp_show_def del: upt_rec_numeral)
qed

lemma pp_rounds_show:
  assumes "ok (152 * n + m) s" and "fds s fd = Some Clock" and "pp_walls buf"
  shows "\<exists>buf' t. pp_rounds n c fd g (pp_letter i) buf s = Some (pp_letter (i + n), buf', t) \<and> pp_walls buf' \<and> ok m t \<and> fds t = fds s
    \<and> screen t = fold (\<lambda>k. pp_show put ticked (pp_letter k) there_and_back) [i..<i + n] (screen s)"
  using assms
proof (induction n arbitrary: i buf s)
  case (Suc n)
  have "ok (152 + (152 * n + m)) s" using Suc.prems(1) by (simp add: add.assoc)
  from pp_round_shows [OF this Suc.prems(2,3), of g i] obtain b u where
    u: "pp_round c fd g (pp_letter i) buf s = Some (pp_letter (Suc i), b, u)" "pp_walls b" "ok (152 * n + m) u" "fds u = fds s"
    "screen u = pp_show put ticked (pp_letter i) there_and_back (screen s)" by blast
  from Suc.IH [OF u(3) _ u(2), of "Suc i"] u(4) Suc.prems(2) obtain b' t where
    "pp_rounds n c fd g (pp_letter (Suc i)) b u = Some (pp_letter (Suc i + n), b', t)" "pp_walls b'" "ok m t" "fds t = fds u"
    "screen t = fold (\<lambda>k. pp_show put ticked (pp_letter k) there_and_back) [Suc i..<Suc i + n] (screen u)" by auto
  moreover have "[i..<i + Suc n] = i # [Suc i..<Suc i + n]" by (simp add: upt_conv_Cons)
  ultimately show ?case using u(1,4,5) by (simp del: upt_rec_numeral)
qed simp

lemma pp_round_waits:
  assumes "ok n s" and "n < 152" and "fds s fd = Some Clock" and "pp_walls buf"
  shows "pp_round c fd g (pp_letter i) buf s = None"
proof (cases "n < 76")
  case True
  then have "pp_steps c fd g (pp_letter i) [2..<78] buf s = None"
    using assms by (intro pp_steps_waits [OF assms(1) _ assms(3,4) _ pp_letter_nonzero]) (simp_all del: upt_rec_numeral)
  then show ?thesis by (simp add: pp_round_def del: upt_rec_numeral)
next
  case False
  then have "ok (length [2..<78] + (n - 76)) s" using assms(1) by (simp del: upt_rec_numeral)
  from pp_steps_shows [OF this assms(3,4) _ pp_letter_nonzero, of g i] obtain b u where
    u: "pp_steps c fd g (pp_letter i) [2..<78] buf s = Some (b, u)" "pp_walls b" "ok (n - 76) u" "fds u = fds s"
    by (auto simp del: upt_rec_numeral)
  have "pp_steps c fd g (pp_letter i) (rev [2..<78]) b u = None"
    using u(4) assms(2,3) False by (intro pp_steps_waits [OF u(3) _ _ u(2) _ pp_letter_nonzero]) (simp_all del: upt_rec_numeral)
  with u(1) show ?thesis by (simp add: pp_round_def del: upt_rec_numeral)
qed

lemma pp_start_opens:
  assumes "ok n s" and "lookup (bytes ''rtc'') = Some Clock" and "2 \<le> d" "d < 8" "fds s d = None"
  shows "\<exists>fd t. pp_start c s = Some (fd, t) \<and> ok n t \<and> fds t fd = Some Clock \<and> screen t = set_rate 32 (screen s)"
proof -
  have "cstr (lit ''rtc'') = bytes ''rtc''" by (simp add: bytes_def)
  with checked.open_found [OF assms(1), of "lit ''rtc''" Clock d] assms obtain fd u where
    u: "ece391_open c (lit ''rtc'') s = Some (fd, u)" "ok n u" "fds u fd = Some Clock" "screen u = screen s" by auto
  from write_clock [OF u(2,3), of 4 "[32, 0, 0, 0]"] obtain t where
    "ece391_write c fd [32, 0, 0, 0] 4 u = Some (0, t)" "ok n t" "fds t = fds u" "screen t = set_rate 32 (screen u)" by auto
  with u show ?thesis by (auto simp: pp_start_def)
qed

lemma pingpong_shows:
  assumes "ok (152 * n + m) s" and "lookup (bytes ''rtc'') = Some Clock" and "2 \<le> d" "d < 8" "fds s d = None"
  shows "\<exists>fd buf t. pingpong_rounds n c g s = Some (fd, pp_letter n, buf, t) \<and> ok m t \<and> pp_walls buf \<and> fds t fd = Some Clock
    \<and> screen t = fold (\<lambda>k. pp_show put ticked (pp_letter k) there_and_back) [0..<n] (set_rate 32 (screen s))"
proof -
  from pp_start_opens [OF assms] obtain fd u where
    u: "pp_start c s = Some (fd, u)" "ok (152 * n + m) u" "fds u fd = Some Clock" "screen u = set_rate 32 (screen s)" by blast
  have l: "of_char CHR ''A'' = pp_letter 0" by (simp add: pp_letter_def)
  from pp_rounds_show [OF u(2,3) pp_walls_buffer, of g 0] obtain buf t where
    "pp_rounds n c fd g (pp_letter 0) pp_buffer u = Some (pp_letter n, buf, t)" "pp_walls buf" "ok m t" "fds t = fds u"
    "screen t = fold (\<lambda>k. pp_show put ticked (pp_letter k) there_and_back) [0..<n] (screen u)" by auto
  with u show ?thesis unfolding pingpong_rounds_def l by (simp del: upt_rec_numeral)
qed

lemma pingpong_never_returns:
  assumes "ok n s" and "lookup (bytes ''rtc'') = Some Clock" and "2 \<le> d" "d < 8" "fds s d = None"
  shows "pingpong c g s = None"
proof -
  have n: "ok (152 * (n div 152) + n mod 152) s" using assms(1) by simp
  from pingpong_shows [OF n assms(2-5), of g] obtain fd buf t where
    t: "pingpong_rounds (n div 152) c g s = Some (fd, pp_letter (n div 152), buf, t)" "ok (n mod 152) t" "pp_walls buf" "fds t fd = Some Clock"
    by blast
  have "pp_loop c fd g (pp_letter (n div 152)) buf t = None"
    using pp_round_waits [OF t(2) _ t(4,3)] by (subst pp_loop.simps) simp
  then show ?thesis using pingpong_continues [of c g s "n div 152"] t(1) by simp
qed

end

section \<open>A machine with a clock\<close>

text \<open>The machine of \<open>User_Demo\<close> with the clock device in place of the program, and with its text file under the names of the two frames of the fish.\<close>

definition clock_mem :: memory where
  "clock_mem = poem_mem(0 := 4, 192 := 114, 193 := 116, 194 := 99, 224 := 0, 128 := 102, 129 := 114, 130 := 97, 131 := 109, 132 := 101, 133 := 48, 134 := 46, 135 := 116, 136 := 120, 137 := 116,
      256 := 102, 257 := 114, 258 := 97, 259 := 109, 260 := 101, 261 := 49, 262 := 46, 263 := 116, 264 := 120, 265 := 116, 288 := 2)"

definition clock_fs :: fsys where "clock_fs = fsystem_init clock_mem 0"

definition clock_state :: "nat \<Rightarrow> irq list \<times> kernel" where
  "clock_state n = (replicate n Tick, (snd (poem_state []))\<lparr>fs := clock_fs\<rparr>)"

lemma clock_fs_fields:
  "dir_count clock_fs = 4" "boot_inode_count clock_fs = 2" "data_count clock_fs = 2"
  "inode_length clock_fs 0 = 9" "data_block_num clock_fs 0 0 = 0" "data_block_first clock_fs = 12288" "fs_mem clock_fs = clock_mem"
  "filetype (dir_entry clock_fs 0) = 1" "inode_num (dir_entry clock_fs 1) = 0" "filetype (dir_entry clock_fs 1) = 2"
  "filetype (dir_entry clock_fs 2) = 0" "inode_num (dir_entry clock_fs 3) = 0" "filetype (dir_entry clock_fs 3) = 2"
  by (simp_all add: clock_fs_def fsystem_init_def dir_count_def boot_inode_count_def data_count_def
      inode_length_def data_block_num_def read_u32_def clock_mem_def poem_mem_def dir_entry_def direntry_addr_def)

lemmas clock_fs_facts = clock_fs_fields clock_fs_fields(9,10) [unfolded One_nat_def] clock_fs_fields(11) [unfolded numeral_2_eq_2]
  clock_fs_fields(12,13) [unfolded numeral_3_eq_3]

lemma clock_dir_name: "dir_name clock_fs 0 = bytes ''.''" "dir_name clock_fs 1 = bytes ''frame0.txt''" "dir_name clock_fs 2 = bytes ''rtc''"
  "dir_name clock_fs 3 = bytes ''frame1.txt''"
proof -
  have "take 2 (direntry_obj clock_fs 0) = [46, 0]" "take 11 (direntry_obj clock_fs 1) = bytes ''frame0.txt'' @ [0]"
    "take 4 (direntry_obj clock_fs 2) = [114, 116, 99, 0]" "take 11 (direntry_obj clock_fs 3) = bytes ''frame1.txt'' @ [0]"
    by (simp_all add: direntry_obj_def obj_at_def take_map upt_conv_Cons direntry_addr_def clock_fs_def fsystem_init_def clock_mem_def poem_mem_def bytes_def)
  then show "dir_name clock_fs 0 = bytes ''.''" "dir_name clock_fs 1 = bytes ''frame0.txt''" "dir_name clock_fs 2 = bytes ''rtc''"
    "dir_name clock_fs 3 = bytes ''frame1.txt''"
    using dir_nameI [of 2 clock_fs 0 "bytes ''.''"] dir_nameI [of 11 clock_fs 1 "bytes ''frame0.txt''"] dir_nameI [of 4 clock_fs 2 "bytes ''rtc''"]
      dir_nameI [of 11 clock_fs 3 "bytes ''frame1.txt''"]
    by (simp_all add: bytes_def)
qed

lemma clock_entries: "[0..<unat (dir_count clock_fs)] = [0, 1, 2, 3]"
proof -
  have "[0..<4] = [0, 1, 2, 3 :: nat]" by code_simp
  then show ?thesis by (simp add: clock_fs_fields del: upt_rec_numeral One_nat_def)
qed

lemma clock_content: "file_content clock_fs 0 = poem"
proof -
  have "file_byte clock_fs 0 j = clock_mem (12288 + of_nat j)" if "j < 4096" for j
    using that by (simp add: file_byte_def clock_fs_fields)
  moreover have "[0..<9] = [0, 1, 2, 3, 4, 5, 6, 7, 8 :: nat]" by code_simp
  ultimately have "file_content clock_fs 0 = map (\<lambda>j. clock_mem (12288 + of_nat j)) [0, 1, 2, 3, 4, 5, 6, 7, 8]"
    by (simp add: file_content_def clock_fs_fields)
  also have "\<dots> = poem" by (simp add: clock_mem_def poem_mem_def poem_def bytes_def)
  finally show ?thesis .
qed

lemma clock_lookup: "image_lookup clock_fs (bytes ''rtc'') = Some Clock" "image_lookup clock_fs (bytes ''frame0.txt'') = Some (File poem 0)"
  "image_lookup clock_fs (bytes ''frame1.txt'') = Some (File poem 0)"
proof -
  have "wf_file clock_fs 0" by (simp add: wf_file_def clock_fs_fields)
  then have "fd_stream clock_fs (opened_fd (dir_entry clock_fs 1) clear_fd) = Some (File poem 0)"
    "fd_stream clock_fs (opened_fd (dir_entry clock_fs 2) clear_fd) = Some Clock"
    "fd_stream clock_fs (opened_fd (dir_entry clock_fs 3) clear_fd) = Some (File poem 0)"
    by (simp_all add: fd_stream_def clock_fs_facts clock_content poem_length)
  moreover have "bytes ''.'' \<noteq> bytes ''frame0.txt''" "bytes ''.'' \<noteq> bytes ''rtc''" "bytes ''.'' \<noteq> bytes ''frame1.txt''"
    "bytes ''frame0.txt'' \<noteq> bytes ''rtc''" "bytes ''frame0.txt'' \<noteq> bytes ''frame1.txt''" "bytes ''rtc'' \<noteq> bytes ''frame1.txt''"
    by (simp_all add: bytes_def)
  ultimately show "image_lookup clock_fs (bytes ''rtc'') = Some Clock" "image_lookup clock_fs (bytes ''frame0.txt'') = Some (File poem 0)"
    "image_lookup clock_fs (bytes ''frame1.txt'') = Some (File poem 0)"
    using clock_dir_name by (simp_all add: image_lookup_def clock_entries)
qed

lemma clock_ok: "process_ok poem_env clock_fs 0 (rest_of 0 (snd (clock_state n))) (Ticks n) (clock_state n)"
proof -
  have "wf_image clock_fs" unfolding wf_image_def clock_entries by (simp add: clock_fs_facts)
  moreover have "ops_table (snd (clock_state n)) = ops_table (sys_init (snd (clock_state n)))"
    by (simp add: clock_state_def poem_state_def sys_init_def)
  ultimately show ?thesis using poem_ok [of "[]"]
    by (simp add: process_ok_def Let_def pending_def clock_state_def poem_state_fields)
qed

lemma clock_free: "2 \<le> d \<Longrightarrow> d < 8 \<Longrightarrow> process_fds clock_fs 0 (clock_state n) d = None"
  using poem_free [of d "[]"] by (simp add: process_fds_def clock_state_def fd_stream_def split: if_splits)

section \<open>On the kernel\<close>

text \<open>
  C21: \<open>pingpong\<close> on the kernel. A process with a free descriptor on an image with the clock device opens the clock and sets it to 32 Hz; in every 152 clock ticks it
  then prints the line with its two walls and the current letter once at each of the 76 columns, on the way out and on the way back, waiting for one tick
  after each line, and goes on to the next letter of the alphabet, after Z to A. It
  never returns: when the ticks run out, it waits.
\<close>

theorem pingpong_bounces:
  assumes "process_ok E f p K (Ticks (152 * n + m)) st" and "image_lookup f (bytes ''rtc'') = Some Clock"
    and "2 \<le> d" "d < 8" "process_fds f p st d = None"
  shows "\<exists>fd buf t. pingpong_rounds n (kernel_calls E) g st = Some (fd, pp_letter n, buf, t) \<and> process_ok E f p K (Ticks m) t
    \<and> console_of t = fold (\<lambda>k. pp_show putc console_ticked (pp_letter k) ([2..<78] @ rev [2..<78])) [0..<n]
        (console_rate (env_dev E) 32 (console_of st))
    \<and> pingpong (kernel_calls E) g st = None"
  using kernel_clock.pingpong_shows [OF assms, of g] kernel_clock.pingpong_never_returns [OF assms, of g] by blast

theorem pingpong_bounces_witness:
  "\<exists>fd buf t. pingpong_rounds 2 (kernel_calls poem_env) [0, 0, 0, 0] (clock_state 304) = Some (fd, of_char CHR ''C'', buf, t)
    \<and> console_of t = fold (\<lambda>k. pp_show putc console_ticked (pp_letter k) ([2..<78] @ rev [2..<78])) [0, 1]
        (console_rate (env_dev poem_env) 32 (console_of (clock_state 304)))
    \<and> pingpong (kernel_calls poem_env) [0, 0, 0, 0] (clock_state 304) = None"
proof -
  have "process_ok poem_env clock_fs 0 (rest_of 0 (snd (clock_state 304))) (Ticks (152 * 2 + 0)) (clock_state 304)"
    using clock_ok [of 304] by simp
  from pingpong_bounces [OF this clock_lookup(1) _ _ clock_free [of 2], of "[0, 0, 0, 0]"] show ?thesis
    by (auto simp: pp_letter_def upt_rec simp del: upt_rec_numeral)
qed

end
