(* ===== verification/Fish.thy ===== *)
theory Fish
  imports Blink User_Clock
begin

text \<open>
  The fish animation, \<^verbatim>\<open>src/fish/fish.c\<close>: two text files are the two frames of a picture, and every cell in which one of them has a
  character that is not a space becomes a blinking character. The program runs over the system calls; its own
  memory is the state of \<open>Blink\<close>. The uninitialised fields of the local structure and its address on the stack are parameters.
\<close>

section \<open>Reading the frames\<close>

definition frame_read :: "'s syscalls \<Rightarrow> int \<Rightarrow> u8 \<Rightarrow> bool \<Rightarrow> 's \<Rightarrow> (u8 \<times> bool \<times> 's) option" where
  "frame_read c fd ch eof s =
     (if ch \<noteq> 10 then
        do {
          (num_bytes, b, s) \<leftarrow> ece391_read c fd [ch] 1 s;
          ch \<leftarrow> rd b 0;
          Some (if num_bytes = 0 then (10, True, s) else (ch, eof, s))
        }
      else Some (ch, eof, s))"

text \<open>The inner loop: one line of each file.\<close>

partial_function (option) frame_row ::
  "'s syscalls \<Rightarrow> u32 \<Rightarrow> int \<Rightarrow> int \<Rightarrow> int \<Rightarrow> int \<Rightarrow> u8 \<Rightarrow> u8 \<Rightarrow> bool \<Rightarrow> bool \<Rightarrow> mp1_blink_struct \<Rightarrow> 's \<Rightarrow> blink_state
   \<Rightarrow> (bool \<times> bool \<times> mp1_blink_struct \<times> 's \<times> blink_state) option" where
  "frame_row c sp fd0 fd1 row col c0 c1 eof0 eof1 blk s B =
     do {
       (c0, eof0, s) \<leftarrow> frame_read c fd0 c0 eof0 s;
       (c1, eof1, s) \<leftarrow> frame_read c fd1 c1 eof1 s;
       if c0 = 10 \<and> c1 = 10 then Some (eof0, eof1, blk, s, B)
       else if (c0 \<noteq> 32 \<and> c0 \<noteq> 10) \<or> (c1 \<noteq> 32 \<and> c1 \<noteq> 10) then
         do {
           let blk = blk\<lparr>on_char := if c0 = 10 then 32 else c0, off_char := if c1 = 10 then 32 else c1,
             location := word_of_int (row * 80 + col + 40)\<rparr>;
           (_, _, B) \<leftarrow> mp1_ioctl sp 0 [sp \<mapsto> blk] B;
           frame_row c sp fd0 fd1 row (col + 1) c0 c1 eof0 eof1 blk s B
         }
       else frame_row c sp fd0 fd1 row (col + 1) c0 c1 eof0 eof1 blk s B
     }"

definition frame_end :: "'s syscalls \<Rightarrow> int \<Rightarrow> bool \<Rightarrow> 's \<Rightarrow> (u8 \<times> 's) option" where
  "frame_end c fd eof s = (if eof then do { (_, s) \<leftarrow> ece391_close c fd s; Some (10, s) } else Some (48, s))"

partial_function (option) frame_rows ::
  "'s syscalls \<Rightarrow> u32 \<Rightarrow> int \<Rightarrow> int \<Rightarrow> int \<Rightarrow> u8 \<Rightarrow> u8 \<Rightarrow> bool \<Rightarrow> bool \<Rightarrow> mp1_blink_struct \<Rightarrow> 's \<Rightarrow> blink_state
   \<Rightarrow> ('s \<times> blink_state) option" where
  "frame_rows c sp fd0 fd1 row c0 c1 eof0 eof1 blk s B =
     (if \<not> eof0 \<or> \<not> eof1 then
        do {
          (eof0, eof1, blk, s, B) \<leftarrow> frame_row c sp fd0 fd1 row 0 c0 c1 eof0 eof1 blk s B;
          (c0, s) \<leftarrow> frame_end c fd0 eof0 s;
          (c1, s) \<leftarrow> frame_end c fd1 eof1 s;
          frame_rows c sp fd0 fd1 (row + 1) c0 c1 eof0 eof1 blk s B
        }
      else Some (s, B))"

text \<open>A value is the status with which the program halted, when it did not return.\<close>

definition add_frames ::
  "'s syscalls \<Rightarrow> u32 \<Rightarrow> mp1_blink_struct \<Rightarrow> u8 list \<Rightarrow> u8 list \<Rightarrow> 's \<Rightarrow> blink_state \<Rightarrow> (int option \<times> 's \<times> blink_state) option" where
  "add_frames c sp blk f0 f1 s B =
     do {
       let blk = blk\<lparr>on_length := 15, off_length := 15\<rparr>;
       (fd0, s) \<leftarrow> ece391_open c f0 s;
       if fd0 < 0 then Some (Some (-1), s, B)
       else
         do {
           (fd1, s) \<leftarrow> ece391_open c f1 s;
           if fd1 < 0 then Some (Some (-1), s, B)
           else do { (s, B) \<leftarrow> frame_rows c sp fd0 fd1 0 48 48 False False blk s B; Some (None, s, B) }
         }
     }"

section \<open>The program\<close>

definition file0 :: "u8 list" where "file0 = lit ''frame0.txt''"
definition file1 :: "u8 list" where "file1 = lit ''frame1.txt''"

text \<open>\<open>base\<close> is the address that the call stores into \<open>vmem_base_addr\<close>, at address \<open>va\<close>.\<close>

definition mp1_set_video_mode :: "'s syscalls \<Rightarrow> u32 \<Rightarrow> u32 \<Rightarrow> 's \<Rightarrow> (u32 \<times> 's) option" where
  "mp1_set_video_mode c va base s = do { (r, s) \<leftarrow> ece391_vidmap c va s; Some (if r = -1 then 0 else base, s) }"

text \<open>One of the four loops of \<open>main\<close>, \<open>WAIT\<close> times a tick and the tasklet.\<close>

fun wait_loop :: "nat \<Rightarrow> 's syscalls \<Rightarrow> int \<Rightarrow> u8 list \<Rightarrow> 's \<Rightarrow> blink_state \<Rightarrow> (u8 list \<times> 's \<times> blink_state) option" where
  "wait_loop 0 c rtc_fd garbage s B = Some (garbage, s, B)"
| "wait_loop (Suc i) c rtc_fd garbage s B =
     do {
       (_, garbage, s) \<leftarrow> ece391_read c rtc_fd garbage 4 s;
       B \<leftarrow> mp1_rtc_tasklet B;
       wait_loop i c rtc_fd garbage s B
     }"

definition WAIT :: nat where "WAIT = 100"

definition fish_run :: "'s syscalls \<Rightarrow> u32 \<Rightarrow> mp1_blink_struct \<Rightarrow> u8 list \<Rightarrow> int \<Rightarrow> 's \<Rightarrow> blink_state \<Rightarrow> (int \<times> 's \<times> blink_state) option" where
  "fish_run c sp blk garbage rtc_fd s B =
     do {
       (_, s) \<leftarrow> ece391_write c rtc_fd [32, 0, 0, 0] 4 s;
       (garbage, s, B) \<leftarrow> wait_loop WAIT c rtc_fd garbage s B;
       let blk = blk\<lparr>on_char := of_char CHR ''I'', off_char := of_char CHR ''M'', on_length := 7, off_length := 6, location := 6 * 80 + 60\<rparr>;
       (_, _, B) \<leftarrow> mp1_ioctl sp 0 [sp \<mapsto> blk] B;
       (garbage, s, B) \<leftarrow> wait_loop WAIT c rtc_fd garbage s B;
       (_, _, B) \<leftarrow> mp1_ioctl (push_bit 16 40 OR (6 * 80 + 60)) 3 [sp \<mapsto> blk] B;
       (garbage, s, B) \<leftarrow> wait_loop WAIT c rtc_fd garbage s B;
       (_, _, B) \<leftarrow> mp1_ioctl (6 * 80 + 60) 1 [sp \<mapsto> blk] B;
       (garbage, s, B) \<leftarrow> wait_loop WAIT c rtc_fd garbage s B;
       (_, s) \<leftarrow> ece391_close c rtc_fd s;
       Some (0, s, B)
     }"

definition fish_main ::
  "'s syscalls \<Rightarrow> u32 \<Rightarrow> u32 \<Rightarrow> u32 \<Rightarrow> mp1_blink_struct \<Rightarrow> mp1_blink_struct \<Rightarrow> u8 list \<Rightarrow> 's \<Rightarrow> blink_state
   \<Rightarrow> (int \<times> 's \<times> blink_state) option" where
  "fish_main c va base sp blk blk' garbage s B =
     do {
       let B = B\<lparr>blink_array := replicate CELLS null_blink\<rparr>;
       (v, s) \<leftarrow> mp1_set_video_mode c va base s;
       if v = 0 then Some (-1, s, B)
       else
         do {
           (rtc_fd, s) \<leftarrow> ece391_open c (lit ''rtc'') s;
           (halted, s, B) \<leftarrow> add_frames c sp blk' file0 file1 s B;
           case halted of Some code \<Rightarrow> Some (code, s, B) | None \<Rightarrow> fish_run c sp blk garbage rtc_fd s B
         }
     }"

section \<open>The pictures\<close>

text \<open>The cells of two pictures: a row of cells for each pair of lines, lines and rows that are missing being blank.\<close>

definition padded :: "u8 list \<Rightarrow> nat \<Rightarrow> u8" where
  "padded l k = (if k < length l then l ! k else 32)"

fun row_cells :: "u8 list \<Rightarrow> u8 list \<Rightarrow> nat \<Rightarrow> nat \<Rightarrow> (nat \<times> nat \<times> u8 \<times> u8) list" where
  "row_cells [] [] r k = []"
| "row_cells (a # l) [] r k = (if a = 32 then [] else [(r, k, a, 32)]) @ row_cells l [] r (Suc k)"
| "row_cells [] (b # m) r k = (if b = 32 then [] else [(r, k, 32, b)]) @ row_cells [] m r (Suc k)"
| "row_cells (a # l) (b # m) r k = (if a = 32 \<and> b = 32 then [] else [(r, k, a, b)]) @ row_cells l m r (Suc k)"

fun frame_lines :: "u8 list \<Rightarrow> u8 list list" where
  "frame_lines [] = [[]]"
| "frame_lines (a # F) = (if a = 10 then [] # frame_lines F else (a # hd (frame_lines F)) # tl (frame_lines F))"

fun picture_cells :: "u8 list list \<Rightarrow> u8 list list \<Rightarrow> nat \<Rightarrow> (nat \<times> nat \<times> u8 \<times> u8) list" where
  "picture_cells [] [] r = []"
| "picture_cells (l # L) [] r = row_cells l [] r 0 @ picture_cells L [] (Suc r)"
| "picture_cells [] (m # M) r = row_cells [] m r 0 @ picture_cells [] M (Suc r)"
| "picture_cells (l # L) (m # M) r = row_cells l m r 0 @ picture_cells L M (Suc r)"

definition cell_op :: "nat \<times> nat \<times> u8 \<times> u8 \<Rightarrow> blink_op" where
  "cell_op = (\<lambda>(r, k, a, b). Op_add \<lparr>location = of_nat (r * 80 + k + 40), on_char = a, off_char = b, on_length = 15, off_length = 15,
     countdown = 0, status = 0, next_blink = None\<rparr>)"

definition draws :: "(nat \<times> nat \<times> u8 \<times> u8) list \<Rightarrow> animation \<Rightarrow> animation" where
  "draws cs A = snd (spec_ops spec_op (map cell_op cs) A)"

definition on_page :: "(nat \<times> nat \<times> u8 \<times> u8) list \<Rightarrow> bool" where
  "on_page cs \<longleftrightarrow> list_all (\<lambda>(r, k, a, b). r * 80 + k + 40 < 2 ^ 16) cs"

lemma row_cells_iff:
  "(r', k', a, b) \<in> set (row_cells l m r k) \<longleftrightarrow>
     r' = r \<and> k \<le> k' \<and> k' - k < max (length l) (length m) \<and> a = padded l (k' - k) \<and> b = padded m (k' - k) \<and> (a \<noteq> 32 \<or> b \<noteq> 32)"
proof (induction l m r k rule: row_cells.induct)
  case (2 a l r k)
  then show ?case by (cases "k' - k") (auto simp: padded_def Suc_diff_le diff_Suc split: nat.splits)
next
  case (3 b m r k)
  then show ?case by (cases "k' - k") (auto simp: padded_def Suc_diff_le diff_Suc split: nat.splits)
next
  case (4 a l b m r k)
  then show ?case by (cases "k' - k") (auto simp: padded_def Suc_diff_le diff_Suc split: nat.splits)
qed simp

section \<open>Reading a line\<close>

text \<open>
  What one reader has before it: the rest of its line, and the position and the end mark it has when the line is read. A reader whose
  character is the newline is at the end of its line.
\<close>

definition rest_line :: "u8 list \<Rightarrow> nat \<Rightarrow> u8 \<Rightarrow> u8 list" where
  "rest_line F p ch = (if ch = 10 then [] else takeWhile (\<lambda>x. x \<noteq> 10) (drop p F))"

definition end_pos :: "u8 list \<Rightarrow> nat \<Rightarrow> u8 \<Rightarrow> nat" where
  "end_pos F p ch = (if ch = 10 then p else p + length (rest_line F p ch) + (if 10 \<in> set (drop p F) then 1 else 0))"

definition end_eof :: "u8 list \<Rightarrow> nat \<Rightarrow> u8 \<Rightarrow> bool \<Rightarrow> bool" where
  "end_eof F p ch e \<longleftrightarrow> e \<or> ch \<noteq> 10 \<and> 10 \<notin> set (drop p F)"

definition read_char :: "u8 list \<Rightarrow> nat \<Rightarrow> u8 \<Rightarrow> u8" where
  "read_char F p ch = (if ch \<noteq> 10 \<and> p < length F then F ! p else 10)"

definition read_pos :: "u8 list \<Rightarrow> nat \<Rightarrow> u8 \<Rightarrow> nat" where
  "read_pos F p ch = (if ch \<noteq> 10 \<and> p < length F then Suc p else p)"

definition read_eof :: "u8 list \<Rightarrow> nat \<Rightarrow> u8 \<Rightarrow> bool \<Rightarrow> bool" where
  "read_eof F p ch e \<longleftrightarrow> e \<or> ch \<noteq> 10 \<and> \<not> p < length F"

lemma reader_step:
  "rest_line F p ch = (if read_char F p ch = 10 then [] else read_char F p ch # rest_line F (read_pos F p ch) (read_char F p ch))"
  "end_pos F p ch = end_pos F (read_pos F p ch) (read_char F p ch)"
  "end_eof F p ch e = end_eof F (read_pos F p ch) (read_char F p ch) (read_eof F p ch e)"
proof -
  have d: "drop p F = F ! p # drop (Suc p) F" if "p < length F" using that by (simp add: Cons_nth_drop_Suc)
  show "rest_line F p ch = (if read_char F p ch = 10 then [] else read_char F p ch # rest_line F (read_pos F p ch) (read_char F p ch))"
    "end_pos F p ch = end_pos F (read_pos F p ch) (read_char F p ch)"
    "end_eof F p ch e = end_eof F (read_pos F p ch) (read_char F p ch) (read_eof F p ch e)"
    by (cases "p < length F"; simp add: rest_line_def read_char_def read_pos_def end_pos_def end_eof_def read_eof_def d)+
qed

lemma reader_done [simp]: "rest_line F p 10 = []" "end_pos F p 10 = p" "end_eof F p 10 e = e"
  by (simp_all add: rest_line_def end_pos_def end_eof_def)

context user_system
begin

lemma frame_read_step:
  assumes "ok s" and "ch \<noteq> 10 \<Longrightarrow> fds s fd = Some (File F p)"
  shows "\<exists>t. frame_read c fd ch e s = Some (read_char F p ch, read_eof F p ch e, t) \<and> ok t \<and> screen t = screen s \<and> args t = args s
    \<and> fds t = (if ch = 10 then fds s else (fds s)(fd \<mapsto> File F (read_pos F p ch)))"
proof (cases "ch = 10")
  case True
  then show ?thesis using assms(1) by (simp add: frame_read_def read_char_def read_eof_def)
next
  case False
  let ?r = "min 1 (length F - p)"
  from read_file [OF assms(1) assms(2) [OF False], of 1 "[ch]" ?r] obtain t where
    t: "ece391_read c fd [ch] 1 s = Some (int ?r, take ?r (drop p F) @ drop ?r [ch], t)" "ok t" "fds t = (fds s)(fd \<mapsto> File F (p + ?r))"
    "args t = args s" "screen t = screen s"
    by auto
  show ?thesis
  proof (cases "p < length F")
    case True
    then have "?r = 1" "drop p F = F ! p # drop (Suc p) F" by (simp_all add: Cons_nth_drop_Suc)
    with t False True show ?thesis by (simp add: frame_read_def read_char_def read_eof_def read_pos_def)
  next
    case nl: False
    then have "?r = 0" by simp
    with t False nl show ?thesis by (simp add: frame_read_def read_char_def read_eof_def read_pos_def)
  qed
qed

end

lemma draws_simps [simp]: "draws [] A = A" "draws (x # cs) A = draws cs (snd (spec_op (cell_op x) A))"
  by (simp_all add: draws_def case_prod_beta Let_def)

lemma draws_append [simp]: "draws (cs @ ds) A = draws ds (draws cs A)"
  by (induction cs arbitrary: A) simp_all

lemma on_page_simps [simp]: "on_page []" "on_page (cs @ ds) \<longleftrightarrow> on_page cs \<and> on_page ds"
  "on_page ((r, k, a, b) # cs) \<longleftrightarrow> r * 80 + k + 40 < 2 ^ 16 \<and> on_page cs"
  by (simp_all add: on_page_def)

lemma spec_add_fresh: "fresh b = fresh d \<Longrightarrow> spec_op (Op_add b) A = spec_op (Op_add d) A"
proof -
  assume f: "fresh b = fresh d"
  have "location (fresh b) = location b" "on_char (fresh b) = on_char b" "location (fresh d) = location d" "on_char (fresh d) = on_char d"
    by (simp_all add: fresh_def)
  with f have "location b = location d" "on_char b = on_char d" by simp_all
  with f show ?thesis by (cases A) (simp add: vcell_def)
qed

lemma ioctl_add_cell:
  assumes "blinks B A" and "on_length blk = 15" "off_length blk = 15" and "r * 80 + k + 40 < 2 ^ 16"
  shows "\<exists>x um C. mp1_ioctl sp 0 [sp \<mapsto> blk\<lparr>on_char := a, off_char := b, location := word_of_int (int r * 80 + int k + 40)\<rparr>] B = Some (x, um, C)
    \<and> blinks C (draws [(r, k, a, b)] A)"
proof -
  let ?n = "r * 80 + k + 40"
  let ?b = "blk\<lparr>on_char := a, off_char := b, location := word_of_int (int r * 80 + int k + 40)\<rparr>"
  have loc: "word_of_int (int r * 80 + int k + 40) = (of_nat ?n :: u16)" by simp
  have "unat (of_nat ?n :: u16) = ?n" using assms(4) by (simp add: unat_of_nat del: of_nat_add of_nat_mult)
  then have "(of_nat ?n :: u16) \<noteq> 0" by (metis add_is_0 unat_0 zero_neq_numeral)
  then have "location ?b \<noteq> 0" using loc by simp
  from add_refines [OF assms(1) this] obtain C where
    C: "mp1_ioctl_add ?b B = Some (fst (spec_op (Op_add ?b) A), C)" "blinks C (snd (spec_op (Op_add ?b) A))" by blast
  have "fresh ?b = fresh \<lparr>location = of_nat ?n, on_char = a, off_char = b, on_length = 15, off_length = 15,
     countdown = 0, status = 0, next_blink = None\<rparr>" using assms(2,3) loc by (simp add: fresh_def bare_def)
  then have "spec_op (Op_add ?b) A = spec_op (cell_op (r, k, a, b)) A" unfolding cell_op_def by (simp only: prod.case) (rule spec_add_fresh)
  then show ?thesis using C by (auto simp: mp1_ioctl_def)
qed

lemma row_cells_step:
  assumes "\<not> (x = 10 \<and> y = 10)" and "x = 10 \<Longrightarrow> l = []" and "y = 10 \<Longrightarrow> m = []"
  shows "row_cells (if x = 10 then [] else x # l) (if y = 10 then [] else y # m) r k =
    (if (x \<noteq> 32 \<and> x \<noteq> 10) \<or> (y \<noteq> 32 \<and> y \<noteq> 10) then [(r, k, if x = 10 then 32 else x, if y = 10 then 32 else y)] else [])
      @ row_cells l m r (Suc k)"
  using assms by auto

context user_system
begin

lemma frame_row_draws:
  assumes "ok s" and "fd0 \<noteq> fd1" and "c0 \<noteq> 10 \<Longrightarrow> fds s fd0 = Some (File F0 p0)" and "c1 \<noteq> 10 \<Longrightarrow> fds s fd1 = Some (File F1 p1)"
    and "blinks B A" and "on_length blk = 15" "off_length blk = 15"
    and "on_page (row_cells (rest_line F0 p0 c0) (rest_line F1 p1 c1) r k)"
  shows "\<exists>blk' t C. frame_row c sp fd0 fd1 (int r) (int k) c0 c1 e0 e1 blk s B =
      Some (end_eof F0 p0 c0 e0, end_eof F1 p1 c1 e1, blk', t, C)
    \<and> ok t \<and> screen t = screen s \<and> args t = args s \<and> on_length blk' = 15 \<and> off_length blk' = 15
    \<and> fds t = (\<lambda>d. if d = fd0 \<and> c0 \<noteq> 10 then Some (File F0 (end_pos F0 p0 c0))
        else if d = fd1 \<and> c1 \<noteq> 10 then Some (File F1 (end_pos F1 p1 c1)) else fds s d)
    \<and> blinks C (draws (row_cells (rest_line F0 p0 c0) (rest_line F1 p1 c1) r k) A)"
  using assms
proof (induction "length (rest_line F0 p0 c0) + length (rest_line F1 p1 c1)" arbitrary: c0 c1 p0 p1 e0 e1 k s B A blk rule: less_induct)
  case less
  let ?x = "read_char F0 p0 c0" and ?y = "read_char F1 p1 c1" and ?p = "read_pos F0 p0 c0" and ?q = "read_pos F1 p1 c1"
  let ?l = "rest_line F0 ?p ?x" and ?m = "rest_line F1 ?q ?y" and ?d = "read_eof F0 p0 c0 e0" and ?e = "read_eof F1 p1 c1 e1"
  have l: "rest_line F0 p0 c0 = (if ?x = 10 then [] else ?x # ?l)" and m: "rest_line F1 p1 c1 = (if ?y = 10 then [] else ?y # ?m)"
    by (rule reader_step(1))+
  from frame_read_step [OF less.prems(1,3), where e = e0] obtain t where
    t: "frame_read c fd0 c0 e0 s = Some (?x, ?d, t)" "ok t" "screen t = screen s" "args t = args s"
    "fds t = (if c0 = 10 then fds s else (fds s)(fd0 \<mapsto> File F0 ?p))" by blast
  have "fds t fd1 = Some (File F1 p1)" if "c1 \<noteq> 10" using t(5) less.prems(2,4) that by simp
  from frame_read_step [OF t(2) this, where e = e1] obtain u where
    u: "frame_read c fd1 c1 e1 t = Some (?y, ?e, u)" "ok u" "screen u = screen s" "args u = args s"
    "fds u = (if c1 = 10 then fds t else (fds t)(fd1 \<mapsto> File F1 ?q))" using t by metis
  have done0: "c0 = 10 \<Longrightarrow> ?x = 10" and done1: "c1 = 10 \<Longrightarrow> ?y = 10" by (simp_all add: read_char_def)
  note ends = reader_step(2) [of F0 p0 c0] reader_step(2) [of F1 p1 c1] reader_step(3) [of F0 p0 c0 e0] reader_step(3) [of F1 p1 c1 e1]
  show ?case
  proof (cases "?x = 10 \<and> ?y = 10")
    case True
    then have "frame_row c sp fd0 fd1 (int r) (int k) c0 c1 e0 e1 blk s B = Some (?d, ?e, blk, u, B)"
      using t(1) u(1) by (subst frame_row.simps) simp
    moreover have "rest_line F0 p0 c0 = []" "rest_line F1 p1 c1 = []" using l m True by simp_all
    ultimately show ?thesis using u t(5) less.prems(2,5,6,7) ends True by (auto simp: fun_eq_iff)
  next
    case False
    let ?b = "(?x \<noteq> 32 \<and> ?x \<noteq> 10) \<or> (?y \<noteq> 32 \<and> ?y \<noteq> 10)"
    let ?cs = "if ?b then [(r, k, if ?x = 10 then 32 else ?x, if ?y = 10 then 32 else ?y)] else []"
    let ?blk = "if ?b then blk\<lparr>on_char := if ?x = 10 then 32 else ?x, off_char := if ?y = 10 then 32 else ?y,
      location := word_of_int (int r * 80 + int k + 40)\<rparr> else blk"
    have cells: "row_cells (rest_line F0 p0 c0) (rest_line F1 p1 c1) r k = ?cs @ row_cells ?l ?m r (Suc k)"
      unfolding l m by (rule row_cells_step [OF False]) simp_all
    have page: "on_page ?cs" "on_page (row_cells ?l ?m r (Suc k))" using less.prems(8) unfolding cells on_page_simps by blast+
    have k1: "int (Suc k) = int k + 1" by simp
    obtain C where C: "blinks C (draws ?cs A)"
      and step: "frame_row c sp fd0 fd1 (int r) (int k) c0 c1 e0 e1 blk s B = frame_row c sp fd0 fd1 (int r) (int (Suc k)) ?x ?y ?d ?e ?blk u C"
    proof (cases ?b)
      case True
      then have bound: "r * 80 + k + 40 < 2 ^ 16" using page(1) by simp
      from ioctl_add_cell [OF less.prems(5-7) bound, of sp] obtain w um D where
        D: "mp1_ioctl sp 0 [sp \<mapsto> ?blk] B = Some (w, um, D)" "blinks D (draws ?cs A)" using True by (simp only: if_True) blast
      have "frame_row c sp fd0 fd1 (int r) (int k) c0 c1 e0 e1 blk s B = frame_row c sp fd0 fd1 (int r) (int k + 1) ?x ?y ?d ?e ?blk u D"
        using t(1) u(1) D(1) True by (subst frame_row.simps) (simp add: False)
      with D(2) show ?thesis by (intro that [of D]) (simp_all only: k1)
    next
      case nb: False
      have "frame_row c sp fd0 fd1 (int r) (int k) c0 c1 e0 e1 blk s B = frame_row c sp fd0 fd1 (int r) (int k + 1) ?x ?y ?d ?e blk u B"
        by (subst frame_row.simps) (simp only: t(1) u(1) Option.bind.bind_lunit prod.case if_not_P [OF False] if_not_P [OF nb])
      then show ?thesis by (intro that [of B]) (simp_all only: if_not_P [OF nb] draws_simps k1 less.prems(5))
    qed
    have fu: "fds u fd0 = Some (File F0 ?p)" if "?x \<noteq> 10" using that done0 u(5) t(5) less.prems(2) by auto
    have fv: "fds u fd1 = Some (File F1 ?q)" if "?y \<noteq> 10" using that done1 u(5) by auto
    have dec: "length ?l + length ?m < length (rest_line F0 p0 c0) + length (rest_line F1 p1 c1)" using l m False by auto
    have bl: "on_length ?blk = 15" "off_length ?blk = 15" using less.prems(6,7) by simp_all
    from less.hyps [OF dec u(2) less.prems(2) fu fv C bl page(2), where ?e0.0 = ?d and ?e1.0 = ?e] obtain blk' v D where
      v: "frame_row c sp fd0 fd1 (int r) (int (Suc k)) ?x ?y ?d ?e ?blk u C = Some (end_eof F0 ?p ?x ?d, end_eof F1 ?q ?y ?e, blk', v, D)"
      "ok v" "screen v = screen u" "args v = args u" "on_length blk' = 15" "off_length blk' = 15"
      "fds v = (\<lambda>d. if d = fd0 \<and> ?x \<noteq> 10 then Some (File F0 (end_pos F0 ?p ?x))
        else if d = fd1 \<and> ?y \<noteq> 10 then Some (File F1 (end_pos F1 ?q ?y)) else fds u d)"
      "blinks D (draws (row_cells ?l ?m r (Suc k)) (draws ?cs A))" by blast
    have fv: "fds v = (\<lambda>d. if d = fd0 \<and> c0 \<noteq> 10 then Some (File F0 (end_pos F0 p0 c0))
        else if d = fd1 \<and> c1 \<noteq> 10 then Some (File F1 (end_pos F1 p1 c1)) else fds s d)"
      unfolding v(7) ends(1,2) using u(5) t(5) less.prems(2) done0 done1 by (auto simp: fun_eq_iff)
    show ?thesis
      unfolding cells draws_append step ends(3,4)
      by (rule exI [of _ blk'], rule exI [of _ v], rule exI [of _ D]) (use v fv u in \<open>simp\<close>)
  qed
qed

end

section \<open>Reading the files\<close>

lemma frame_lines_nonempty [simp]: "frame_lines F \<noteq> []"
  by (cases F) auto

lemma frame_lines_step:
  "hd (frame_lines F) = takeWhile (\<lambda>x. x \<noteq> 10) F"
  "tl (frame_lines F) = (if 10 \<in> set F then frame_lines (drop (Suc (length (takeWhile (\<lambda>x. x \<noteq> 10) F))) F) else [])"
  by (induction F) auto

lemma picture_step:
  "L \<noteq> [] \<or> M \<noteq> [] \<Longrightarrow> picture_cells L M r =
    row_cells (if L = [] then [] else hd L) (if M = [] then [] else hd M) r 0 @ picture_cells (tl L) (tl M) (Suc r)"
  by (cases L; cases M) auto

text \<open>The lines a reader still has at the start of a row.\<close>

definition lines_left :: "u8 list \<Rightarrow> nat \<Rightarrow> bool \<Rightarrow> u8 list list" where
  "lines_left F p e = (if e then [] else frame_lines (drop p F))"

lemma lines_left_step:
  fixes e :: bool
  defines "ch \<equiv> if e then 10 else 48"
  shows "rest_line F p ch = (if lines_left F p e = [] then [] else hd (lines_left F p e))"
    and "lines_left F (end_pos F p ch) (end_eof F p ch e) = tl (lines_left F p e)"
proof -
  have "(48 :: u8) \<noteq> 10" by simp
  then show "rest_line F p ch = (if lines_left F p e = [] then [] else hd (lines_left F p e))"
    "lines_left F (end_pos F p ch) (end_eof F p ch e) = tl (lines_left F p e)"
    by (cases e; simp add: ch_def lines_left_def rest_line_def end_pos_def end_eof_def frame_lines_step add.commute)+
qed

text \<open>The position a row reader is in: finished and closed, or before its next line.\<close>

definition at_row :: "(int \<Rightarrow> stream option) \<Rightarrow> int \<Rightarrow> u8 list \<Rightarrow> nat \<Rightarrow> bool \<Rightarrow> bool" where
  "at_row m fd F p e \<longleftrightarrow> 2 \<le> fd \<and> fd < 8 \<and> m fd = (if e then None else Some (File F p))"

context checked_system
begin

lemma frame_end_closes:
  assumes "ok s" and "2 \<le> fd" "fd < 8"
  shows "\<exists>t. frame_end c fd eof s = Some (if eof then 10 else 48, t) \<and> ok t \<and> screen t = screen s \<and> args t = args s
    \<and> fds t = (if eof then (fds s)(fd := None) else fds s)"
proof (cases eof)
  case True
  show ?thesis
  proof (cases "fds s fd")
    case None
    then have "(fds s)(fd := None) = fds s" by auto
    with close_unopened [OF assms None] True show ?thesis by (auto simp: frame_end_def)
  next
    case (Some x)
    with close_fd [OF assms(1) Some] True show ?thesis by (auto simp: frame_end_def)
  qed
qed (use assms in \<open>simp add: frame_end_def\<close>)

lemma frame_rows_draws:
  assumes "ok s" and "fd0 \<noteq> fd1" and "at_row (fds s) fd0 F0 p0 e0" and "at_row (fds s) fd1 F1 p1 e1"
    and "blinks B A" and "on_length blk = 15" "off_length blk = 15"
    and "on_page (picture_cells (lines_left F0 p0 e0) (lines_left F1 p1 e1) r)"
  shows "\<exists>t C. frame_rows c sp fd0 fd1 (int r) (if e0 then 10 else 48) (if e1 then 10 else 48) e0 e1 blk s B = Some (t, C)
    \<and> ok t \<and> screen t = screen s \<and> args t = args s \<and> fds t = (fds s)(fd0 := None, fd1 := None)
    \<and> blinks C (draws (picture_cells (lines_left F0 p0 e0) (lines_left F1 p1 e1) r) A)"
  using assms
proof (induction "length (lines_left F0 p0 e0) + length (lines_left F1 p1 e1)" arbitrary: p0 p1 e0 e1 r s B A blk rule: less_induct)
  case less
  let ?L = "lines_left F0 p0 e0" and ?M = "lines_left F1 p1 e1"
  show ?case
  proof (cases "e0 \<and> e1")
    case True
    then have "?L = []" "?M = []" "(fds s)(fd0 := None, fd1 := None) = fds s"
      using less.prems(3,4) by (auto simp: lines_left_def at_row_def fun_eq_iff)
    with True less.prems(1,5) show ?thesis by (subst frame_rows.simps) simp
  next
    case False
    let ?c = "if e0 then 10 else 48 :: u8" and ?d = "if e1 then 10 else 48 :: u8"
    let ?p = "end_pos F0 p0 ?c" and ?q = "end_pos F1 p1 ?d" and ?e = "end_eof F0 p0 ?c e0" and ?f = "end_eof F1 p1 ?d e1"
    note l = lines_left_step [of F0 p0 e0] and m = lines_left_step [of F1 p1 e1]
    have ne: "?L \<noteq> [] \<or> ?M \<noteq> []" using False by (auto simp: lines_left_def)
    have cells: "picture_cells ?L ?M r = row_cells (rest_line F0 p0 ?c) (rest_line F1 p1 ?d) r 0
        @ picture_cells (lines_left F0 ?p ?e) (lines_left F1 ?q ?f) (Suc r)"
      unfolding l m by (rule picture_step [OF ne])
    have page: "on_page (row_cells (rest_line F0 p0 ?c) (rest_line F1 p1 ?d) r 0)"
      "on_page (picture_cells (lines_left F0 ?p ?e) (lines_left F1 ?q ?f) (Suc r))"
      using less.prems(8) unfolding cells on_page_simps by blast+
    have f: "fds s fd0 = Some (File F0 p0)" if "?c \<noteq> 10" using that less.prems(3) by (auto simp: at_row_def split: if_splits)
    have g: "fds s fd1 = Some (File F1 p1)" if "?d \<noteq> 10" using that less.prems(4) by (auto simp: at_row_def split: if_splits)
    from frame_row_draws [OF less.prems(1,2) f g less.prems(5-7) page(1), where sp = sp and ?e0.0 = e0 and ?e1.0 = e1] obtain blk' t C where
      t: "frame_row c sp fd0 fd1 (int r) (int 0) ?c ?d e0 e1 blk s B = Some (?e, ?f, blk', t, C)"
      "ok t" "screen t = screen s" "args t = args s" "on_length blk' = 15" "off_length blk' = 15"
      "fds t = (\<lambda>x. if x = fd0 \<and> ?c \<noteq> 10 then Some (File F0 ?p) else if x = fd1 \<and> ?d \<noteq> 10 then Some (File F1 ?q) else fds s x)"
      "blinks C (draws (row_cells (rest_line F0 p0 ?c) (rest_line F1 p1 ?d) r 0) A)"
      by blast
    have fd: "2 \<le> fd0" "fd0 < 8" "2 \<le> fd1" "fd1 < 8" using less.prems(3,4) by (simp_all add: at_row_def)
    from frame_end_closes [OF t(2) fd(1,2), of ?e] obtain u where
      u: "frame_end c fd0 ?e t = Some (if ?e then 10 else 48, u)" "ok u" "screen u = screen t" "args u = args t"
      "fds u = (if ?e then (fds t)(fd0 := None) else fds t)" by blast
    from frame_end_closes [OF u(2) fd(3,4), of ?f] obtain v where
      v: "frame_end c fd1 ?f u = Some (if ?f then 10 else 48, v)" "ok v" "screen v = screen u" "args v = args u"
      "fds v = (if ?f then (fds u)(fd1 := None) else fds u)" by blast
    have rows: "at_row (fds v) fd0 F0 ?p ?e" "at_row (fds v) fd1 F1 ?q ?f"
      using fd less.prems(2-4) by (auto simp: at_row_def v(5) u(5) t(7) end_eof_def)
    have other: "(fds v)(fd0 := None, fd1 := None) = (fds s)(fd0 := None, fd1 := None)"
      by (auto simp: fun_eq_iff v(5) u(5) t(7))
    have dec: "length (lines_left F0 ?p ?e) + length (lines_left F1 ?q ?f) < length ?L + length ?M"
      unfolding l(2) m(2) using ne by (cases ?L; cases ?M) auto
    from less.hyps [OF dec v(2) less.prems(2) rows t(8,5,6) page(2)] obtain w D where
      w: "frame_rows c sp fd0 fd1 (int (Suc r)) (if ?e then 10 else 48) (if ?f then 10 else 48) ?e ?f blk' v C = Some (w, D)"
      "ok w" "screen w = screen v" "args w = args v" "fds w = (fds v)(fd0 := None, fd1 := None)"
      "blinks D (draws (picture_cells (lines_left F0 ?p ?e) (lines_left F1 ?q ?f) (Suc r)) (draws (row_cells (rest_line F0 p0 ?c) (rest_line F1 p1 ?d) r 0) A))"
      by blast
    have r1: "int (Suc r) = int r + 1" by simp
    have t1: "frame_row c sp fd0 fd1 (int r) 0 ?c ?d e0 e1 blk s B = Some (?e, ?f, blk', t, C)" using t(1) by (simp only: semiring_1_class.of_nat_0)
    have nf: "\<not> e0 \<or> \<not> e1" using False by blast
    have "frame_rows c sp fd0 fd1 (int r) ?c ?d e0 e1 blk s B = Some (w, D)"
      using w(1) unfolding r1
      by (subst frame_rows.simps) (simp only: if_P [OF nf] t1 u(1) v(1) Option.bind.bind_lunit prod.case)
    then show ?thesis unfolding cells draws_append using w v u t other by simp
  qed
qed

end

section \<open>The whole program\<close>

context checked_system
begin

lemma add_frames_draws:
  assumes "ok s" and "0 \<in> set n0" "0 \<in> set n1" and "lookup (cstr n0) = Some (File F0 0)" "lookup (cstr n1) = Some (File F1 0)"
    and "2 \<le> d" "d < 8" "2 \<le> d'" "d' < 8" "d \<noteq> d'" "fds s d = None" "fds s d' = None"
    and "blinks B A" and "on_page (picture_cells (frame_lines F0) (frame_lines F1) 0)"
  shows "\<exists>t C. add_frames c sp blk n0 n1 s B = Some (None, t, C) \<and> ok t \<and> screen t = screen s \<and> args t = args s \<and> fds t = fds s
    \<and> blinks C (draws (picture_cells (frame_lines F0) (frame_lines F1) 0) A)"
proof -
  from open_found [OF assms(1,2,4,6,7,11)] obtain fd0 u where
    u: "ece391_open c n0 s = Some (fd0, u)" "2 \<le> fd0" "fd0 < 8" "fds s fd0 = None" "ok u" "fds u = (fds s)(fd0 \<mapsto> File F0 0)"
    "args u = args s" "screen u = screen s" by blast
  have "\<exists>e. 2 \<le> e \<and> e < 8 \<and> fds u e = None"
  proof (cases "fd0 = d")
    case True
    then show ?thesis using assms(8-12) u(6) by (intro exI [of _ d']) auto
  next
    case False
    then show ?thesis using assms(6,7,11) u(6) by (intro exI [of _ d]) auto
  qed
  then obtain e where e: "2 \<le> e" "e < 8" "fds u e = None" by blast
  from open_found [OF u(5) assms(3,5) e] obtain fd1 v where
    v: "ece391_open c n1 u = Some (fd1, v)" "2 \<le> fd1" "fd1 < 8" "fds u fd1 = None" "ok v" "fds v = (fds u)(fd1 \<mapsto> File F1 0)"
    "args v = args u" "screen v = screen u" by blast
  have ne: "fd0 \<noteq> fd1" using v(4) u(6) by auto
  have rows: "at_row (fds v) fd0 F0 0 False" "at_row (fds v) fd1 F1 0 False" using u v ne by (simp_all add: at_row_def)
  let ?b = "blk\<lparr>on_length := 15, off_length := 15\<rparr>"
  have bl: "on_length ?b = 15" "off_length ?b = 15" by simp_all
  have pg: "on_page (picture_cells (lines_left F0 0 False) (lines_left F1 0 False) 0)" using assms(14) by (simp add: lines_left_def)
  from frame_rows_draws [OF v(5) ne rows assms(13) bl pg, of sp] obtain t C where
    t: "frame_rows c sp fd0 fd1 0 48 48 False False ?b v B = Some (t, C)" "ok t" "screen t = screen v" "args t = args v"
    "fds t = (fds v)(fd0 := None, fd1 := None)" "blinks C (draws (picture_cells (frame_lines F0) (frame_lines F1) 0) A)"
    by (auto simp: lines_left_def)
  have "fds s fd1 = None" using v(4) u(6) ne by simp
  then have "fds t = fds s" using t(5) v(6) u(4,6) by (auto simp: fun_eq_iff)
  with t u v show ?thesis by (simp add: add_frames_def Let_def)
qed

end

lemma spec_ops_append: "spec_ops spec (xs @ ys) a = (let (rs, b) = spec_ops spec xs a; (rs', b') = spec_ops spec ys b in (rs @ rs', b'))"
  by (induction xs arbitrary: a) (simp_all add: case_prod_beta Let_def)

definition after :: "blink_op list \<Rightarrow> animation \<Rightarrow> animation" where
  "after xs A = snd (spec_ops spec_op xs A)"

lemma after_append [simp]: "after (xs @ ys) A = after ys (after xs A)" "after [] A = A" "after (x # xs) A = after xs (snd (spec_op x A))"
  by (simp_all add: after_def spec_ops_append case_prod_beta Let_def)

text \<open>What \<open>main\<close> does to the picture once it is drawn; \<open>demo_blink\<close> is the character it adds.\<close>

definition fish_script :: "blink_op list" where
  "fish_script = replicate 100 Op_tick @ [Op_add demo_blink] @ replicate 100 Op_tick @ [Op_sync 40 540] @ replicate 100 Op_tick
     @ [Op_remove 540] @ replicate 100 Op_tick"

lemma blink_op_refines:
  assumes "blinks B A"
  shows "fresh b = fresh demo_blink \<Longrightarrow> \<exists>r um C. mp1_ioctl sp 0 [sp \<mapsto> b] B = Some (r, um, C) \<and> blinks C (snd (spec_op (Op_add demo_blink) A))"
    and "\<exists>r um' C. mp1_ioctl (push_bit 16 40 OR 540) 3 um B = Some (r, um', C) \<and> blinks C (snd (spec_op (Op_sync 40 540) A))"
    and "\<exists>r um' C. mp1_ioctl 540 1 um B = Some (r, um', C) \<and> blinks C (snd (spec_op (Op_remove 540) A))"
proof -
  show "\<exists>r um C. mp1_ioctl sp 0 [sp \<mapsto> b] B = Some (r, um, C) \<and> blinks C (snd (spec_op (Op_add demo_blink) A))" if f: "fresh b = fresh demo_blink"
  proof -
    have "location (fresh b) = 540" unfolding f by (simp add: fresh_def demo_blink_def)
    then have "location b \<noteq> 0" by (auto simp: fresh_def)
    from add_refines [OF assms this] show ?thesis unfolding spec_add_fresh [OF f] by (auto simp: mp1_ioctl_def)
  qed
  show "\<exists>r um' C. mp1_ioctl (push_bit 16 40 OR 540) 3 um B = Some (r, um', C) \<and> blinks C (snd (spec_op (Op_sync 40 540) A))"
    using sync_refines [OF assms, of "push_bit 16 40 OR 540" 40 540] by (auto simp: mp1_ioctl_def)
  show "\<exists>r um' C. mp1_ioctl 540 1 um B = Some (r, um', C) \<and> blinks C (snd (spec_op (Op_remove 540) A))"
    using remove_refines [OF assms, of 540] by (auto simp: mp1_ioctl_def)
qed

context clock_system
begin

lemma wait_loop_ticks:
  assumes "ok (i + n) s" and "fds s fd = Some Clock" and "blinks B A"
  shows "\<exists>t C. wait_loop i c fd g s B = Some (g, t, C) \<and> ok n t \<and> fds t = fds s \<and> blinks C (after (replicate i Op_tick) A)"
  using assms
proof (induction i arbitrary: s B A)
  case (Suc i)
  have "ok (Suc (i + n)) s" using Suc.prems(1) by simp
  from read_clock [OF this Suc.prems(2), of 4 g] obtain u where
    u: "ece391_read c fd g 4 s = Some (0, g, u)" "ok (i + n) u" "fds u = fds s" by auto
  from tick_refines [OF Suc.prems(3)] obtain D where D: "mp1_rtc_tasklet B = Some D" "blinks D (snd (spec_op Op_tick A))" by blast
  from Suc.IH [OF u(2) _ D(2)] u(3) Suc.prems(2) u(1) D(1) show ?case by auto
qed auto

lemma fish_run_plays:
  assumes "ok (400 + n) s" and "fds s fd = Some Clock" and "blinks B A"
  shows "\<exists>t C. fish_run c sp blk g fd s B = Some (0, t, C) \<and> ok n t \<and> fds t = (fds s)(fd := None) \<and> blinks C (after fish_script A)"
proof -
  let ?w = "after (replicate 100 Op_tick)"
  from write_clock [OF assms(1,2), of 4 "[32, 0, 0, 0]"] obtain s1 where
    1: "ece391_write c fd [32, 0, 0, 0] 4 s = Some (0, s1)" "ok (100 + (300 + n)) s1" "fds s1 = fds s" by auto
  from wait_loop_ticks [OF 1(2) _ assms(3), of fd g] 1(3) assms(2) obtain s2 B2 where
    2: "wait_loop WAIT c fd g s1 B = Some (g, s2, B2)" "ok (100 + (200 + n)) s2" "fds s2 = fds s" "blinks B2 (?w A)" by (auto simp: WAIT_def)
  let ?b = "blk\<lparr>on_char := of_char CHR ''I'', off_char := of_char CHR ''M'', on_length := 7, off_length := 6, location := 6 * 80 + 60\<rparr>"
  have "fresh ?b = fresh demo_blink" by (simp add: fresh_def bare_def demo_blink_def null_blink_def)
  from blink_op_refines(1) [OF 2(4) this, of sp] obtain r3 m3 B3 where
    3: "mp1_ioctl sp 0 [sp \<mapsto> ?b] B2 = Some (r3, m3, B3)" "blinks B3 (snd (spec_op (Op_add demo_blink) (?w A)))" by blast
  from wait_loop_ticks [OF 2(2) _ 3(2), of fd g] 2(3) assms(2) obtain s4 B4 where
    4: "wait_loop WAIT c fd g s2 B3 = Some (g, s4, B4)" "ok (100 + (100 + n)) s4" "fds s4 = fds s"
    "blinks B4 (?w (snd (spec_op (Op_add demo_blink) (?w A))))" by (auto simp: WAIT_def)
  from blink_op_refines(2) [OF 4(4), of "[sp \<mapsto> ?b]"] obtain r5 m5 B5 where
    5: "mp1_ioctl (push_bit 16 40 OR 540) 3 [sp \<mapsto> ?b] B4 = Some (r5, m5, B5)"
    "blinks B5 (snd (spec_op (Op_sync 40 540) (?w (snd (spec_op (Op_add demo_blink) (?w A))))))" by blast
  from wait_loop_ticks [OF 4(2) _ 5(2), of fd g] 4(3) assms(2) obtain s6 B6 where
    6: "wait_loop WAIT c fd g s4 B5 = Some (g, s6, B6)" "ok (100 + n) s6" "fds s6 = fds s"
    "blinks B6 (?w (snd (spec_op (Op_sync 40 540) (?w (snd (spec_op (Op_add demo_blink) (?w A)))))))" by (auto simp: WAIT_def)
  from blink_op_refines(3) [OF 6(4), of "[sp \<mapsto> ?b]"] obtain r7 m7 B7 where
    7: "mp1_ioctl 540 1 [sp \<mapsto> ?b] B6 = Some (r7, m7, B7)"
    "blinks B7 (snd (spec_op (Op_remove 540) (?w (snd (spec_op (Op_sync 40 540) (?w (snd (spec_op (Op_add demo_blink) (?w A)))))))))" by blast
  from wait_loop_ticks [OF 6(2) _ 7(2), of fd g] 6(3) assms(2) obtain s8 B8 where
    8: "wait_loop WAIT c fd g s6 B7 = Some (g, s8, B8)" "ok n s8" "fds s8 = fds s" "blinks B8 (after fish_script A)"
    by (auto simp: WAIT_def fish_script_def)
  from checked.close_fd [OF 8(2), of fd Clock] 8(3) assms(2) obtain t where
    t: "ece391_close c fd s8 = Some (0, t)" "ok n t" "fds t = (fds s)(fd := None)" by auto
  have loc: "6 * 80 + 60 = (540 :: u16)" "6 * 80 + 60 = (540 :: u32)" by simp_all
  show ?thesis
    using 1(1) 2(1) 3(1) 4(1) 5(1) 6(1) 7(1) 8 t unfolding fish_run_def Let_def loc by simp
qed

lemma fish_main_plays:
  assumes "ok (400 + n) s" and "ece391_vidmap c va s = Some (x, s)" "x \<noteq> -1" "base \<noteq> 0" and "lookup (bytes ''rtc'') = Some Clock"
    and "lookup (bytes ''frame0.txt'') = Some (File F0 0)" "lookup (bytes ''frame1.txt'') = Some (File F1 0)"
    and "\<And>d. 2 \<le> d \<Longrightarrow> d < 8 \<Longrightarrow> fds s d = None" and "on_page (picture_cells (frame_lines F0) (frame_lines F1) 0)"
    and "2 * CELLS \<le> length (vmem B)" and "mp1_list_head B = None"
  shows "\<exists>t C. fish_main c va base sp blk blk' g s B = Some (0, t, C) \<and> ok n t
    \<and> blinks C (after fish_script (draws (picture_cells (frame_lines F0) (frame_lines F1) 0) ([], vmem B)))"
proof -
  have cs: "cstr (lit ''rtc'') = bytes ''rtc''" "cstr file0 = bytes ''frame0.txt''" "cstr file1 = bytes ''frame1.txt''"
    by (simp_all add: bytes_def file0_def file1_def)
  have z: "0 \<in> set file0" "0 \<in> set file1" by (simp_all add: file0_def file1_def)
  from checked.open_found [OF assms(1), of "lit ''rtc''" Clock 2] cs(1) assms(5,8) obtain fd u where
    u: "ece391_open c (lit ''rtc'') s = Some (fd, u)" "ok (400 + n) u" "fds u = (fds s)(fd \<mapsto> Clock)" by auto
  have "\<exists>d d'. 2 \<le> d \<and> d < 8 \<and> 2 \<le> d' \<and> d' < 8 \<and> d \<noteq> d' \<and> d \<noteq> fd \<and> d' \<noteq> fd"
    by (intro exI [of _ "if fd = 2 then 3 else 2"] exI [of _ "if fd = 3 \<or> fd = 2 then 4 else 3"]) simp
  then obtain d d' where d: "2 \<le> d" "d < 8" "2 \<le> d'" "d' < 8" "d \<noteq> d'" "d \<noteq> fd" "d' \<noteq> fd" by blast
  let ?B = "B\<lparr>blink_array := replicate CELLS null_blink\<rparr>"
  have B: "blinks ?B ([], vmem B)" using blinks_empty [OF assms(10)] assms(11) by (cases B) (simp add: empty_pool_def)
  have "fds u d = None" "fds u d' = None" using u(3) d assms(8) by simp_all
  from checked.add_frames_draws [OF u(2) z _ _ d(1-5) this B assms(9), of sp blk'] cs(2,3) assms(6,7) obtain v C where
    v: "add_frames c sp blk' file0 file1 u ?B = Some (None, v, C)" "ok (400 + n) v" "fds v = fds u"
    "blinks C (draws (picture_cells (frame_lines F0) (frame_lines F1) 0) ([], vmem B))" by auto
  have "fds v fd = Some Clock" using v(3) u(3) by simp
  from fish_run_plays [OF v(2) this v(4), of sp blk g] obtain t D where
    "fish_run c sp blk g fd v C = Some (0, t, D)" "ok n t"
    "blinks D (after fish_script (draws (picture_cells (frame_lines F0) (frame_lines F1) 0) ([], vmem B)))" by blast
  then show ?thesis using assms(2-4) u(1) v(1) by (simp add: fish_main_def mp1_set_video_mode_def Let_def)
qed

end

section \<open>On the kernel\<close>


lemma poem_cells: "picture_cells (frame_lines poem) (frame_lines poem) 0 =
  [(0, 0, 102, 102), (0, 1, 105, 105), (0, 2, 115, 115), (0, 3, 104, 104), (1, 0, 115, 115), (1, 1, 101, 101), (1, 2, 97, 97)]"
  by (simp add: poem_def bytes_def)


text \<open>
  The calls of the kernel but for a \<open>vidmap\<close> that leaves the program mapped: a valid call returns the address and the program goes on. What the kernel's own
  call does is the subject of \<open>vidmap_replaces_program\<close>; after it no code of the program can be fetched.
\<close>

definition mapped_calls :: "environment \<Rightarrow> (irq list \<times> kernel) syscalls" where
  "mapped_calls E = (kernel_calls E)\<lparr>ece391_vidmap :=
     \<lambda>a st. if a < 0x8000000 then ece391_vidmap (kernel_calls E) a st else Some (0x8400000, st)\<rparr>"

lemma checked_system_vidmap:
  assumes "checked_system c ok screen put fds args lookup names closed" and "\<And>a. a < 0x8000000 \<Longrightarrow> v a = ece391_vidmap c a"
  shows "checked_system (c\<lparr>ece391_vidmap := v\<rparr>) ok screen put fds args lookup names closed"
  using assms(1) unfolding checked_system_def checked_system_axioms_def user_system_def by (simp add: assms(2))

lemma clock_system_vidmap:
  assumes "clock_system c ok screen put fds args lookup names closed ticked rate" and "\<And>a. a < 0x8000000 \<Longrightarrow> v a = ece391_vidmap c a"
  shows "clock_system (c\<lparr>ece391_vidmap := v\<rparr>) ok screen put fds args lookup names closed ticked rate"
proof -
  have "checked_system (c\<lparr>ece391_vidmap := v\<rparr>) (ok n) screen put fds args lookup names closed" for n
    using assms(1) unfolding clock_system_def by (intro checked_system_vidmap [OF _ assms(2)]) blast+
  then show ?thesis using assms(1) unfolding clock_system_def by simp
qed

interpretation mapped_clock: clock_system "mapped_calls E" "\<lambda>n. process_ok E f p K (Ticks n)" console_of putc "process_fds f p" "process_args p"
  "image_lookup f" "image_names f" "closed_fds p" console_ticked "console_rate (env_dev E)"
  unfolding mapped_calls_def by (rule clock_system_vidmap [OF kernel_clock.clock_system_axioms]) (simp add: fun_eq_iff)



end
