(* ===== verification/Host_Emulation.thy ===== *)
theory Host_Emulation
  imports User_Support Processes
begin

text \<open>
  The host emulation \<^verbatim>\<open>src/syscalls/ece391emulate.c\<close> (\<^verbatim>\<open>src/fish\<close> has the same file): the system calls of the programs on top of a Linux host, for running them
  outside the kernel. A command line becomes an argument vector, \<open>ece391_getargs\<close> joins the vector to one string again, and the directory is read entry by entry.

  The host is the record \<open>host\<close> of what the code calls: it is a parameter. Strings in memory are
  byte objects and an access outside an object is \<^const>\<open>None\<close>; a pointer into the local buffer of \<open>ece391_execute\<close> is an index.
\<close>

section \<open>The host\<close>

datatype wait_status = Exited nat | Signalled nat

text \<open>
  \<open>h_run\<close> is the child that \<open>fork\<close> makes, which executes the file with an argument vector or kills itself with signal 9, and
  the \<open>wait\<close> for it. \<open>h_sys_open\<close>, \<open>h_sys_read\<close>, \<open>h_sys_write\<close> and \<open>h_sys_close\<close> are the raw calls of the host.
  \<open>h_mmap\<close> maps the first megabyte of the memory device, with \<^const>\<open>None\<close> for \<open>MAP_FAILED\<close>.
\<close>

record ('d, 'h) host =
  h_run :: "u8 list \<Rightarrow> u8 list list \<Rightarrow> 'h \<Rightarrow> wait_status \<times> 'h"
  h_opendir :: "'h \<Rightarrow> 'd option \<times> 'h"
  h_open_null :: "'h \<Rightarrow> int \<times> 'h"
  h_readdir :: "'d \<Rightarrow> 'h \<Rightarrow> u8 list option \<times> 'h"
  h_closedir :: "'d \<Rightarrow> 'h \<Rightarrow> 'h"
  h_close :: "int \<Rightarrow> 'h \<Rightarrow> 'h"
  h_sys_open :: "u8 list \<Rightarrow> 'h \<Rightarrow> u32 \<times> 'h"
  h_sys_read :: "int \<Rightarrow> u8 list \<Rightarrow> int \<Rightarrow> 'h \<Rightarrow> u32 \<times> u8 list \<times> 'h"
  h_sys_write :: "int \<Rightarrow> u8 list \<Rightarrow> int \<Rightarrow> 'h \<Rightarrow> u32 \<times> 'h"
  h_sys_close :: "int \<Rightarrow> 'h \<Rightarrow> u32 \<times> 'h"
  h_open_mem :: "'h \<Rightarrow> int \<times> 'h"
  h_mmap :: "int \<Rightarrow> 'h \<Rightarrow> u32 option \<times> 'h"
  h_perror :: "u8 list \<Rightarrow> 'h \<Rightarrow> 'h"

record ('d, 'h) emu =
  emu_dir :: "'d option"
  emu_dir_fd :: int
  emu_mem_fd :: int
  emu_host :: 'h

text \<open>The error range of the host's calls, in \<open>DO_CALL\<close> and in \<open>ece391_open\<close>.\<close>

definition do_call :: "u32 \<Rightarrow> int" where
  "do_call r = (if r \<le> 0xFFFFC000 then sint r else -1)"

section \<open>Command lines\<close>

text \<open>\<open>ece391_strcpy\<close> between two objects, from an index in each.\<close>

function strcpy_at :: "u8 list \<Rightarrow> nat \<Rightarrow> u8 list \<Rightarrow> nat \<Rightarrow> u8 list option" where
  "strcpy_at dst i src j =
     (if i < length dst \<and> j < length src then
        if src ! j \<noteq> 0 then strcpy_at (dst[i := src ! j]) (Suc i) src (Suc j) else Some (dst[i := src ! j])
      else None)"
  by pat_completeness auto
termination
  by (relation "measure (\<lambda>(dst, i, src, j). length src - j)") auto

text \<open>The scanning loops: to the end of a word, over spaces.\<close>

function scan_word :: "u8 list \<Rightarrow> nat \<Rightarrow> nat option" where
  "scan_word buf scan =
     (if scan < length buf then
        if buf ! scan \<noteq> 0 \<and> buf ! scan \<noteq> 32 \<and> buf ! scan \<noteq> 10 then scan_word buf (Suc scan) else Some scan
      else None)"
  by pat_completeness auto
termination
  by (relation "measure (\<lambda>(buf, scan). length buf - scan)") auto

function skip_spaces :: "u8 list \<Rightarrow> nat \<Rightarrow> nat option" where
  "skip_spaces buf scan =
     (if scan < length buf then if buf ! scan = 32 then skip_spaces buf (Suc scan) else Some scan else None)"
  by pat_completeness auto
termination
  by (relation "measure (\<lambda>(buf, scan). length buf - scan)") auto

lemmas emu_loop_simps [simp del] = strcpy_at.simps scan_word.simps skip_spaces.simps

text \<open>The argument loop; \<open>args\<close> holds the pointers so far and has room for 1024.\<close>

partial_function (option) parse_args :: "u8 list \<Rightarrow> nat \<Rightarrow> nat list \<Rightarrow> (u8 list \<times> nat list) option" where
  "parse_args buf scan args =
     do {
       scan \<leftarrow> skip_spaces buf scan;
       c \<leftarrow> rd buf scan;
       if c = 0 \<or> c = 10 then do { buf \<leftarrow> wr buf scan 0; Some (buf, args) }
       else if 1024 \<le> length args then None
       else
         do {
           let args = args @ [scan];
           scan \<leftarrow> scan_word buf scan;
           c \<leftarrow> rd buf scan;
           if c \<noteq> 0 then do { buf \<leftarrow> wr buf scan 0; parse_args buf (Suc scan) args }
           else parse_args buf scan args
         }
     }"

definition string_at :: "u8 list \<Rightarrow> nat \<Rightarrow> u8 list" where
  "string_at buf i = cstr (drop i buf)"

definition exit_code :: "wait_status \<Rightarrow> int" where
  "exit_code st = (case st of Exited n \<Rightarrow> int n | Signalled k \<Rightarrow> if k = 9 then -1 else 256)"

definition emu_execute :: "('d, 'h) host \<Rightarrow> u8 list \<Rightarrow> u8 list \<Rightarrow> 'h \<Rightarrow> (int \<times> 'h) option" where
  "emu_execute H buf command s =
     do {
       n \<leftarrow> ece391_strlen command;
       if 1023 < n then Some (-1, s)
       else
         do {
           buf \<leftarrow> wr buf 0 (of_char CHR ''.'');
           buf \<leftarrow> wr buf 1 (of_char CHR ''/'');
           buf \<leftarrow> strcpy_at buf 2 command 0;
           scan \<leftarrow> scan_word buf 2;
           c \<leftarrow> rd buf scan;
           (buf, args) \<leftarrow> (if c \<noteq> 0 then do { buf \<leftarrow> wr buf scan 0; parse_args buf (Suc scan) [0] } else Some (buf, [0]));
           if 1024 \<le> length args then None
           else
             do {
               let (st, s) = h_run H (string_at buf 0) (map (string_at buf) args) s;
               Some (exit_code st, s)
             }
         }
     }"

section \<open>Arguments\<close>

text \<open>The loop of \<open>ece391_getargs\<close> over the rest of the argument vector; \<open>pos\<close> is where \<open>buf\<close> points.\<close>

fun getargs_loop :: "u8 list list \<Rightarrow> u8 list \<Rightarrow> nat \<Rightarrow> int \<Rightarrow> (int \<times> u8 list) option" where
  "getargs_loop [] buf pos nbytes =
     (if nbytes < 1 then Some (-1, buf) else do { buf \<leftarrow> wr buf pos 0; Some (0, buf) })"
| "getargs_loop (w # ws) buf pos nbytes =
     do {
       len \<leftarrow> ece391_strlen w;
       if int len > nbytes then Some (-1, buf)
       else
         do {
           buf \<leftarrow> strcpy_at buf pos w 0;
           let pos = pos + len;
           let nbytes = nbytes - int len;
           if ws = [] then getargs_loop [] buf pos nbytes
           else if nbytes < 1 then Some (-1, buf)
           else do { buf \<leftarrow> wr buf pos 32; getargs_loop ws buf (Suc pos) (nbytes - 1) }
         }
     }"

definition emu_getargs :: "u8 list list \<Rightarrow> u8 list \<Rightarrow> int \<Rightarrow> (int \<times> u8 list) option" where
  "emu_getargs argv buf nbytes = getargs_loop (tl argv) buf 0 nbytes"

section \<open>Files and the directory\<close>

definition emu_open :: "('d, 'h) host \<Rightarrow> u8 list \<Rightarrow> ('d, 'h) emu \<Rightarrow> (int \<times> ('d, 'h) emu) option" where
  "emu_open H fname s =
     do {
       r \<leftarrow> ece391_strcmp fname (bytes ''.'' @ [0]);
       Some (if r = 0 then
               let (d, h) = h_opendir H (emu_host s);
                   (fd, h) = h_open_null H h
               in (fd, s\<lparr>emu_dir := d, emu_dir_fd := fd, emu_host := h\<rparr>)
             else
               let (rval, h) = h_sys_open H fname (emu_host s)
               in (do_call rval, s\<lparr>emu_host := h\<rparr>))
     }"

function pad_name :: "u8 list \<Rightarrow> nat \<Rightarrow> int \<Rightarrow> (int \<times> u8 list) option" where
  "pad_name to copied nbytes =
     (if nbytes > int copied \<and> 32 > copied then do { to \<leftarrow> wr to copied 0; pad_name to (Suc copied) nbytes }
      else Some (int copied, to))"
  by pat_completeness auto
termination
  by (relation "measure (\<lambda>(to, copied, nbytes). 32 - copied)") auto

function copy_name :: "u8 list \<Rightarrow> u8 list \<Rightarrow> nat \<Rightarrow> int \<Rightarrow> (int \<times> u8 list) option" where
  "copy_name from to copied nbytes =
     (if copied < length from then
        if from ! copied \<noteq> 0 then
          do {
            to \<leftarrow> wr to copied (from ! copied);
            if int (Suc copied) = nbytes then Some (nbytes, to)
            else if Suc copied = 32 then Some (32, to)
            else copy_name from to (Suc copied) nbytes
          }
        else pad_name to copied nbytes
      else None)"
  by pat_completeness auto
termination
  by (relation "measure (\<lambda>(from, to, copied, nbytes). length from - copied)") auto

declare pad_name.simps [simp del] copy_name.simps [simp del]

definition emu_read :: "('d, 'h) host \<Rightarrow> int \<Rightarrow> u8 list \<Rightarrow> int \<Rightarrow> ('d, 'h) emu \<Rightarrow> (int \<times> u8 list \<times> ('d, 'h) emu) option" where
  "emu_read H fd buf nbytes s =
     (case emu_dir s of
        Some d \<Rightarrow>
          if emu_dir_fd s \<noteq> fd then
            let (r, buf, h) = h_sys_read H fd buf nbytes (emu_host s) in Some (do_call r, buf, s\<lparr>emu_host := h\<rparr>)
          else
            (case h_readdir H d (emu_host s) of
               (None, h) \<Rightarrow> Some (0, buf, s\<lparr>emu_host := h\<rparr>)
             | (Some name, h) \<Rightarrow>
                 do { (r, buf) \<leftarrow> copy_name name buf 0 nbytes; Some (r, buf, s\<lparr>emu_host := h\<rparr>) })
      | None \<Rightarrow> let (r, buf, h) = h_sys_read H fd buf nbytes (emu_host s) in Some (do_call r, buf, s\<lparr>emu_host := h\<rparr>))"

definition emu_write :: "('d, 'h) host \<Rightarrow> int \<Rightarrow> u8 list \<Rightarrow> int \<Rightarrow> ('d, 'h) emu \<Rightarrow> int \<times> ('d, 'h) emu" where
  "emu_write H fd buf nbytes s =
     (if emu_dir s = None \<or> emu_dir_fd s \<noteq> fd then
        let (r, h) = h_sys_write H fd buf nbytes (emu_host s) in (do_call r, s\<lparr>emu_host := h\<rparr>)
      else (-1, s))"

definition emu_close :: "('d, 'h) host \<Rightarrow> int \<Rightarrow> ('d, 'h) emu \<Rightarrow> int \<times> ('d, 'h) emu" where
  "emu_close H fd s =
     (case emu_dir s of
        Some d \<Rightarrow>
          if emu_dir_fd s \<noteq> fd then let (r, h) = h_sys_close H fd (emu_host s) in (do_call r, s\<lparr>emu_host := h\<rparr>)
          else
            let h = h_closedir H d (emu_host s);
                h = h_close H (emu_dir_fd s) h
            in (0, s\<lparr>emu_dir := None, emu_dir_fd := -1, emu_host := h\<rparr>)
      | None \<Rightarrow> let (r, h) = h_sys_close H fd (emu_host s) in (do_call r, s\<lparr>emu_host := h\<rparr>))"

text \<open>The static descriptor of the memory device is opened once; \<open>screen\<close> is the caller's pointer.\<close>

definition emu_vidmap :: "('d, 'h) host \<Rightarrow> u32 \<Rightarrow> ('d, 'h) emu \<Rightarrow> int \<times> u32 \<times> ('d, 'h) emu" where
  "emu_vidmap H screen s =
     (let (fd, h) = (if emu_mem_fd s = -1 then h_open_mem H (emu_host s) else (emu_mem_fd s, emu_host s))
      in case h_mmap H fd h of
           (None, h) \<Rightarrow> (-1, screen, s\<lparr>emu_mem_fd := fd, emu_host := h_perror H (bytes ''mmap low memory'') h\<rparr>)
         | (Some mem_image, h) \<Rightarrow> (0, mem_image + 0xb8000, s\<lparr>emu_mem_fd := fd, emu_host := h\<rparr>))"

section \<open>Copying strings\<close>

lemma strcpy_at_step:
  assumes "src ! j = x" and "x \<noteq> 0" and "i < length dst" "j < length src"
  shows "strcpy_at dst i src j = strcpy_at (dst[i := x]) (Suc i) src (Suc j)"
  using assms by (subst strcpy_at.simps) simp

lemma strcpy_at_eq:
  assumes "drop j src = w @ 0 # r" and "0 \<notin> set w" and "i \<le> length dst"
  shows "strcpy_at dst i src j =
    (if i + length w < length dst then Some (take i dst @ w @ 0 # drop (Suc (i + length w)) dst) else None)"
  using assms
proof (induction w arbitrary: j i dst)
  case Nil
  then have d: "drop j src = 0 # r" by simp
  then have j: "j < length src" by (metis drop_eq_Nil leI list.distinct(1))
  then have "src ! j = 0" using d by (simp add: Cons_nth_drop_Suc [symmetric])
  then show ?case using Nil(3) j by (subst strcpy_at.simps) (simp add: upd_conv_take_nth_drop)
next
  case (Cons x w)
  have j: "j < length src" using Cons.prems(1) by (metis append_Cons drop_eq_Nil leI list.distinct(1))
  then have x: "src ! j = x" "drop (Suc j) src = w @ 0 # r"
    using Cons.prems(1) by (simp_all add: Cons_nth_drop_Suc [symmetric])
  show ?case
  proof (cases "i < length dst")
    case True
    have "strcpy_at dst i src j = strcpy_at (dst[i := x]) (Suc i) src (Suc j)"
      using strcpy_at_step [OF x(1) _ True j] Cons.prems(2) by simp
    also have "\<dots> = (if Suc i + length w < length dst then Some (take (Suc i) (dst[i := x]) @ w @ 0 # drop (Suc (Suc i + length w)) dst) else None)"
      using Cons.IH [OF x(2), of "Suc i" "dst[i := x]"] Cons.prems(2) True by simp
    also have "take (Suc i) (dst[i := x]) = take i dst @ [x]" using True by (simp add: take_Suc_conv_app_nth)
    finally show ?thesis by simp
  next
    case False
    then show ?thesis using Cons.prems(3) by (subst strcpy_at.simps) simp
  qed
qed

section \<open>Parsing a command line\<close>

definition delim :: "u8 \<Rightarrow> bool" where "delim x \<longleftrightarrow> x = 32 \<or> x = 10"

text \<open>The words of the rest of a command line. A newline ends a word like a space; where a word would begin, it ends the line.\<close>

function line_words :: "u8 list \<Rightarrow> u8 list list" where
  "line_words cs =
     (let r = dropWhile (\<lambda>x. x = 32) cs
      in if r = [] \<or> hd r = 10 then []
         else takeWhile (\<lambda>x. \<not> delim x) r # line_words (drop (Suc (length (takeWhile (\<lambda>x. \<not> delim x) r))) r))"
  by pat_completeness auto
termination
proof (relation "measure length")
  fix cs r :: "u8 list"
  assume r: "r = dropWhile (\<lambda>x. x = 32) cs" "\<not> (r = [] \<or> hd r = 10)"
  then have "length r \<le> length cs" "0 < length r" by (simp_all add: length_dropWhile_le)
  then show "(drop (Suc (length (takeWhile (\<lambda>x. \<not> delim x) r))) r, cs) \<in> measure length"
    by (simp add: in_measure length_drop del: length_greater_0_conv)
qed simp

declare line_words.simps [simp del]

lemma scan_word_eq:
  assumes "0 \<notin> set cs" and "\<forall>x\<in>set w. \<not> delim x" and "cs = w @ r" and "r = [] \<or> delim (hd r)"
  shows "scan_word (P @ cs @ 0 # R) (length P) = Some (length P + length w)"
  using assms
proof (induction w arbitrary: P cs)
  case Nil
  then show ?case by (subst scan_word.simps) (cases r, auto simp: nth_append delim_def)
next
  case (Cons x w)
  have "scan_word (P @ cs @ 0 # R) (length P) = scan_word ((P @ [x]) @ (w @ r) @ 0 # R) (length (P @ [x]))"
    using Cons.prems by (subst scan_word.simps) (auto simp: nth_append delim_def)
  also have "\<dots> = Some (length (P @ [x]) + length w)" using Cons.prems by (intro Cons.IH) auto
  finally show ?case by simp
qed

lemma skip_spaces_eq:
  assumes "cs = sp @ r" and "\<forall>x\<in>set sp. x = 32" and "r = [] \<or> hd r \<noteq> 32"
  shows "skip_spaces (P @ cs @ 0 # R) (length P) = Some (length P + length sp)"
  using assms
proof (induction sp arbitrary: P cs)
  case Nil
  then show ?case by (subst skip_spaces.simps) (cases r, auto simp: nth_append)
next
  case (Cons x sp)
  have "skip_spaces (P @ cs @ 0 # R) (length P) = skip_spaces ((P @ [x]) @ (sp @ r) @ 0 # R) (length (P @ [x]))"
    using Cons.prems by (subst skip_spaces.simps) (auto simp: nth_append)
  also have "\<dots> = Some (length (P @ [x]) + length sp)" using Cons.prems by (intro Cons.IH) auto
  finally show ?case by simp
qed

lemma line_words_nil [simp]: "line_words [] = []"
  by (subst line_words.simps) simp

text \<open>A line that has been split at its first word.\<close>

lemma line_split:
  fixes cs :: "u8 list"
  defines "r \<equiv> dropWhile (\<lambda>x. x = 32) cs"
  defines "sp \<equiv> takeWhile (\<lambda>x. x = 32) cs" and "w \<equiv> takeWhile (\<lambda>x. \<not> delim x) r"
  shows "cs = sp @ r" "\<forall>x\<in>set sp. x = 32" "r = [] \<or> hd r \<noteq> 32" "r = w @ dropWhile (\<lambda>x. \<not> delim x) r" "\<forall>x\<in>set w. \<not> delim x"
    "dropWhile (\<lambda>x. \<not> delim x) r = [] \<or> delim (hd (dropWhile (\<lambda>x. \<not> delim x) r))"
proof -
  show "cs = sp @ r" "\<forall>x\<in>set sp. x = 32" by (simp_all add: sp_def r_def) (auto dest: set_takeWhileD)
  show "r = [] \<or> hd r \<noteq> 32" unfolding r_def using hd_dropWhile [of "\<lambda>x. x = 32" cs] by auto
  show "r = w @ dropWhile (\<lambda>x. \<not> delim x) r" "\<forall>x\<in>set w. \<not> delim x" by (simp_all add: w_def) (auto dest: set_takeWhileD)
  show "dropWhile (\<lambda>x. \<not> delim x) r = [] \<or> delim (hd (dropWhile (\<lambda>x. \<not> delim x) r))"
    using hd_dropWhile [of "\<lambda>x. \<not> delim x" r] by auto
qed

lemma string_at_word: "0 \<notin> set w \<Longrightarrow> string_at (P @ w @ 0 # S) (length P) = w"
  by (simp add: string_at_def)

lemma parse_args_eq:
  assumes "0 \<notin> set cs" and "length args + length (line_words cs) \<le> 1024"
  shows "\<exists>Q is. parse_args (P @ cs @ 0 # R) (length P) args = Some (P @ Q @ 0 # R, args @ is) \<and> length Q = length cs
    \<and> map (string_at (P @ Q @ 0 # R)) is = line_words cs"
  using assms
proof (induction cs arbitrary: P args rule: line_words.induct)
  case (1 cs)
  define r where "r = dropWhile (\<lambda>x. x = 32) cs"
  define sp where "sp = takeWhile (\<lambda>x. x = 32) cs"
  define w where "w = takeWhile (\<lambda>x. \<not> delim x) r"
  note s = line_split [of cs, folded r_def sp_def, folded w_def]
  have sk: "skip_spaces (P @ cs @ 0 # R) (length P) = Some (length (P @ sp))"
    using skip_spaces_eq [OF s(1-3), of P R] by simp
  have buf: "P @ cs @ 0 # R = (P @ sp) @ r @ 0 # R" by (subst s(1)) simp
  have nz: "0 \<notin> set r" "0 \<notin> set sp" using 1(2) s(1) by (metis Un_iff set_append)+
  show ?case
  proof (cases "r = [] \<or> hd r = 10")
    case True
    then have lw: "line_words cs = []" by (subst line_words.simps) (simp add: r_def)
    have c: "rd (P @ cs @ 0 # R) (length (P @ sp)) = Some (if r = [] then 0 else 10)"
      unfolding buf using True by (cases r) (auto simp: rd_def nth_append)
    have "parse_args (P @ cs @ 0 # R) (length P) args = Some ((P @ cs @ 0 # R)[length (P @ sp) := 0], args)"
      using c by (subst parse_args.simps) (auto simp: sk wr_def rd_def split: if_splits)
    moreover have "\<exists>Q. (P @ cs @ 0 # R)[length (P @ sp) := 0] = P @ Q @ 0 # R \<and> length Q = length cs"
      unfolding buf using s(1) by (cases r) (auto simp: list_update_append intro: exI [of _ sp] exI [of _ "sp @ 0 # tl r"])
    ultimately show ?thesis using lw by auto
  next
    case False
    then obtain x r' where x: "r = x # r'" "x \<noteq> 10" "x \<noteq> 32" using s(3) by (cases r) auto
    then have w: "w \<noteq> []" "0 \<notin> set w" using nz(1) by (auto simp: w_def delim_def dest: set_takeWhileD)
    define q where "q = dropWhile (\<lambda>x. \<not> delim x) r"
    note s' = s(4-6) [folded q_def]
    have lw: "line_words cs = w # line_words (drop (Suc (length w)) r)"
      using False by (subst line_words.simps) (simp add: r_def w_def Let_def)
    have dr: "drop (Suc (length w)) r = tl q" by (subst s'(1)) (simp add: drop_Suc)
    have c: "rd (P @ cs @ 0 # R) (length (P @ sp)) = Some x" unfolding buf x(1) by (simp add: rd_def)
    have sc: "scan_word (P @ cs @ 0 # R) (length (P @ sp)) = Some (length (P @ sp @ w))"
      unfolding buf using scan_word_eq [OF nz(1) s'(2,1,3), of "P @ sp" R] by simp
    have len: "length args < 1024" using 1(3) lw by simp
    let ?b = "(P @ sp @ w) @ q @ 0 # R" and ?n = "length (P @ sp @ w)" and ?a = "args @ [length (P @ sp)]"
    have b: "P @ cs @ 0 # R = ?b" unfolding buf by (subst s'(1)) simp
    have run: "parse_args (P @ cs @ 0 # R) (length P) args =
        (if q = [] then parse_args ?b ?n ?a else parse_args (?b[?n := 0]) (Suc ?n) ?a)"
    proof -
      have "rd (P @ cs @ 0 # R) ?n = Some (if q = [] then 0 else hd q)" unfolding b by (cases q) (auto simp: rd_def nth_append)
      moreover have "q \<noteq> [] \<Longrightarrow> hd q \<noteq> 0" using nz(1) s'(1) by (metis Un_iff hd_in_set set_append)
      ultimately show ?thesis
        using sk c sc len x nz(1) by (subst parse_args.simps) (auto simp: Let_def b wr_def rd_def split: if_splits)
    qed
    have IH: "\<exists>Q is. parse_args (P' @ tl q @ 0 # R) (length P') ?a = Some (P' @ Q @ 0 # R, ?a @ is) \<and> length Q = length (tl q)
        \<and> map (string_at (P' @ Q @ 0 # R)) is = line_words (tl q)" for P'
    proof -
      have "0 \<notin> set (tl q)" using nz(1) s'(1) by (metis Un_iff list.set_sel(2) set_append tl_Nil)
      then show ?thesis using 1(1) [OF r_def False, folded w_def, unfolded dr, of ?a P'] 1(3) lw by (simp add: dr)
    qed
    show ?thesis
    proof (cases q)
      case Nil
      from IH [of "P @ sp @ w"] Nil obtain Q js where
        Q: "parse_args ((P @ sp @ w) @ 0 # R) (length (P @ sp @ w)) ?a = Some ((P @ sp @ w) @ Q @ 0 # R, ?a @ js)" "Q = []"
        "map (string_at ((P @ sp @ w) @ Q @ 0 # R)) js = []" by auto
      have cs: "cs = sp @ w" using s(1) s'(1) Nil by simp
      show ?thesis
        using Q run Nil lw dr string_at_word [OF w(2), of "P @ sp" R] cs
        by (intro exI [of _ "sp @ w"] exI [of _ "[length (P @ sp)]"]) simp
    next
      case (Cons d q')
      have up: "?b[?n := 0] = (P @ sp @ w @ [0]) @ q' @ 0 # R" by (simp add: Cons list_update_append)
      from IH [of "P @ sp @ w @ [0]"] Cons obtain Q js where
        Q: "parse_args ((P @ sp @ w @ [0]) @ q' @ 0 # R) (length (P @ sp @ w @ [0])) ?a = Some ((P @ sp @ w @ [0]) @ Q @ 0 # R, ?a @ js)"
        "length Q = length q'" "map (string_at ((P @ sp @ w @ [0]) @ Q @ 0 # R)) js = line_words q'" by auto
      have cs: "length cs = length sp + length w + Suc (length q')" using arg_cong [OF s(1), of length] arg_cong [OF s'(1), of length] Cons by simp
      show ?thesis
        using Q run Cons lw dr string_at_word [OF w(2), of "P @ sp" "Q @ 0 # R"] cs up
        by (intro exI [of _ "sp @ w @ 0 # Q"] exI [of _ "length (P @ sp) # js"]) simp
    qed
  qed
qed

lemma line_words_length: "2 * length (line_words cs) \<le> length cs + 1"
proof (induction cs rule: line_words.induct)
  case (1 cs)
  define r where "r = dropWhile (\<lambda>x. x = 32) cs"
  have le: "length r \<le> length cs" by (simp add: r_def length_dropWhile_le)
  show ?case
  proof (cases "r = [] \<or> hd r = 10")
    case True
    then show ?thesis by (subst line_words.simps) (simp add: r_def)
  next
    case False
    define w where "w = takeWhile (\<lambda>x. \<not> delim x) r"
    have "r \<noteq> []" "\<not> delim (hd r)" using False line_split(3) [of cs, folded r_def] by (auto simp: delim_def)
    then have w: "0 < length w" "0 < length r" by (cases r; simp add: w_def)+
    have "line_words cs = w # line_words (drop (Suc (length w)) r)"
      using False by (subst line_words.simps) (simp add: r_def w_def Let_def)
    moreover have "2 * length (line_words (drop (Suc (length w)) r)) \<le> length (drop (Suc (length w)) r) + 1"
      using 1 [OF r_def False] by (simp add: w_def)
    ultimately show ?thesis using w le by (simp only: list.size length_drop) arith
  qed
qed

text \<open>The file and the arguments of a command line.\<close>

definition line_name :: "u8 list \<Rightarrow> u8 list" where
  "line_name c = takeWhile (\<lambda>x. \<not> delim x) c"

definition line_args :: "u8 list \<Rightarrow> u8 list list" where
  "line_args c = line_words (drop (Suc (length (line_name c))) c)"

lemma emu_execute_eq:
  assumes "0 \<in> set command" and "length buf = 1026"
  shows "emu_execute H buf command s =
    (if 1023 < length (cstr command) then Some (-1, s)
     else let path = bytes ''./'' @ line_name (cstr command);
              (st, t) = h_run H path (path # line_args (cstr command)) s
          in Some (exit_code st, t))"
proof (cases "1023 < length (cstr command)")
  case True
  then show ?thesis using assms(1) by (simp add: emu_execute_def ece391_strlen_eq)
next
  case False
  define c where "c = cstr command"
  define name where "name = line_name c"
  define q where "q = dropWhile (\<lambda>x. \<not> delim x) c"
  have nz: "0 \<notin> set c" by (simp add: c_def)
  have cq: "c = name @ q" "\<forall>x\<in>set name. \<not> delim x" "q = [] \<or> delim (hd q)"
    using hd_dropWhile [of "\<lambda>x. \<not> delim x" c] by (auto simp: name_def line_name_def q_def dest: set_takeWhileD)
  let ?P = "bytes ''./''" and ?R = "drop (3 + length c) buf"
  let ?b = "buf[0 := 46, 1 := 47]"
  have "drop 0 command = c @ 0 # drop (Suc (length c)) command" using cstr_split [OF assms(1)] by (simp add: c_def)
  from strcpy_at_eq [OF this nz, of 2 ?b] False assms(2)
  have "strcpy_at ?b 2 command 0 = Some (take 2 ?b @ c @ 0 # drop (Suc (2 + length c)) ?b)" by (simp add: c_def)
  moreover have "take 2 ?b = ?P" using assms(2) by (cases buf; cases "tl buf") (auto simp: bytes_def numeral_2_eq_2)
  ultimately have cp: "strcpy_at ?b 2 command 0 = Some (?P @ c @ 0 # ?R)" by (simp add: numeral_3_eq_3 numeral_2_eq_2)
  have P: "length ?P = 2" "0 \<notin> set ?P" by (simp_all add: bytes_def)
  have sc: "scan_word (?P @ c @ 0 # ?R) 2 = Some (2 + length name)"
    using scan_word_eq [OF nz cq(2,1,3), of ?P ?R] by (simp add: P)
  have buf: "?P @ c @ 0 # ?R = (?P @ name) @ q @ 0 # ?R" by (subst cq(1)) simp
  have ch: "rd (?P @ c @ 0 # ?R) (2 + length name) = Some (if q = [] then 0 else hd q)"
    unfolding buf by (cases q) (auto simp: rd_def nth_append P)
  have head: "emu_execute H buf command s = do {
      (buf, args) \<leftarrow> (if q \<noteq> [] then do { buf \<leftarrow> wr (?P @ c @ 0 # ?R) (2 + length name) 0; parse_args buf (Suc (2 + length name)) [0] } else Some (?P @ c @ 0 # ?R, [0]));
      if 1024 \<le> length args then None
      else do { let (st, s) = h_run H (string_at buf 0) (map (string_at buf) args) s; Some (exit_code st, s) } }"
  proof -
    have "q \<noteq> [] \<Longrightarrow> hd q \<noteq> 0" using nz cq(1) by (metis Un_iff hd_in_set set_append)
    then show ?thesis
      using False assms cp sc ch unfolding c_def [symmetric] by (auto simp: emu_execute_def ece391_strlen_eq c_def)
  qed
  have path: "0 \<notin> set (?P @ name)" using nz cq(1) P(2) by auto
  show ?thesis
  proof (cases q)
    case Nil
    then have "line_args c = []" "c = name" using cq(1) by (simp_all add: line_args_def name_def)
    moreover have "string_at (?P @ c @ 0 # ?R) 0 = ?P @ name"
      using cstr_append_nul [OF path, of ?R] \<open>c = name\<close> by (simp add: string_at_def)
    ultimately show ?thesis using head Nil False by (simp add: c_def name_def Let_def)
  next
    case (Cons d q')
    let ?Q = "?P @ name @ [0]"
    have up: "(?P @ c @ 0 # ?R)[2 + length name := 0] = ?Q @ q' @ 0 # ?R" unfolding buf by (simp add: Cons list_update_append P)
    have la: "line_args c = line_words q'" unfolding line_args_def name_def [symmetric] by (subst cq(1)) (simp add: Cons)
    have nq: "0 \<notin> set q'" using nz cq(1) Cons by auto
    have lc: "length q' \<le> 1022" using arg_cong [OF cq(1), of length] Cons False by (simp add: c_def)
    then have "length [0 :: nat] + length (line_words q') \<le> 1024" using line_words_length [of q'] by simp
    from parse_args_eq [OF nq this, of ?Q ?R] obtain S js where
      S: "parse_args (?Q @ q' @ 0 # ?R) (length ?Q) [0] = Some (?Q @ S @ 0 # ?R, [0] @ js)" "map (string_at (?Q @ S @ 0 # ?R)) js = line_words q'"
      by blast
    have "string_at (?Q @ S @ 0 # ?R) 0 = ?P @ name"
      using cstr_append_nul [OF path, of "S @ 0 # ?R"] by (simp add: string_at_def)
    moreover have "length js < 1023" using arg_cong [OF S(2), of length] line_words_length [of q'] lc by simp
    moreover have "wr (?P @ c @ 0 # ?R) (2 + length name) 0 = Some (?Q @ q' @ 0 # ?R)" unfolding up [symmetric] buf by (simp add: P)
    ultimately show ?thesis using head Cons S la False by (simp add: c_def name_def Let_def P)
  qed
qed

definition demo_host :: "(nat, u8 list list) host" where
  "demo_host = \<lparr>h_run = \<lambda>path argv h. (Exited (length argv), path # argv),
     h_opendir = \<lambda>h. (Some 0, h), h_open_null = \<lambda>h. (5, h),
     h_readdir = \<lambda>d h. (case h of [] \<Rightarrow> (None, []) | w # ws \<Rightarrow> (Some (w @ [0]), ws)), h_closedir = \<lambda>d h. h, h_close = \<lambda>fd h. h,
     h_sys_open = \<lambda>f h. (7, h), h_sys_read = \<lambda>fd b n h. (0, b, h), h_sys_write = \<lambda>fd b n h. (word_of_int n, h), h_sys_close = \<lambda>fd h. (0, h),
     h_open_mem = \<lambda>h. (3, h), h_mmap = \<lambda>fd h. (if fd = 3 then Some 0x40000000 else None, h), h_perror = \<lambda>m h. m # h\<rparr>"

text \<open>
  C22: running a command line on the host. A command of at most 1023 characters is run as the file \<open>./name\<close>, where the name ends at the first space or newline, with
  that path and the words after it as the argument vector, and the result is the exit code of the program, -1 when
  it was killed by signal 9, as it is when the file cannot be executed, and 256 for any other signal. A longer command is
  refused. The local buffer and the array of pointers are never left.
\<close>

theorem emu_execute_runs_words:
  assumes "0 \<in> set command" and "length buf = 1026"
  shows "emu_execute H buf command s =
    (if 1023 < length (cstr command) then Some (-1, s)
     else let path = bytes ''./'' @ line_name (cstr command);
              (st, t) = h_run H path (path # line_args (cstr command)) s
          in Some (exit_code st, t))"
  by (rule emu_execute_eq [OF assms])

theorem emu_execute_runs_words_witness:
  "emu_execute demo_host (replicate 1026 0) (bytes ''grep  sea x'' @ [10, 0]) [] =
    Some (3, [bytes ''./grep'', bytes ''./grep'', bytes ''sea'', bytes ''x''])"
proof -
  have c: "cstr (bytes ''grep  sea x'' @ [10, 0]) = bytes ''grep  sea x'' @ [10]"
    using cstr_append_nul [of "bytes ''grep  sea x'' @ [10]" "[]"] by (simp add: bytes_def)
  have "line_name (bytes ''grep  sea x'' @ [10]) = bytes ''grep''" by (simp add: line_name_def bytes_def delim_def)
  moreover have "line_args (bytes ''grep  sea x'' @ [10]) = [bytes ''sea'', bytes ''x'']"
    unfolding line_args_def by (simp add: line_name_def bytes_def delim_def line_words.simps)
  ultimately show ?thesis
    using emu_execute_runs_words [of "bytes ''grep  sea x'' @ [10, 0]" "replicate 1026 0" demo_host "[]"] unfolding c
    by (simp add: demo_host_def exit_code_def bytes_def Let_def)
qed

section \<open>Joining the arguments\<close>

fun join_words :: "u8 list list \<Rightarrow> u8 list" where
  "join_words [] = []"
| "join_words [w] = w"
| "join_words (w # v # ws) = w @ 32 # join_words (v # ws)"

lemma join_words_Cons: "ws \<noteq> [] \<Longrightarrow> join_words (w # ws) = w @ 32 # join_words ws"
  by (cases ws) simp_all

lemma getargs_step:
  assumes "0 \<in> set w" and "pos + length (cstr w) < length buf" and "int (length (cstr w)) \<le> n"
  defines "b \<equiv> take pos buf @ cstr w @ 0 # drop (Suc (pos + length (cstr w))) buf"
  shows "getargs_loop (w # ws) buf pos n =
    (if ws = [] then getargs_loop [] b (pos + length (cstr w)) (n - int (length (cstr w)))
     else if n - int (length (cstr w)) < 1 then Some (-1, b)
     else getargs_loop ws (take pos buf @ cstr w @ 32 # drop (Suc (pos + length (cstr w))) buf) (Suc (pos + length (cstr w))) (n - int (length (cstr w)) - 1))"
proof -
  have "drop 0 w = cstr w @ 0 # drop (Suc (length (cstr w))) w" using cstr_split [OF assms(1)] by simp
  from strcpy_at_eq [OF this, of pos buf] assms(2) have cp: "strcpy_at buf pos w 0 = Some b" by (simp add: b_def)
  have w: "wr b (pos + length (cstr w)) 32 = Some (take pos buf @ cstr w @ 32 # drop (Suc (pos + length (cstr w))) buf)"
    using assms(2) by (simp add: b_def wr_def list_update_append)
  show ?thesis using cp w assms(1,3) by (simp add: ece391_strlen_eq Let_def)
qed

lemma getargs_fits:
  assumes "list_all (\<lambda>w. 0 \<in> set w) ws" and "int (length (join_words (map cstr ws))) < n" and "pos + nat n \<le> length buf"
  shows "getargs_loop ws buf pos n =
    Some (0, take pos buf @ join_words (map cstr ws) @ 0 # drop (Suc (pos + length (join_words (map cstr ws)))) buf)"
  using assms
proof (induction ws arbitrary: buf pos n)
  case Nil
  then show ?case by (simp add: upd_conv_take_nth_drop)
next
  case (Cons w ws)
  let ?l = "length (cstr w)"
  have l: "0 \<in> set w" "int ?l < n" using Cons.prems(1,2) by (cases ws; simp)+
  note st = getargs_step [OF l(1), of pos buf n ws]
  show ?case
  proof (cases "ws = []")
    case True
    then show ?thesis using st l Cons.prems(3) by (simp add: wr_def list_update_append)
  next
    case False
    let ?b = "take pos buf @ cstr w @ 32 # drop (Suc (pos + ?l)) buf"
    have j: "join_words (map cstr (w # ws)) = cstr w @ 32 # join_words (map cstr ws)" using False by (simp add: join_words_Cons)
    have len: "int ?l + 1 + int (length (join_words (map cstr ws))) < n" using Cons.prems(2) unfolding j by simp
    have bl: "length ?b = length buf" using l Cons.prems(3) by simp
    have "getargs_loop (w # ws) buf pos n = getargs_loop ws ?b (Suc (pos + ?l)) (n - int ?l - 1)"
      using st l len False Cons.prems(3) by simp
    also have "\<dots> = Some (0, take (Suc (pos + ?l)) ?b @ join_words (map cstr ws) @ 0 # drop (Suc (Suc (pos + ?l) + length (join_words (map cstr ws)))) ?b)"
      using Cons.prems(1,3) len bl by (intro Cons.IH) auto
    also have "take (Suc (pos + ?l)) ?b = take pos buf @ cstr w @ [32]" using l Cons.prems(3) by simp
    also have "drop (Suc (Suc (pos + ?l) + length (join_words (map cstr ws)))) ?b =
        drop (Suc (pos + length (join_words (map cstr (w # ws))))) buf"
      unfolding j using l Cons.prems(3) by (simp add: ac_simps)
    finally show ?thesis unfolding j by simp
  qed
qed

definition plain_word :: "u8 list \<Rightarrow> bool" where
  "plain_word w \<longleftrightarrow> w \<noteq> [] \<and> 0 \<notin> set w \<and> (\<forall>x\<in>set w. \<not> delim x)"

lemma line_words_word:
  assumes "plain_word w"
  shows "line_words w = [w]" "line_words (w @ 32 # r) = w # line_words r"
proof -
  obtain x v where w: "w = x # v" "x \<noteq> 32" "x \<noteq> 10" using assms by (cases w) (auto simp: plain_word_def delim_def)
  have tw: "takeWhile (\<lambda>x. \<not> delim x) w = w" "takeWhile (\<lambda>x. \<not> delim x) (w @ 32 # r) = w"
    using assms by (simp_all add: plain_word_def delim_def)
  have dw: "dropWhile (\<lambda>x. x = 32) w = w" "dropWhile (\<lambda>x. x = 32) (w @ 32 # r) = w @ 32 # r" using w by simp_all
  show "line_words w = [w]" by (subst line_words.simps) (simp add: dw tw Let_def, simp add: w)
  show "line_words (w @ 32 # r) = w # line_words r" by (subst line_words.simps) (simp add: dw tw Let_def, simp add: w)
qed

lemma line_words_join: "list_all plain_word ws \<Longrightarrow> line_words (join_words ws) = ws"
  by (induction ws rule: join_words.induct) (simp_all add: line_words_word)

lemma emu_getargs_joins:
  assumes "list_all plain_word ws" and "int (length (join_words ws)) < n" and "nat n \<le> length buf"
  shows "emu_getargs (map (\<lambda>w. w @ [0]) (path # ws)) buf n = Some (0, join_words ws @ 0 # drop (Suc (length (join_words ws))) buf)"
    "0 \<notin> set (join_words ws)"
proof -
  have z: "0 \<notin> set w" if "w \<in> set ws" for w using assms(1) that by (auto simp: list_all_iff plain_word_def)
  then have m: "map cstr (map (\<lambda>w. w @ [0]) ws) = ws" by (simp add: map_idI)
  show "0 \<notin> set (join_words ws)" using z by (induction ws rule: join_words.induct) auto
  have "list_all (\<lambda>w. 0 \<in> set w) (map (\<lambda>w. w @ [0]) ws)" by (simp add: list_all_iff)
  from getargs_fits [OF this, of n 0 buf] show "emu_getargs (map (\<lambda>w. w @ [0]) (path # ws)) buf n = Some (0, join_words ws @ 0 # drop (Suc (length (join_words ws))) buf)"
    unfolding m using assms(2,3) by (simp add: emu_getargs_def)
qed

text \<open>
  C23: arguments on the host and on the kernel. For a command line in which single spaces separate the name and the
  arguments, the emulated \<open>ece391_execute\<close> and the \<open>sys_execute\<close> of the kernel run the same file, and the string that \<open>ece391_getargs\<close>
  puts together on the host from the argument vector the program was given is the argument string that the kernel stores for it, if it fits into the buffer.
\<close>

theorem emulated_arguments_agree:
  assumes "0 \<in> set command" and "cstr command = name @ 32 # join_words ws" and "plain_word name" and "list_all plain_word ws"
    and "length (cstr command) < 1000" and "length (join_words ws) < length arg" and "length lb = 1026"
    and "int (length (join_words ws)) < n" and "nat n \<le> length buf"
  shows "\<exists>argv word arg' b. emu_execute H lb command s = (let (st, t) = h_run H (hd argv) argv s in Some (exit_code st, t))
    \<and> parse_command command arg = Some (word, arg') \<and> hd argv = bytes ''./'' @ cstr word
    \<and> emu_getargs (map (\<lambda>w. w @ [0]) argv) buf n = Some (0, b) \<and> cstr b = cstr arg'"
proof -
  define c where "c = cstr command"
  have nm: "line_name c = name" "command_word c = name"
    using assms(3) by (auto simp: c_def assms(2) line_name_def command_word_def plain_word_def delim_def takeWhile_append2)
  have k: "command_args c = join_words ws" by (simp add: command_args_def nm) (simp add: c_def assms(2))
  have la: "line_args c = ws" using line_words_join [OF assms(4)] unfolding line_args_def nm by (simp add: c_def assms(2))
  let ?path = "bytes ''./'' @ name"
  note j = emu_getargs_joins [OF assms(4,8,9)]
  have e: "emu_execute H lb command s = (let (st, t) = h_run H ?path (?path # ws) s in Some (exit_code st, t))"
    using emu_execute_eq [OF assms(1,7), of H s] assms(5) unfolding c_def [symmetric] nm la by (simp add: Let_def)
  from parse_command_eq [OF assms(1,5), of arg] assms(6) obtain rest where
    p: "parse_command command arg = Some (name @ 0 # rest, join_words ws @ 0 # drop (Suc (length (join_words ws))) arg)"
    unfolding c_def [symmetric] nm k by (auto simp: c_def assms(2))
  have "0 \<notin> set name" using assms(3) by (simp add: plain_word_def)
  then have "?path = bytes ''./'' @ cstr (name @ 0 # rest)" by (simp add: cstr_append_nul)
  moreover have "cstr (join_words ws @ 0 # drop (Suc (length (join_words ws))) buf) = cstr (join_words ws @ 0 # drop (Suc (length (join_words ws))) arg)"
    using j(2) by (simp add: cstr_append_nul)
  ultimately show ?thesis using e p j(1) [of ?path] by (intro exI [of _ "?path # ws"]) auto
qed

theorem emulated_arguments_agree_witness:
  "\<exists>argv word arg' b. emu_execute demo_host (replicate 1026 0) (bytes ''grep sea x'' @ [0]) [] = Some (int (length argv), hd argv # argv)
    \<and> parse_command (bytes ''grep sea x'' @ [0]) (replicate 128 0) = Some (word, arg') \<and> hd argv = bytes ''./'' @ cstr word
    \<and> emu_getargs (map (\<lambda>w. w @ [0]) argv) (replicate 16 7) 16 = Some (0, b) \<and> cstr b = cstr arg'"
proof -
  have p: "plain_word (bytes ''grep'')" "list_all plain_word [bytes ''sea'', bytes ''x'']" by (simp_all add: plain_word_def delim_def bytes_def)
  have c: "cstr (bytes ''grep sea x'' @ [0]) = bytes ''grep'' @ 32 # join_words [bytes ''sea'', bytes ''x'']"
    using cstr_append_nul [of "bytes ''grep sea x''" "[]"] by (simp add: bytes_def)
  have l: "length (join_words [bytes ''sea'', bytes ''x'']) = 5" "length (bytes ''grep'') = 4" by (simp_all add: bytes_def)
  from emulated_arguments_agree [OF _ c p, of "replicate 128 0" "replicate 1026 0" 16 "replicate 16 7" demo_host "[]"] l show ?thesis
    unfolding c by (simp add: demo_host_def exit_code_def Let_def)
qed

text \<open>
  C32: the check of \<open>ece391_getargs\<close> against the size of the buffer misses the terminating byte. When the arguments exactly fill the buffer, the copy of
  the last one writes one byte past its end before the function notices that there is no room.
\<close>

theorem emu_getargs_overrun:
  assumes "list_all (\<lambda>w. 0 \<in> set w) ws" and "ws \<noteq> []" and "length (join_words (map cstr ws)) = length buf"
  shows "emu_getargs (w0 # ws) buf (int (length buf)) = None"
proof -
  have "getargs_loop ws buf pos n = None"
    if "pos + length (join_words (map cstr ws)) = length buf" "n = int (length (join_words (map cstr ws)))" for pos n
    using assms(1,2) that
  proof (induction ws arbitrary: buf pos n)
    case (Cons w ws)
    let ?l = "length (cstr w)"
    have z: "0 \<in> set w" using Cons.prems(1) by simp
    have d: "drop 0 w = cstr w @ 0 # drop (Suc ?l) w" using cstr_split [OF z] by simp
    show ?case
    proof (cases "ws = []")
      case True
      then have "pos + ?l = length buf" "n = int ?l" using Cons.prems(3,4) by simp_all
      then show ?thesis using strcpy_at_eq [OF d, of pos buf] z by (simp add: ece391_strlen_eq)
    next
      case False
      let ?b = "take pos buf @ cstr w @ 32 # drop (Suc (pos + ?l)) buf"
      have j: "join_words (map cstr (w # ws)) = cstr w @ 32 # join_words (map cstr ws)" using False by (simp add: join_words_Cons)
      have len: "pos + ?l + 1 + length (join_words (map cstr ws)) = length buf" "n = int ?l + 1 + int (length (join_words (map cstr ws)))"
        using Cons.prems(3,4) unfolding j by simp_all
      have bl: "length ?b = length buf" using len(1) by simp
      have "getargs_loop (w # ws) buf pos n = getargs_loop ws ?b (Suc (pos + ?l)) (n - int ?l - 1)"
        using getargs_step [OF z, of pos buf n ws] len False by simp
      also have "\<dots> = None" using Cons.prems(1) False len bl by (intro Cons.IH) auto
      finally show ?thesis .
    qed
  qed simp
  from this [of 0 "int (length buf)"] show ?thesis using assms(3) by (simp add: emu_getargs_def)
qed

theorem emu_getargs_overrun_witness:
  "emu_getargs [bytes ''./cat'' @ [0], bytes ''poem'' @ [0]] (replicate 4 0) 4 = None"
proof -
  have "cstr (bytes ''poem'' @ [0]) = bytes ''poem''" using cstr_append_nul [of "bytes ''poem''" "[]"] by (simp add: bytes_def)
  then show ?thesis using emu_getargs_overrun [of "[bytes ''poem'' @ [0]]" "replicate 4 0" "bytes ''./cat'' @ [0]"] by (simp add: bytes_def)
qed

section \<open>Video memory\<close>

text \<open>A second mapping after a successful one uses the descriptor the first one opened.\<close>

lemma emu_vidmap_again:
  assumes "emu_vidmap H screen s = (0, screen', t)" and "emu_mem_fd t \<noteq> -1" and "h_mmap H (emu_mem_fd t) (emu_host t) = (Some m, h)"
  shows "emu_vidmap H screen' t = (0, m + 0xb8000, t\<lparr>emu_host := h\<rparr>)"
  using assms(2,3) by (simp add: emu_vidmap_def)

section \<open>Reading the directory\<close>

lemma pad_name_eq:
  assumes "copied \<le> m" and "m = min (nat n) 32" and "m \<le> length to"
  shows "pad_name to copied n = Some (int m, take copied to @ replicate (m - copied) 0 @ drop m to)"
  using assms
proof (induction "m - copied" arbitrary: copied to)
  case 0
  have "copied = m" using 0(1,2) by linarith
  then show ?case using 0(3,4) by (subst pad_name.simps) (auto simp: min_def split: if_splits)
next
  case (Suc k)
  have lt: "copied < m" using Suc.hyps(2) by linarith
  then have c: "int copied < n" "copied < 32" using Suc.prems(2) by auto
  have "pad_name to copied n = pad_name (to[copied := 0]) (Suc copied) n"
    using c lt Suc.prems(3) by (subst pad_name.simps) simp
  also have "\<dots> = Some (int m, take (Suc copied) (to[copied := 0]) @ replicate (m - Suc copied) 0 @ drop m (to[copied := 0]))"
  proof (rule Suc.hyps(1))
    show "k = m - Suc copied" using Suc.hyps(2) by linarith
    show "m \<le> length (to[copied := 0])" unfolding length_list_update by (rule Suc.prems(3))
  qed (use lt Suc.prems(2) in \<open>simp_all only: Suc_le_eq\<close>)
  also have "take (Suc copied) (to[copied := 0]) = take copied to @ [0]"
    using less_le_trans [OF lt Suc.prems(3)] by (simp add: take_Suc_conv_app_nth)
  also have "drop m (to[copied := 0]) = drop m to" by (rule drop_update_cancel [OF lt])
  finally show ?case unfolding Suc_diff_Suc [OF lt, symmetric] by simp
qed

lemma copy_name_eq:
  assumes "0 \<in> set name" and "k < m" and "k \<le> length (cstr name)" and "m = min (nat n) 32" and "m \<le> length to"
  shows "copy_name name to k n = Some (int m, take k to @ take (m - k) (drop k (cstr name @ replicate 32 0)) @ drop m to)"
  using assms(2-5)
proof (induction "m - k" arbitrary: k to)
  case (Suc d)
  let ?w = "cstr name"
  have nm: "name = ?w @ 0 # drop (Suc (length ?w)) name" by (rule cstr_split [OF assms(1)])
  from arg_cong [OF this, of length] have kl: "k < length name" using Suc.prems(2) by (simp only: length_append list.size)
  show ?case
  proof (cases "k < length ?w")
    case True
    then have nk: "name ! k = ?w ! k" by (subst nm) (simp add: nth_append)
    have nz: "?w ! k \<noteq> 0" using True nul_notin_cstr [of name] by (metis nth_mem)
    let ?to = "to[k := ?w ! k]"
    have tk: "take (Suc k) ?to = take k to @ [?w ! k]" using Suc.prems(1,4) by (simp add: take_Suc_conv_app_nth)
    have dk: "drop k (?w @ replicate 32 0) = ?w ! k # drop (Suc k) (?w @ replicate 32 0)"
      using True by (simp add: Cons_nth_drop_Suc [symmetric])
    have step: "copy_name name to k n = (if Suc k = m then Some (int m, ?to) else copy_name name ?to (Suc k) n)"
      using kl nk nz Suc.prems by (subst copy_name.simps) (auto simp: wr_def min_def split: if_splits)
    show ?thesis
    proof (cases "Suc k = m")
      case True
      have "?to = take k to @ [?w ! k] @ drop m to"
        using append_take_drop_id [of "Suc k" ?to] drop_update_cancel [OF Suc.prems(1), of to "?w ! k"]
        unfolding tk by (simp only: True append_assoc)
      moreover have "m - k = Suc 0" using True by linarith
      ultimately show ?thesis unfolding dk using step True by simp
    next
      case False
      have "copy_name name ?to (Suc k) n = Some (int m, take (Suc k) ?to @ take (m - Suc k) (drop (Suc k) (?w @ replicate 32 0)) @ drop m ?to)"
      proof (rule Suc.hyps(1))
        show "d = m - Suc k" using Suc.hyps(2) by linarith
        show "Suc k < m" using Suc.prems(1) False by linarith
        show "Suc k \<le> length ?w" using True by simp
        show "m \<le> length ?to" unfolding length_list_update by (rule Suc.prems(4))
      qed (rule Suc.prems(3))
      moreover have "drop m ?to = drop m to" by (rule drop_update_cancel [OF Suc.prems(1)])
      moreover have "m - k = Suc (m - Suc k)" using Suc.prems(1) by linarith
      ultimately show ?thesis using step False tk unfolding dk by simp
    qed
  next
    case False
    then have k: "k = length ?w" using Suc.prems(2) by simp
    have "name ! k = 0" unfolding k by (subst nm) (simp add: nth_append)
    then have "copy_name name to k n = pad_name to k n" using kl by (subst copy_name.simps) simp
    also have "\<dots> = Some (int m, take k to @ replicate (m - k) 0 @ drop m to)" using Suc.prems by (intro pad_name_eq) auto
    also have "replicate (m - k) 0 = take (m - k) (drop k (?w @ replicate 32 0))"
    proof -
      have "m \<le> 32" unfolding Suc.prems(3) by (rule min.cobounded2)
      then have "min (m - k) 32 = m - k" by linarith
      then show ?thesis unfolding k by (simp only: drop_append drop_all order_refl take_replicate) simp
    qed
    finally show ?thesis .
  qed
qed simp

text \<open>
  C31: reading the directory on the host. While the directory is open, a read of its descriptor with room for at least one byte takes the next entry of the host's directory
  and stores its name, cut or padded with zero bytes to the smaller of the requested length and 32, and returns that
  length, where the kernel returns the length of the name. At the end of the directory it returns 0.
\<close>

theorem emu_read_directory:
  assumes "emu_dir s = Some d" and "0 < n" and "min (nat n) 32 \<le> length buf"
    and "\<And>name. fst (h_readdir H d (emu_host s)) = Some name \<Longrightarrow> 0 \<in> set name"
  shows "emu_read H (emu_dir_fd s) buf n s =
    (case h_readdir H d (emu_host s) of
       (None, h) \<Rightarrow> Some (0, buf, s\<lparr>emu_host := h\<rparr>)
     | (Some name, h) \<Rightarrow>
         Some (min n 32, take (min (nat n) 32) (cstr name @ replicate 32 0) @ drop (min (nat n) 32) buf, s\<lparr>emu_host := h\<rparr>))"
proof (cases "h_readdir H d (emu_host s)")
  case (Pair x h)
  show ?thesis
  proof (cases x)
    case None
    then show ?thesis using assms(1) Pair by (simp add: emu_read_def)
  next
    case (Some name)
    then have "0 \<in> set name" using assms(4) Pair by simp
    from copy_name_eq [OF this, of 0 "min (nat n) 32" n buf] assms(2,3)
    have "copy_name name buf 0 n = Some (int (min (nat n) 32), take (min (nat n) 32) (cstr name @ replicate 32 0) @ drop (min (nat n) 32) buf)" by simp
    moreover have "int (min (nat n) 32) = min n 32" using assms(2) by simp
    ultimately show ?thesis using assms(1) Pair Some by (simp add: emu_read_def)
  qed
qed

theorem emu_read_directory_witness:
  "\<exists>s t. emu_open demo_host (bytes ''.'' @ [0]) \<lparr>emu_dir = None, emu_dir_fd = -1, emu_mem_fd = -1, emu_host = [bytes ''cat'', bytes ''ls'']\<rparr> = Some (5, s)
    \<and> emu_read demo_host 5 (replicate 6 9) 5 s = Some (5, bytes ''cat'' @ [0, 0, 9], t) \<and> emu_host t = [bytes ''ls'']
    \<and> fst (emu_close demo_host 5 t) = 0"
proof -
  let ?s = "\<lparr>emu_dir = Some 0, emu_dir_fd = 5, emu_mem_fd = -1, emu_host = [bytes ''cat'', bytes ''ls'']\<rparr>"
  have dot: "ece391_strcmp (bytes ''.'' @ [0]) (bytes ''.'' @ [0]) = Some 0"
    by (simp add: ece391_strcmp_def ece391_strcmp_from.simps bytes_def)
  have o: "emu_open demo_host (bytes ''.'' @ [0]) \<lparr>emu_dir = None, emu_dir_fd = -1, emu_mem_fd = -1, emu_host = [bytes ''cat'', bytes ''ls'']\<rparr> = Some (5, ?s)"
    by (simp add: emu_open_def dot demo_host_def)
  have c: "cstr (bytes ''cat'' @ [0]) = bytes ''cat''" using cstr_append_nul [of "bytes ''cat''" "[]"] by (simp add: bytes_def)
  have "emu_read demo_host 5 (replicate 6 9) 5 ?s = Some (5, bytes ''cat'' @ [0, 0, 9], ?s\<lparr>emu_host := [bytes ''ls'']\<rparr>)"
    using emu_read_directory [of ?s 0 5 "replicate 6 9" demo_host] c
    by (simp add: demo_host_def bytes_def numeral_eq_Suc)
  with o show ?thesis by (intro exI [of _ ?s] exI [of _ "?s\<lparr>emu_host := [bytes ''ls'']\<rparr>"]) (simp add: emu_close_def demo_host_def)
qed

end
