(* ===== verification/Spec2Isabelle.thy ===== *)
theory Spec2Isabelle
  imports Lib_Memory Boot User_Session User_Signals Fish Host_Emulation
begin

text \<open>
  \<^bold>\<open>A verification of the House-AM kernel\<close>

  The repository holds a small 32-bit x86 kernel (\<^verbatim>\<open>src/student-distrib\<close>), the user programs
  that run on it (\<^verbatim>\<open>src/syscalls\<close>, \<^verbatim>\<open>src/fish\<close>) and a file system image. The kernel boots
  from multiboot, sets up its descriptor tables, the interrupt controller, paging, the keyboard and
  the clock, and starts a shell. A program runs in one 4 MB page at 128 MB and calls the kernel
  through interrupt 0x80; \<open>sys_execute\<close> starts a child on top of its parent, \<open>sys_halt\<close> returns to
  it. Three virtual terminals share the screen and the line editor of the keyboard handler.

  \<^bold>\<open>State.\<close> The kernel's state is one extensible record. Each theory extends the record of the one
  below with the globals of its C files: \<open>machine\<close> (trace of port accesses), \<open>pic\<close> (interrupt
  masks), \<open>rtc\<close>, \<open>console\<close> (frame buffer, cursor), \<open>keyboard\<close> (modifiers), \<open>terminal\<close> (line buffers and
  saved terminals), \<open>kernel\<close> (file system, paging, process table, control blocks, program frames,
  task state). Pointers into objects are indices of byte lists, and an access outside
  an object is \<^const>\<open>None\<close>; raw memory is a function from 32-bit addresses to bytes. Fixed-width
  values are words; screen coordinates and buffer indices are integers kept in range by invariants.
  Interrupts are explicit events; a busy wait consumes the events that arrive.

  \<^bold>\<open>Theories.\<close>
  \<^item> \<open>Prelude\<close>: types, bounded objects, C strings, busy waits, the lemma collections.
  \<^item> \<open>Lib_String\<close>: \<open>strlen\<close>, \<open>strncmp\<close>, \<open>strcpy\<close>, \<open>strncpy\<close>, \<open>strrev\<close>, \<open>itoa\<close> of \<^verbatim>\<open>lib.c\<close>.
  \<^item> \<open>Lib_Memory\<close>: \<open>memset\<close>, \<open>memset_word\<close>, \<open>memset_dword\<close>, \<open>memcpy\<close>, \<open>memmove\<close>, written in
    assembly in \<^verbatim>\<open>lib.c\<close>, against the reference \<open>overwrite\<close>.
  \<^item> \<open>Port_IO\<close>, \<open>Pic\<close>, \<open>Rtc\<close>: \<^verbatim>\<open>lib.h\<close>, \<^verbatim>\<open>i8259.c\<close>, \<^verbatim>\<open>rtc.c\<close> and \<open>rtc_interrupt\<close> of \<^verbatim>\<open>IDT.c\<close>; the
    locales \<open>indexed_port\<close> (index and data ports) and \<open>tick_source\<close> (what a waiting
    clock reader relies on, interpreted on the kernel's dispatch in \<open>Interrupts\<close>).
  \<^item> \<open>Console\<close>: \<open>clear\<close>, \<open>putc\<close>, \<open>puts\<close>, \<open>printf\<close> of \<^verbatim>\<open>lib.c\<close>, \<open>scroll_up\<close> of \<^verbatim>\<open>keyboard.c\<close>,
    \<open>update_cursor\<close> of \<^verbatim>\<open>terminal.c\<close>; the locales \<open>char_device\<close> and \<open>cell_device\<close>.
  \<^item> \<open>Keyboard\<close>: the scan code tables, \<open>scan_code_to_char\<close>, \<open>set_keyboard_flags\<close> of \<^verbatim>\<open>keyboard.c\<close>.
  \<^item> \<open>Terminal\<close>: line editing and terminal switching of \<^verbatim>\<open>keyboard.c\<close>, \<open>terminal_read\<close> and
    \<open>terminal_write\<close> of \<^verbatim>\<open>terminal.c\<close>; the locales \<open>terminal_slot\<close> and \<open>terminal_pair\<close>.
  \<^item> \<open>Idt\<close>: \<open>set_idt\<close> and the exception handlers of \<^verbatim>\<open>IDT.c\<close>, and the gates the table encodes.
  \<^item> \<open>Filesystem\<close>: lookup and data reading of \<^verbatim>\<open>filesystem.c\<close> against the contents of the
    image; the locale \<open>file_source\<close> is what the program loader relies on.
  \<^item> \<open>Paging\<close>: \<open>page_fill\<close> of \<^verbatim>\<open>paging.c\<close> and the page walk of the processor.
  \<^item> \<open>System_Call\<close>: the file and directory operations of \<^verbatim>\<open>filesystem.c\<close> and every call of
    \<^verbatim>\<open>system_call.c\<close>; \<open>Processes\<close>: starting, ending and finding processes; \<open>Descriptors\<close>: opening
    and reading; \<open>Call_Properties\<close>: arguments, failing calls and \<open>sys_vidmap\<close>.
  \<^item> \<open>Interrupts\<close>: the whole keyboard handler, with the shells it starts, and the dispatch.
  \<^item> \<open>Kernel\<close>: the transition system of system calls and interrupts, and its invariant.
  \<^item> \<open>Waiting\<close>: processes that wait for a line or a tick.
  \<^item> \<open>Boot\<close>: \<open>entry\<close> of \<^verbatim>\<open>kernel.c\<close>, the multiboot information and the segment descriptors.
  \<^item> \<open>User_Support\<close>: the library of the user programs (\<^verbatim>\<open>ece391support.c\<close>), against the kernel's.
  \<^item> \<open>User_Input\<close>: the lines typed at the keyboard, as interrupts that arrive while a read waits.
  \<^item> \<open>User_Calls\<close>: the dispatch of \<^verbatim>\<open>system_handler.S\<close>, the calls a program makes
    (\<^verbatim>\<open>ece391syscall.S\<close>) as the record \<open>syscalls\<close>, and \<open>kernel_calls\<close>, which are the calls of the modelled
    kernel; the locale \<open>user_system\<close> is what programs rely on, interpreted on \<open>kernel_calls\<close>.
  \<^item> \<open>User_Files\<close>, \<open>User_Grep\<close>: \<open>cat\<close>, \<open>ls\<close> and \<open>grep\<close>; \<open>User_Errors\<close>: the conformance tests of
    \<^verbatim>\<open>ece391syserr.c\<close> with the locale \<open>checked_system\<close> of the calls that must fail.
  \<^item> \<open>User_Run\<close>: a program that runs another; \<open>User_Shell\<close>: the shell, \<open>hello\<close>, \<open>counter\<close> and
    \<open>testprint\<close> with the locale \<open>interactive_system\<close> of the typed lines; \<open>User_Session\<close>: whole sessions.
    \<open>User_Demo\<close> is the machine of the examples.
  \<^item> \<open>User_Clock\<close>: programs that wait for the clock and \<open>pingpong\<close>, with the locale \<open>clock_system\<close> of the ticks to come;
    \<open>User_Signals\<close>: the signal test \<^verbatim>\<open>ece391sigtest.c\<close>, with the locale \<open>signal_system\<close>.
  \<^item> \<open>Blink\<close>: the list of blinking characters of \<^verbatim>\<open>src/fish/blink.S\<close> against a plain list, with the locale \<open>op_refinement\<close> for
    sequences of operations; \<open>Fish\<close>: the program \<^verbatim>\<open>fish.c\<close> over it and the system calls.
  \<^item> \<open>Host_Emulation\<close>: \<^verbatim>\<open>ece391emulate.c\<close>, the system calls on a Linux host, over a record \<open>host\<close> of what it calls.

  \<^bold>\<open>What is shown.\<close> The string and memory routines equal their references and stay inside their
  objects, with the exact inputs on which they do not. Printing numbers is inverse to reading them.
  The interrupt masks and the clock's registers track what the drivers were asked for. The keyboard
  decodes the US layout, and the key handling refines a line editor of 127
  characters. Switching terminals loses nothing. Reading files and directories
  delivers the contents of the image, across blocks and through descriptors. \<open>sys_execute\<close>
  terminates on a well-formed program, loads it into its own frame and enters it; \<open>sys_halt\<close>
  undoes \<open>sys_execute\<close>. \<open>entry\<close> leads from well-formed boot information to the first shell. In every
  reachable configuration the active processes form a chain
  with consistent control blocks and stacks, the running program reaches its own frame
  only, and the line buffers are accessed inside their bounds. A line that is typed reaches the process that waits for it.
  Above the system calls, \<open>cat\<close> prints exactly the file it is asked for, \<open>ls\<close> the names of the image, \<open>grep\<close> exactly the
  lines that contain the string, also across its buffer; the kernel passes all its conformance tests; and a shell session
  shows for each typed line the prompt, the echo and the output of the program it started. \<open>pingpong\<close> shows its letter at every column out and back, one per tick, and never
  returns. The list code of the fish animation implements a plain list of characters that blink in their periods, and the fish program plays its
  script on it. On the host a command line becomes the vector of its words, and a program gets the same arguments as on the kernel.
  Some theorems state where the code misbehaves: leaked process slots, null operations
  tables, \<open>sys_vidmap\<close>, backspace below video memory, a full line that is read too far, a fault of a program
  that stops the kernel, a character at location 0 that makes a list circular, arguments that overrun their buffer on the host.

  \<^bold>\<open>Bounds and loops.\<close> Loops are structural or have a measure; the loading loop of \<open>sys_execute\<close>
  need not end, so it is a partial function into \<^typ>\<open>'a option\<close>, and for well-formed files it
  is proved to end; so are the loops of the user programs, whose theorems state that they return. No fuel is used. The kernel is entered with at most one page of its
  8 KB stack in use (\<open>stack_ok\<close>); stack overflow is outside the model.

  \<^bold>\<open>Not modelled.\<close> A system call that does not wait is one step, so interrupts inside it are not
  interleaved. The translation buffer is not modelled: a changed directory entry acts at once. The
  register frames of \<^verbatim>\<open>system_handler.S\<close> and \<^verbatim>\<open>interrupt_handler.S\<close>, \<^verbatim>\<open>boot.S\<close> and \<^verbatim>\<open>x86_desc.S\<close> are assembly around the modelled functions.
  Interrupts between \<open>sti\<close> and the first shell are not interleaved with the boot sequence.
  \<^verbatim>\<open>tests.c\<close> and \<^verbatim>\<open>debug.h\<close> hold test drivers and macros. The global \<open>offset\<close> that \<open>fsystem_init\<close>
  clears is never read. A user program is a function of the calls it makes: its machine code, its stack and its page are not
  executed, what the code at an entry point does is a parameter (\<open>env_run\<close>) that the theorems set to the modelled
  program, keys arrive only while a program waits for a line, and the contents of uninitialised buffers are
  parameters. \<^verbatim>\<open>ece391sigtest.c\<close> is followed up to its store through a null pointer, which stops the kernel; its handlers are
  modelled but no kernel of the repository calls them. Since the kernel's \<open>sys_vidmap\<close> unmaps the program that calls it, the theorem on the whole fish program
  is about \<open>mapped_calls\<close>, the kernel's calls with a \<open>vidmap\<close> that leaves the program mapped. The host below the emulation is a parameter. The
  copies of \<^verbatim>\<open>ece391emulate.c\<close> and \<^verbatim>\<open>ece391support.c\<close> under \<^verbatim>\<open>src/fish\<close> repeat the modelled routines.
\<close>

end
